(* ===== verification/Go_Prelude.thy ===== *)
theory Go_Prelude
  imports Main "HOL-Library.AList" "HOL-Library.List_Lexorder" "HOL-Library.Char_ord"
    "HOL-Library.Multiset"
begin

text \<open>
  The parts of Go and of its standard library the components share.

  A Go string is a byte string, here the char list \<^typ>\<open>string\<close>. The case and space functions of
  package \<^verbatim>\<open>strings\<close> are modelled on ASCII: a byte outside ASCII is left alone (SQLite's own
  \<^verbatim>\<open>lower()\<close> is defined exactly so). Byte-wise comparison of strings is the lexicographic order of
  \<^verbatim>\<open>List_Lexorder\<close> over \<^verbatim>\<open>Char_ord\<close>. A \<^verbatim>\<open>time.Time\<close> is the number of nanoseconds since the Unix
  epoch and a \<^verbatim>\<open>time.Duration\<close> a number of nanoseconds, both unbounded. A Go map is an association
  list; the order of the list stands for the order one iteration happens to take, so a statement
  about all lists holds for every iteration order. A function that returns a value and an error is a
  sum with the error on the left.
\<close>

type_synonym Time = int
type_synonym Duration = int

section \<open>Collections of facts\<close>

named_theorems go_str \<open>laws of the string functions\<close>
named_theorems go_map \<open>laws of association-list maps\<close>

section \<open>Package time\<close>

definition Second :: Duration where "Second = 1000000000"
definition Minute :: Duration where "Minute = 60 * Second"
definition Hour :: Duration where "Hour = 60 * Minute"

text \<open>The zero \<^verbatim>\<open>time.Time\<close> is 0001-01-01 UTC.\<close>

definition zeroTime :: Time where "zeroTime = - 62135596800 * Second"

definition Unix :: "Time \<Rightarrow> int" where "Unix t = t div Second"

lemma duration_pos [simp]: "0 < Second" "0 < Minute" "0 < Hour"
  by (simp_all add: Second_def Minute_def Hour_def)

lemma Unix_bounds: "Unix t * Second \<le> t" "t < (Unix t + 1) * Second"
  by (simp_all add: Unix_def Second_def)

lemma Unix_mono: "s \<le> t \<Longrightarrow> Unix s \<le> Unix t"
  unfolding Unix_def by (simp add: zdiv_mono1)

section \<open>Package strings\<close>

definition ToLowerByte :: "char \<Rightarrow> char" where
  "ToLowerByte c = (if 65 \<le> (of_char c :: nat) \<and> (of_char c :: nat) \<le> 90
                    then char_of ((of_char c :: nat) + 32) else c)"

definition ToUpperByte :: "char \<Rightarrow> char" where
  "ToUpperByte c = (if 97 \<le> (of_char c :: nat) \<and> (of_char c :: nat) \<le> 122
                    then char_of ((of_char c :: nat) - 32) else c)"

definition ToLower :: "string \<Rightarrow> string" where "ToLower = map ToLowerByte"
definition ToUpper :: "string \<Rightarrow> string" where "ToUpper = map ToUpperByte"

definition EqualFold :: "string \<Rightarrow> string \<Rightarrow> bool" where
  "EqualFold s t = (ToLower s = ToLower t)"

definition isSpace :: "char \<Rightarrow> bool" where
  "isSpace c = ((of_char c :: nat) \<in> {9, 10, 11, 12, 13, 32})"

definition TrimSpace :: "string \<Rightarrow> string" where
  "TrimSpace s = rev (dropWhile isSpace (rev (dropWhile isSpace s)))"

text \<open>\<^verbatim>\<open>LastIndex\<close> and \<^verbatim>\<open>Index\<close> for a one-byte substring, with Go's -1 for absence.\<close>

fun LastIndex :: "string \<Rightarrow> char \<Rightarrow> int" where
  "LastIndex [] c = -1"
| "LastIndex (x # xs) c = (let i = LastIndex xs c in
     if 0 \<le> i then i + 1 else if x = c then 0 else -1)"

fun Index :: "string \<Rightarrow> char \<Rightarrow> int" where
  "Index [] c = -1"
| "Index (x # xs) c = (if x = c then 0 else (let i = Index xs c in if i < 0 then -1 else i + 1))"

text \<open>\<^verbatim>\<open>strings.Cut\<close> for a one-byte separator: before, after and whether it was found.\<close>

definition Cut :: "string \<Rightarrow> char \<Rightarrow> string \<times> string \<times> bool" where
  "Cut s c = (if 0 \<le> Index s c then (take (nat (Index s c)) s, drop (nat (Index s c) + 1) s, True)
              else (s, [], False))"

fun Split :: "string \<Rightarrow> char \<Rightarrow> string list" where
  "Split [] c = [[]]"
| "Split (x # xs) c = (if x = c then [] # Split xs c
     else (case Split xs c of [] \<Rightarrow> [[x]] | p # ps \<Rightarrow> (x # p) # ps))"

fun Join :: "string list \<Rightarrow> char \<Rightarrow> string" where
  "Join [] c = []"
| "Join [p] c = p"
| "Join (p # q # ps) c = p @ c # Join (q # ps) c"

definition HasPrefix :: "string \<Rightarrow> string \<Rightarrow> bool" where
  "HasPrefix s p = (take (length p) s = p)"

definition HasSuffix :: "string \<Rightarrow> string \<Rightarrow> bool" where
  "HasSuffix s p = (length p \<le> length s \<and> drop (length s - length p) s = p)"

subsection \<open>Laws\<close>

lemma ToLowerByte_idem [simp]: "ToLowerByte (ToLowerByte c) = ToLowerByte c"
  by (auto simp: ToLowerByte_def of_char_of)

lemma ToLower_idem [simp, go_str]: "ToLower (ToLower s) = ToLower s"
  by (simp add: ToLower_def)

lemma ToLower_append [simp, go_str]: "ToLower (s @ t) = ToLower s @ ToLower t"
  by (simp add: ToLower_def)

lemma ToLower_Nil_iff [simp]: "ToLower s = [] \<longleftrightarrow> s = []"
  by (simp add: ToLower_def)

lemma EqualFold_refl [simp]: "EqualFold s s"
  by (simp add: EqualFold_def)

lemma EqualFold_sym: "EqualFold s t \<Longrightarrow> EqualFold t s"
  by (simp add: EqualFold_def)

lemma LastIndex_neg_iff [go_str]: "LastIndex s c < 0 \<longleftrightarrow> c \<notin> set s"
  by (induction s) (auto simp: Let_def)

lemma LastIndex_absent [simp]: "c \<notin> set s \<Longrightarrow> LastIndex s c = -1"
  by (induction s) (auto simp: Let_def)

lemma LastIndex_last [simp, go_str]:
  "c \<notin> set b \<Longrightarrow> LastIndex (a @ c # b) c = int (length a)"
  by (induction a) (auto simp: Let_def)

lemma LastIndex_split:
  assumes "0 \<le> LastIndex s c"
  shows "s = take (nat (LastIndex s c)) s @ c # drop (nat (LastIndex s c) + 1) s
         \<and> c \<notin> set (drop (nat (LastIndex s c) + 1) s)"
proof -
  have "c \<in> set s" using assms LastIndex_neg_iff[of s c] by auto
  then obtain a b where s: "s = a @ c # b" "c \<notin> set b"
    by (auto dest: split_list_last)
  then have "nat (LastIndex s c) = length a" by simp
  then show ?thesis using s by simp
qed

lemma Index_neg_iff [go_str]: "Index s c < 0 \<longleftrightarrow> c \<notin> set s"
  by (induction s) (auto simp: Let_def)

lemma Index_first [simp, go_str]:
  "c \<notin> set a \<Longrightarrow> Index (a @ c # b) c = int (length a)"
  by (induction a) (auto simp: Let_def)

lemma Index_absent [simp]: "c \<notin> set s \<Longrightarrow> Index s c = -1"
  by (induction s) (auto simp: Let_def)

lemma Cut_found [simp, go_str]: "c \<notin> set a \<Longrightarrow> Cut (a @ c # b) c = (a, b, True)"
  by (simp add: Cut_def)

lemma Cut_absent [simp, go_str]: "c \<notin> set s \<Longrightarrow> Cut s c = (s, [], False)"
  by (simp add: Cut_def)

lemma Cut_foundD:
  assumes "Cut s c = (a, b, True)"
  shows "s = a @ c # b \<and> c \<notin> set a"
proof -
  have "c \<in> set s"
    using assms Index_neg_iff[of s c] by (auto simp: Cut_def split: if_splits)
  then obtain a' b' where s: "s = a' @ c # b'" "c \<notin> set a'"
    by (auto dest: split_list_first)
  then show ?thesis using assms by simp
qed

lemma Split_nonempty [simp]: "Split s c \<noteq> []"
  by (induction s) (auto split: list.splits)

lemma Split_no_sep: "p \<in> set (Split s c) \<Longrightarrow> c \<notin> set p"
  by (induction s arbitrary: p) (auto split: list.splits if_splits)

lemma Split_absent: "c \<notin> set s \<Longrightarrow> Split s c = [s]"
  by (induction s) auto

lemma Split_sep: "c \<notin> set p \<Longrightarrow> Split (p @ c # s) c = p # Split s c"
  by (induction p) auto

lemma Split_Join: "ps \<noteq> [] \<Longrightarrow> \<forall>p\<in>set ps. c \<notin> set p \<Longrightarrow> Split (Join ps c) c = ps"
  by (induction ps c rule: Join.induct) (simp_all add: Split_absent Split_sep)

lemma Join_Split [go_str]: "Join (Split s c) c = s"
proof (induction s)
  case (Cons x xs)
  obtain p ps where ps: "Split xs c = p # ps" by (cases "Split xs c") auto
  then show ?case using Cons by (cases ps) auto
qed simp

lemma dropWhile_none: "\<forall>x\<in>set s. \<not> P x \<Longrightarrow> dropWhile P s = s"
  by (cases s) auto

lemma TrimSpace_no_space: "\<forall>x\<in>set s. \<not> isSpace x \<Longrightarrow> TrimSpace s = s"
  by (simp add: TrimSpace_def dropWhile_none)

section \<open>Maps\<close>

text \<open>
  \<^verbatim>\<open>m[k]\<close> is \<^const>\<open>map_of\<close>, \<^verbatim>\<open>m[k] = v\<close> is \<^const>\<open>AList.update\<close>, \<^verbatim>\<open>delete(m, k)\<close> is
  \<^const>\<open>AList.delete\<close>; a list that stands for a map has distinct keys.
\<close>

abbreviation wf_map :: "('k \<times> 'v) list \<Rightarrow> bool" where
  "wf_map m \<equiv> distinct (map fst m)"

lemmas wf_map_update [simp, go_map] = distinct_update
lemmas map_of_update [simp, go_map] = update_conv

lemma wf_map_in_set_iff: "wf_map m \<Longrightarrow> (k, v) \<in> set m \<longleftrightarrow> map_of m k = Some v"
  by simp

declare map_of_eq_Some_iff [simp del] Some_eq_map_of_iff [simp del]

lemma wf_map_filter [simp]: "wf_map m \<Longrightarrow> wf_map (filter P m)"
  by (rule distinct_map_filter)

section \<open>Lists as tables\<close>

text \<open>At most one row of a table satisfies a predicate on a unique key.\<close>

lemma distinct_key_unique:
  "distinct (map f xs) \<Longrightarrow> x \<in> set xs \<Longrightarrow> y \<in> set xs \<Longrightarrow> f x = f y \<Longrightarrow> x = y"
  by (auto simp: distinct_map inj_on_def)

lemma filter_distinct_key:
  assumes "distinct (map f xs)" "x \<in> set xs"
  shows "filter (\<lambda>y. f y = f x) xs = [x]"
  using assms
proof (induction xs)
  case (Cons a xs)
  show ?case
  proof (cases "a = x")
    case True
    then have "filter (\<lambda>y. f y = f x) xs = []"
      using Cons.prems by (auto simp: filter_empty_conv rev_image_eqI)
    then show ?thesis using True by simp
  next
    case False
    then have "x \<in> set xs" using Cons.prems by simp
    then have "f a \<noteq> f x" using Cons.prems by (auto simp: rev_image_eqI)
    then show ?thesis using Cons \<open>x \<in> set xs\<close> by simp
  qed
qed simp

lemma find_distinct_key:
  "distinct (map f xs) \<Longrightarrow> x \<in> set xs \<Longrightarrow> f x = k \<Longrightarrow> find (\<lambda>y. f y = k) xs = Some x"
  by (induction xs) (auto simp: rev_image_eqI)

lemma find_SomeD: "find P xs = Some x \<Longrightarrow> x \<in> set xs \<and> P x"
  by (auto simp: find_Some_iff)

lemma find_NoneD: "find P xs = None \<Longrightarrow> x \<in> set xs \<Longrightarrow> \<not> P x"
  by (auto simp: find_None_iff)

end
