(* ===== verification/Go_Crypto.thy ===== *)
theory Go_Crypto
  imports Go_Prelude "HOL-Library.Word"
begin

text \<open>
  The hashes and encodings the sources take from Go's standard library: SHA-256 (FIPS 180-4) and
  HMAC-SHA256 (RFC 2104) over byte strings, lowercase hex, and the unpadded base64 of
  \<^verbatim>\<open>base64.RawURLEncoding\<close> and \<^verbatim>\<open>base64.RawStdEncoding\<close>; on top of them the two helpers of the repository that are only hashing,
  \<^verbatim>\<open>secret.Hash\<close> (src/state/internal/secret/secret.go) and \<^verbatim>\<open>labeledMAC\<close> (src/oidc/mac.go).
  Nothing below assumes collision resistance: where a property needs two digests to differ it says so.
\<close>

unbundle bit_operations_syntax

section \<open>SHA-256\<close>

definition sha_ch :: "32 word \<Rightarrow> 32 word \<Rightarrow> 32 word \<Rightarrow> 32 word" where
  "sha_ch x y z = ((x AND y) XOR (NOT x AND z))"

definition sha_maj :: "32 word \<Rightarrow> 32 word \<Rightarrow> 32 word \<Rightarrow> 32 word" where
  "sha_maj x y z = ((x AND y) XOR (x AND z) XOR (y AND z))"

definition sha_rotr :: "nat \<Rightarrow> 32 word \<Rightarrow> 32 word" where
  "sha_rotr n x = (drop_bit n x OR push_bit (32 - n) x)"

definition sha_bsig0 :: "32 word \<Rightarrow> 32 word" where
  "sha_bsig0 x = (sha_rotr 2 x XOR sha_rotr 13 x XOR sha_rotr 22 x)"

definition sha_bsig1 :: "32 word \<Rightarrow> 32 word" where
  "sha_bsig1 x = (sha_rotr 6 x XOR sha_rotr 11 x XOR sha_rotr 25 x)"

definition sha_ssig0 :: "32 word \<Rightarrow> 32 word" where
  "sha_ssig0 x = (sha_rotr 7 x XOR sha_rotr 18 x XOR drop_bit 3 x)"

definition sha_ssig1 :: "32 word \<Rightarrow> 32 word" where
  "sha_ssig1 x = (sha_rotr 17 x XOR sha_rotr 19 x XOR drop_bit 10 x)"

text \<open>
  The round constants are the first 32 bits of the fractional parts of the cube roots of the first 64
  primes; \<^verbatim>\<open>rootBits e b n 0\<close> is the integer \<^verbatim>\<open>e\<close>-th root of \<^verbatim>\<open>n\<close> found bit by bit from bit \<^verbatim>\<open>b - 1\<close> down.
\<close>

fun rootBits :: "nat \<Rightarrow> nat \<Rightarrow> int \<Rightarrow> int \<Rightarrow> int" where
  "rootBits e 0 n r = r"
| "rootBits e (Suc b) n r = rootBits e b n (if (r + 2 ^ b) ^ e \<le> n then r + 2 ^ b else r)"

definition sha_primes :: "int list" where
  "sha_primes = [
    2, 3, 5, 7, 11, 13, 17, 19, 23, 29, 31, 37, 41, 43, 47, 53, 59, 61, 67, 71, 73, 79, 83, 89, 97, 101, 103,
    107, 109, 113, 127, 131, 137, 139, 149, 151, 157, 163, 167, 173, 179, 181, 191, 193, 197, 199, 211, 223,
    227, 229, 233, 239, 241, 251, 257, 263, 269, 271, 277, 281, 283, 293, 307, 311]"

definition sha_k :: "32 word list" where
  "sha_k = map (\<lambda>p. word_of_int (rootBits 3 36 (p * 2 ^ 96) 0)) sha_primes"

fun sha_sched :: "nat \<Rightarrow> 32 word list \<Rightarrow> 32 word list" where
  "sha_sched 0 w = w"
| "sha_sched (Suc n) w = (let t = length w in
     sha_sched n (w @ [sha_ssig1 (w ! (t - 2)) + w ! (t - 7) + sha_ssig0 (w ! (t - 15)) + w ! (t - 16)]))"

type_synonym sha_state =
  "32 word \<times> 32 word \<times> 32 word \<times> 32 word \<times> 32 word \<times> 32 word \<times> 32 word \<times> 32 word"

definition sha_round :: "32 word \<times> 32 word \<Rightarrow> sha_state \<Rightarrow> sha_state" where
  "sha_round = (\<lambda>(k, w) (a, b, c, d, e, f, g, h).
     (let t1 = h + sha_bsig1 e + sha_ch e f g + k + w; t2 = sha_bsig0 a + sha_maj a b c
      in (t1 + t2, a, b, c, d + t1, e, f, g)))"

definition sha_add :: "sha_state \<Rightarrow> sha_state \<Rightarrow> sha_state" where
  "sha_add = (\<lambda>(a, b, c, d, e, f, g, h) (a', b', c', d', e', f', g', h').
     (a + a', b + b', c + c', d + d', e + e', f + f', g + g', h + h'))"

definition sha_block :: "32 word list \<Rightarrow> sha_state \<Rightarrow> sha_state" where
  "sha_block blk H = sha_add H (fold sha_round (zip sha_k (sha_sched 48 blk)) H)"

definition sha_h0 :: sha_state where
  "sha_h0 = (0x6a09e667, 0xbb67ae85, 0x3c6ef372, 0xa54ff53a, 0x510e527f, 0x9b05688c, 0x1f83d9ab, 0x5be0cd19)"

fun sha_words :: "8 word list \<Rightarrow> 32 word list" where
  "sha_words (a # b # c # d # bs) =
     (push_bit 24 (ucast a) OR push_bit 16 (ucast b) OR push_bit 8 (ucast c) OR ucast d) # sha_words bs"
| "sha_words _ = []"

definition sha_bytes :: "32 word \<Rightarrow> 8 word list" where
  "sha_bytes w = [ucast (drop_bit 24 w), ucast (drop_bit 16 w), ucast (drop_bit 8 w), ucast w]"

definition sha_pad :: "8 word list \<Rightarrow> 8 word list" where
  "sha_pad m = m @ [128] @ replicate ((119 - length m mod 64) mod 64) 0 @
     (let n = 8 * int (length m) in sha_bytes (word_of_int (n div 2 ^ 32)) @ sha_bytes (word_of_int n))"

fun sha_blocks :: "nat \<Rightarrow> sha_state \<Rightarrow> 32 word list \<Rightarrow> sha_state" where
  "sha_blocks 0 H ws = H"
| "sha_blocks (Suc n) H ws = (if ws = [] then H else sha_blocks n (sha_block (take 16 ws) H) (drop 16 ws))"

definition sha256_bytes :: "8 word list \<Rightarrow> 8 word list" where
  "sha256_bytes m = (let ws = sha_words (sha_pad m) in
     (case sha_blocks (length ws) sha_h0 ws of (a, b, c, d, e, f, g, h) \<Rightarrow>
        concat (map sha_bytes [a, b, c, d, e, f, g, h])))"

definition toBytes :: "string \<Rightarrow> 8 word list" where "toBytes = map of_char"
definition fromBytes :: "8 word list \<Rightarrow> string" where "fromBytes = map (\<lambda>w. char_of (unat w))"

definition Sum256 :: "string \<Rightarrow> string" where
  "Sum256 s = fromBytes (sha256_bytes (toBytes s))"

lemma length_Sum256 [simp]: "length (Sum256 s) = 32"
  by (simp add: Sum256_def fromBytes_def sha256_bytes_def sha_bytes_def Let_def split: prod.split)

section \<open>HMAC-SHA256\<close>

definition hmacKey :: "string \<Rightarrow> 8 word list" where
  "hmacKey key = (let k = toBytes (if 64 < length key then Sum256 key else key)
     in k @ replicate (64 - length k) 0)"

definition hmac :: "string \<Rightarrow> string \<Rightarrow> string" where
  "hmac key msg =
     fromBytes (sha256_bytes (map (\<lambda>b. b XOR 0x5c) (hmacKey key) @
       sha256_bytes (map (\<lambda>b. b XOR 0x36) (hmacKey key) @ toBytes msg)))"

lemma length_hmac [simp]: "length (hmac k m) = 32"
  by (simp add: hmac_def fromBytes_def sha256_bytes_def[of "_ @ _"] sha_bytes_def Let_def split: prod.split)

section \<open>Hex\<close>

definition hexDigit :: "nat \<Rightarrow> char" where
  "hexDigit n = ''0123456789abcdef'' ! n"

definition hexEncode :: "string \<Rightarrow> string" where
  "hexEncode s = concat (map (\<lambda>c. let n = of_char c in [hexDigit (n div 16), hexDigit (n mod 16)]) s)"

definition Hash :: "string \<Rightarrow> string" where
  "Hash v = hexEncode (Sum256 v)"

lemma length_hexEncode [simp]: "length (hexEncode s) = 2 * length s"
  by (induction s) (simp_all add: hexEncode_def Let_def)

lemma length_Hash [simp]: "length (Hash v) = 64"
  by (simp add: Hash_def)

section \<open>Domain-separated MACs\<close>

definition macLabelSessionCookie :: string where
  "macLabelSessionCookie = ''tempogate/session-cookie''"

definition macLabelDeviceBounceState :: string where
  "macLabelDeviceBounceState = ''tempogate/device/bounce-state''"

definition labeledMAC :: "string \<Rightarrow> string \<Rightarrow> string \<Rightarrow> string" where
  "labeledMAC key label msg = hmac key (label @ [char_of (0::nat)] @ msg)"

text \<open>The NUL separator: no two labels of the program reach the same MAC input.\<close>

lemma mac_inputs_disjoint:
  "macLabelSessionCookie @ [char_of (0::nat)] @ m \<noteq> macLabelDeviceBounceState @ [char_of (0::nat)] @ m'"
  by (simp add: macLabelSessionCookie_def macLabelDeviceBounceState_def)

section \<open>Unpadded base64\<close>

definition b64url :: string where
  "b64url = ''ABCDEFGHIJKLMNOPQRSTUVWXYZabcdefghijklmnopqrstuvwxyz0123456789-_''"

definition b64std :: string where
  "b64std = ''ABCDEFGHIJKLMNOPQRSTUVWXYZabcdefghijklmnopqrstuvwxyz0123456789+/''"

definition b64val :: "string \<Rightarrow> char \<Rightarrow> nat option" where
  "b64val alphabet c = (let i = Index alphabet c in if i < 0 then None else Some (nat i))"

fun b64enc :: "nat list \<Rightarrow> nat list" where
  "b64enc (a # b # c # bs) =
     [a div 4, (a mod 4) * 16 + b div 16, (b mod 16) * 4 + c div 64, c mod 64] @ b64enc bs"
| "b64enc [a, b] = [a div 4, (a mod 4) * 16 + b div 16, (b mod 16) * 4]"
| "b64enc [a] = [a div 4, (a mod 4) * 16]"
| "b64enc [] = []"

text \<open>The decoder is not strict: the unused bits of a final short group are ignored.\<close>

fun b64dec :: "nat list \<Rightarrow> nat list option" where
  "b64dec (v # w # x # y # vs) = (case b64dec vs of None \<Rightarrow> None
     | Some bs \<Rightarrow> Some ([v * 4 + w div 16, (w mod 16) * 16 + x div 4, (x mod 4) * 64 + y] @ bs))"
| "b64dec [v, w, x] = Some [v * 4 + w div 16, (w mod 16) * 16 + x div 4]"
| "b64dec [v, w] = Some [v * 4 + w div 16]"
| "b64dec [v] = None"
| "b64dec [] = Some []"

fun mapOption :: "('a \<Rightarrow> 'b option) \<Rightarrow> 'a list \<Rightarrow> 'b list option" where
  "mapOption f [] = Some []"
| "mapOption f (x # xs) = (case f x of None \<Rightarrow> None
     | Some y \<Rightarrow> (case mapOption f xs of None \<Rightarrow> None | Some ys \<Rightarrow> Some (y # ys)))"

definition rawEncode :: "string \<Rightarrow> string \<Rightarrow> string" where
  "rawEncode alphabet s = map (\<lambda>v. alphabet ! v) (b64enc (map of_char s))"

text \<open>Go's decoder skips carriage returns and line feeds.\<close>

definition rawDecode :: "string \<Rightarrow> string \<Rightarrow> string option" where
  "rawDecode alphabet s =
     (case mapOption (b64val alphabet) (filter (\<lambda>c. of_char c \<noteq> (10::nat) \<and> of_char c \<noteq> (13::nat)) s) of
        None \<Rightarrow> None
      | Some vs \<Rightarrow> map_option (map char_of) (b64dec vs))"

definition RawURLEncode :: "string \<Rightarrow> string" where "RawURLEncode = rawEncode b64url"
definition RawURLDecode :: "string \<Rightarrow> string option" where "RawURLDecode = rawDecode b64url"
definition RawStdEncode :: "string \<Rightarrow> string" where "RawStdEncode = rawEncode b64std"
definition RawStdDecode :: "string \<Rightarrow> string option" where "RawStdDecode = rawDecode b64std"

definition wf_alphabet :: "string \<Rightarrow> bool" where
  "wf_alphabet al = (\<forall>n\<in>set [0..<64]. b64val al (al ! n) = Some n
     \<and> of_char (al ! n) \<noteq> (10::nat) \<and> of_char (al ! n) \<noteq> (13::nat))"

lemma wf_alphabets: "wf_alphabet b64url" "wf_alphabet b64std"
  by code_simp+

lemma wf_alphabetD:
  "wf_alphabet al \<Longrightarrow> n < 64 \<Longrightarrow> b64val al (al ! n) = Some n
     \<and> of_char (al ! n) \<noteq> (10::nat) \<and> of_char (al ! n) \<noteq> (13::nat)"
  by (simp add: wf_alphabet_def)

lemma b64enc_range: "\<forall>b\<in>set bs. b < 256 \<Longrightarrow> v \<in> set (b64enc bs) \<Longrightarrow> v < 64"
  by (induction bs rule: b64enc.induct) auto

lemma b64dec_b64enc: "\<forall>b\<in>set bs. b < 256 \<Longrightarrow> b64dec (b64enc bs) = Some bs"
  by (induction bs rule: b64enc.induct) auto

lemma mapOption_map: "\<forall>x\<in>set xs. f (g x) = Some x \<Longrightarrow> mapOption f (map g xs) = Some xs"
  by (induction xs) auto

lemma of_char_lt [simp]: "of_char c < (256::nat)"
  by (rule nat_of_char_less_256)

lemma rawDecode_rawEncode:
  assumes "wf_alphabet al"
  shows "rawDecode al (rawEncode al s) = Some s"
proof -
  let ?vs = "b64enc (map of_char s :: nat list)"
  have r: "\<forall>v\<in>set ?vs. v < 64" using b64enc_range[of "map of_char s"] by auto
  have "filter (\<lambda>c. of_char c \<noteq> (10::nat) \<and> of_char c \<noteq> (13::nat)) (map (\<lambda>v. al ! v) ?vs) = map (\<lambda>v. al ! v) ?vs"
    using r wf_alphabetD[OF assms] by (auto simp: filter_id_conv)
  moreover have "mapOption (b64val al) (map (\<lambda>v. al ! v) ?vs) = Some ?vs"
    using r wf_alphabetD[OF assms] by (intro mapOption_map) simp
  moreover have "b64dec ?vs = Some (map of_char s)"
    by (rule b64dec_b64enc) auto
  ultimately show ?thesis
    by (simp add: rawDecode_def rawEncode_def comp_def)
qed

lemma RawURLDecode_Encode [simp]: "RawURLDecode (RawURLEncode s) = Some s"
  by (simp add: RawURLDecode_def RawURLEncode_def rawDecode_rawEncode wf_alphabets)

lemma RawStdDecode_Encode [simp]: "RawStdDecode (RawStdEncode s) = Some s"
  by (simp add: RawStdDecode_def RawStdEncode_def rawDecode_rawEncode wf_alphabets)

end
