(* ===== verification/Go_Http.thy ===== *)
theory Go_Http
  imports Go_Crypto
begin

text \<open>
  The parts of the Go standard library that parse HTTP inputs: padded base64, percent-encoding of query
  components and form bodies (\<^verbatim>\<open>encoding/base64\<close>, \<^verbatim>\<open>net/url\<close>). A parsed form is the list of its pairs in
  order; \<^verbatim>\<open>Get\<close> returns the first value of a key, or the empty string.
\<close>

section \<open>Padded base64\<close>

definition StdEncode :: "string \<Rightarrow> string" where
  "StdEncode s = RawStdEncode s @ replicate ((3 - length s mod 3) mod 3) (CHR ''='')"

definition StdDecode :: "string \<Rightarrow> string option" where
  "StdDecode s = (let t = filter (\<lambda>c. of_char c \<noteq> (10::nat) \<and> of_char c \<noteq> (13::nat)) s;
       raw = (if HasSuffix t ''=='' then take (length t - 2) t else if HasSuffix t ''='' then take (length t - 1) t else t)
     in if length t mod 4 \<noteq> 0 then None else RawStdDecode raw)"

section \<open>Percent-encoding\<close>

definition hexVal :: "char \<Rightarrow> nat option" where
  "hexVal c = (let n = of_char c :: nat in
     if 48 \<le> n \<and> n \<le> 57 then Some (n - 48) else if 97 \<le> n \<and> n \<le> 102 then Some (n - 87)
     else if 65 \<le> n \<and> n \<le> 70 then Some (n - 55) else None)"

fun QueryUnescape :: "string \<Rightarrow> string option" where
  "QueryUnescape [] = Some []"
| "QueryUnescape (c # s) =
     (if c = CHR ''%'' then
        (case s of h # l # r \<Rightarrow> (case (hexVal h, hexVal l) of
             (Some a, Some b) \<Rightarrow> map_option (\<lambda>t. char_of (16 * a + b) # t) (QueryUnescape r)
           | _ \<Rightarrow> None)
         | _ \<Rightarrow> None)
      else map_option (\<lambda>t. (if c = CHR ''+'' then CHR '' '' else c) # t) (QueryUnescape s))"

definition unreserved :: "char \<Rightarrow> bool" where
  "unreserved c = (let n = of_char c :: nat in
     (65 \<le> n \<and> n \<le> 90) \<or> (97 \<le> n \<and> n \<le> 122) \<or> (48 \<le> n \<and> n \<le> 57) \<or> c \<in> set ''-_.~'')"

definition hexUpper :: "nat \<Rightarrow> char" where
  "hexUpper n = ''0123456789ABCDEF'' ! n"

definition escapeByte :: "char \<Rightarrow> string" where
  "escapeByte c = (let n = of_char c :: nat in
     if unreserved c then [c] else if c = CHR '' '' then ''+''
     else [CHR ''%'', hexUpper (n div 16), hexUpper (n mod 16)])"

definition QueryEscape :: "string \<Rightarrow> string" where
  "QueryEscape s = concat (map escapeByte s)"

section \<open>Forms\<close>

type_synonym Values = "(string \<times> string) list"

fun ParseQuery_loop :: "string list \<Rightarrow> Values option" where
  "ParseQuery_loop [] = Some []"
| "ParseQuery_loop (kv # kvs) =
     (if CHR '';'' \<in> set kv then None
      else if kv = [] then ParseQuery_loop kvs
      else case Cut kv (CHR ''='') of (k, v, _) \<Rightarrow>
        (case (QueryUnescape k, QueryUnescape v) of
           (Some k', Some v') \<Rightarrow> map_option (\<lambda>r. (k', v') # r) (ParseQuery_loop kvs)
         | _ \<Rightarrow> None))"

text \<open>\<^verbatim>\<open>ParseQuery\<close> as its callers use it: any malformed pair is an error.\<close>

definition ParseQuery :: "string \<Rightarrow> Values option" where
  "ParseQuery query = (if query = [] then Some [] else ParseQuery_loop (Split query (CHR ''&'')))"

definition Get :: "Values \<Rightarrow> string \<Rightarrow> string" where
  "Get form key = (case map_of form key of None \<Rightarrow> [] | Some v \<Rightarrow> v)"

section \<open>Round trips\<close>

lemma hexVal_digit: "n < 16 \<Longrightarrow> hexVal (hexUpper n) = Some n \<and> hexUpper n \<noteq> CHR '':''"
proof -
  assume "n < 16"
  have "\<forall>n\<in>set [0..<16]. hexVal (hexUpper n) = Some n \<and> hexUpper n \<noteq> CHR '':''" by code_simp
  then show ?thesis using \<open>n < 16\<close> by simp
qed

lemma QueryUnescape_escapeByte: "QueryUnescape (escapeByte c @ s) = map_option (\<lambda>t. c # t) (QueryUnescape s)"
proof (cases "unreserved c")
  case True
  then have "c \<noteq> CHR ''%''" "c \<noteq> CHR ''+''" by (auto simp: unreserved_def)
  then show ?thesis using True by (simp add: escapeByte_def)
next
  case False
  have "of_char c div 16 < (16::nat)" by (simp add: less_mult_imp_div_less)
  then show ?thesis using False
    by (auto simp: escapeByte_def Let_def hexVal_digit)
qed

lemma QueryUnescape_QueryEscape [simp]: "QueryUnescape (QueryEscape s) = Some s"
  by (induction s) (simp_all add: QueryEscape_def QueryUnescape_escapeByte)

lemma escapeByte_no_colon: "CHR '':'' \<notin> set (escapeByte c)"
proof -
  have "hexUpper (of_char c div 16) \<noteq> CHR '':''" "hexUpper (of_char c mod 16) \<noteq> CHR '':''"
    using hexVal_digit[of "of_char c div 16"] hexVal_digit[of "of_char c mod 16"] by (simp_all add: less_mult_imp_div_less)
  then show ?thesis by (auto simp: escapeByte_def unreserved_def Let_def)
qed

lemma QueryEscape_no_colon: "CHR '':'' \<notin> set (QueryEscape s)"
  using escapeByte_no_colon by (auto simp: QueryEscape_def)

lemma HasSuffix_eq: "HasSuffix s p \<longleftrightarrow> (\<exists>u. s = u @ p)"
proof
  assume "HasSuffix s p"
  then have "s = take (length s - length p) s @ p" by (metis HasSuffix_def append_take_drop_id)
  then show "\<exists>u. s = u @ p" by blast
qed (auto simp: HasSuffix_def)

lemma length_b64enc: "length (b64enc bs) = 4 * (length bs div 3) + (if length bs mod 3 = 0 then 0 else length bs mod 3 + 1)"
proof (induction bs rule: b64enc.induct)
  case (1 a b c bs)
  have d: "(length bs + 3) div 3 = length bs div 3 + 1" "(length bs + 3) mod 3 = length bs mod 3" by simp_all
  have l: "length (a # b # c # bs) = length bs + 3" "length (b64enc (a # b # c # bs)) = 4 + length (b64enc bs)" by simp_all
  show ?case unfolding l 1 d by simp
qed simp_all

lemma b64std_chars: "\<forall>n\<in>set [0..<64]. b64std ! n \<noteq> CHR ''='' \<and> of_char (b64std ! n) \<noteq> (10::nat) \<and> of_char (b64std ! n) \<noteq> (13::nat) \<and> \<not> isSpace (b64std ! n)"
  by code_simp

lemma RawStdEncode_chars:
  assumes "c \<in> set (RawStdEncode s)"
  shows "c \<noteq> CHR ''=''" "of_char c \<noteq> (10::nat)" "of_char c \<noteq> (13::nat)" "\<not> isSpace c"
proof -
  obtain v where v: "v \<in> set (b64enc (map of_char s))" "c = b64std ! v" using assms by (auto simp: RawStdEncode_def rawEncode_def)
  then have "v < 64" using b64enc_range[of "map of_char s" v] by auto
  then show "c \<noteq> CHR ''=''" "of_char c \<noteq> (10::nat)" "of_char c \<noteq> (13::nat)" "\<not> isSpace c" using b64std_chars v(2) by auto
qed

lemma StdDecode_StdEncode [simp]: "StdDecode (StdEncode s) = Some s"
proof -
  let ?r = "RawStdEncode s" and ?k = "(3 - length s mod 3) mod 3"
  let ?t = "?r @ replicate ?k (CHR ''='')"
  have f: "filter (\<lambda>c. of_char c \<noteq> (10::nat) \<and> of_char c \<noteq> (13::nat)) ?t = ?t"
    using RawStdEncode_chars by (auto simp: filter_id_conv)
  have len: "length ?r = 4 * (length s div 3) + (if length s mod 3 = 0 then 0 else length s mod 3 + 1)"
    by (simp add: RawStdEncode_def rawEncode_def length_b64enc)
  have last: "?r \<noteq> [] \<Longrightarrow> last ?r \<noteq> CHR ''=''" using RawStdEncode_chars(1) last_in_set by blast
  consider "length s mod 3 = 0" | "length s mod 3 = 1" | "length s mod 3 = 2" by linarith
  then show ?thesis
  proof cases
    case 1
    then have "\<not> HasSuffix ?r ''==''" "\<not> HasSuffix ?r ''=''" using last by (auto simp: HasSuffix_eq)
    then show ?thesis using 1 f len by (simp add: StdDecode_def StdEncode_def Let_def)
  next
    case 2
    then have "HasSuffix ?t ''==''" by (simp add: HasSuffix_def numeral_2_eq_2)
    then show ?thesis using 2 f len by (simp add: StdDecode_def StdEncode_def Let_def)
  next
    case 3
    then have "?r \<noteq> []" using len by auto
    then have "\<not> HasSuffix ?t ''==''" "HasSuffix ?t ''=''" using 3 last by (auto simp: HasSuffix_eq)
    then show ?thesis using 3 f len by (simp add: StdDecode_def StdEncode_def Let_def)
  qed
qed

end
