(* ===== verification/Admin_Guard.thy ===== *)
theory Admin_Guard
  imports Go_Http
begin

text \<open>
  The guard of the admin API (src/admin/guard.go): the allowlist of Host values against DNS rebinding and
  the bearer token checked against configured SHA-256 digests. \<^verbatim>\<open>middleware\<close> is what runs before every
  admin operation: it answers the request or hands it on with the caller's fingerprint. Logging and the
  OpenAPI declaration are left out. \<^verbatim>\<open>SplitHostPort\<close> and \<^verbatim>\<open>hexDecode\<close> are the standard library's.
\<close>

section \<open>Standard library\<close>

text \<open>\<^verbatim>\<open>net.SplitHostPort\<close>; its errors are not told apart by the code.\<close>

definition SplitHostPort :: "string \<Rightarrow> (string \<times> string) option" where
  "SplitHostPort hostport =
     (let i = LastIndex hostport (CHR '':'') in
      if i < 0 then None
      else if take 1 hostport = ''['' then
        (let close = Index hostport (CHR '']'') in
         if close < 0 \<or> close + 1 \<noteq> i then None
         else if CHR ''['' \<in> set (drop 1 hostport) \<or> CHR '']'' \<in> set (drop (nat (close + 1)) hostport) then None
         else Some (take (nat (close - 1)) (drop 1 hostport), drop (nat (i + 1)) hostport))
      else
        (let host = take (nat i) hostport in
         if CHR '':'' \<in> set host \<or> CHR ''['' \<in> set hostport \<or> CHR '']'' \<in> set hostport then None
         else Some (host, drop (nat (i + 1)) hostport)))"

definition trimBrackets :: "string \<Rightarrow> string" where
  "trimBrackets s = (let cut = (\<lambda>c. c = CHR ''['' \<or> c = CHR '']'') in rev (dropWhile cut (rev (dropWhile cut s))))"

fun hexDecode :: "string \<Rightarrow> string option" where
  "hexDecode [] = Some []"
| "hexDecode [_] = None"
| "hexDecode (h # l # r) = (case (hexVal h, hexVal l, hexDecode r) of
     (Some a, Some b, Some t) \<Rightarrow> Some (char_of (16 * a + b) # t) | _ \<Rightarrow> None)"

section \<open>The guard\<close>

text \<open>A digest is the string of its 32 bytes.\<close>

record Guard =
  gd_digests :: "string list"
  gd_exact :: "string list"
  gd_anyPort :: "string list"

definition fingerprintLen :: nat where "fingerprintLen = 8"

definition NewGuard :: Guard where
  "NewGuard = \<lparr>gd_digests = [], gd_exact = [], gd_anyPort = []\<rparr>"

definition WithTokenDigests :: "string list \<Rightarrow> Guard \<Rightarrow> Guard" where
  "WithTokenDigests digests g = g\<lparr>gd_digests := digests\<rparr>"

definition allowHost :: "string \<Rightarrow> Guard \<Rightarrow> Guard" where
  "allowHost host g =
     (let h = ToLower (TrimSpace host) in
      if SplitHostPort h \<noteq> None then g\<lparr>gd_exact := h # gd_exact g\<rparr>
      else g\<lparr>gd_anyPort := trimBrackets h # gd_anyPort g\<rparr>)"

definition WithAllowedHosts :: "string list \<Rightarrow> Guard \<Rightarrow> Guard" where
  "WithAllowedHosts hosts g = fold allowHost hosts g"

text \<open>The error names the entry's position, counted from 1.\<close>

fun ParseTokenDigests_loop :: "nat \<Rightarrow> string list \<Rightarrow> nat + string list" where
  "ParseTokenDigests_loop i [] = Inr []"
| "ParseTokenDigests_loop i (e # es) =
     (let entry = TrimSpace e in
      if entry = [] then ParseTokenDigests_loop (i + 1) es
      else case hexDecode entry of
        None \<Rightarrow> Inl (i + 1)
      | Some b \<Rightarrow> if length b \<noteq> 32 then Inl (i + 1)
          else (case ParseTokenDigests_loop (i + 1) es of Inl n \<Rightarrow> Inl n | Inr out \<Rightarrow> Inr (b # out)))"

definition ParseTokenDigests :: "string \<Rightarrow> nat + string list" where
  "ParseTokenDigests csv = ParseTokenDigests_loop 0 (Split csv (CHR '',''))"

definition bearerToken :: "string \<Rightarrow> string \<times> bool" where
  "bearerToken header = (case Cut header (CHR '' '') of (scheme, token, ok) \<Rightarrow>
     if \<not> ok \<or> \<not> EqualFold scheme ''Bearer'' then ([], False)
     else (let token = TrimSpace token in (token, token \<noteq> [])))"

text \<open>Every digest is compared; the first that matches is kept.\<close>

fun match_loop :: "string \<Rightarrow> string list \<Rightarrow> nat \<Rightarrow> int \<Rightarrow> int" where
  "match_loop digest [] i matched = matched"
| "match_loop digest (d # ds) i matched = match_loop digest ds (i + 1) (if digest = d \<and> matched < 0 then int i else matched)"

definition match :: "Guard \<Rightarrow> string \<Rightarrow> string \<times> bool" where
  "match g token =
     (let matched = match_loop (Sum256 token) (gd_digests g) 0 (-1) in
      if matched < 0 then ([], False)
      else (take fingerprintLen (hexEncode (gd_digests g ! nat matched)), True))"

definition hostAllowed :: "Guard \<Rightarrow> string \<Rightarrow> bool" where
  "hostAllowed g h =
     (let host = ToLower h in
      if host \<in> set (gd_exact g) then True
      else (let host = (case SplitHostPort host of Some (h, _) \<Rightarrow> h | None \<Rightarrow> host)
            in trimBrackets host \<in> set (gd_anyPort g)))"

record caller =
  ca_fingerprint :: string
  ca_remoteAddr :: string

datatype Guarded = Reject nat string | Next caller

definition middleware :: "Guard \<Rightarrow> string \<Rightarrow> string \<Rightarrow> string \<Rightarrow> Guarded" where
  "middleware g host authorization remoteAddr =
     (if \<not> hostAllowed g host then Reject 421 ''host_not_allowed''
      else case bearerToken authorization of (token, ok) \<Rightarrow>
        if gd_digests g = [] then Reject 401 ''locked''
        else if \<not> ok then Reject 401 ''missing_credentials''
        else case match g token of (fp, ok) \<Rightarrow>
          if \<not> ok then Reject 401 ''invalid_token''
          else Next \<lparr>ca_fingerprint = fp, ca_remoteAddr = remoteAddr\<rparr>)"

section \<open>Lemmas\<close>

lemma match_loop_keep: "0 \<le> m \<Longrightarrow> match_loop digest ds i m = m"
  by (induction ds arbitrary: i) simp_all

lemma match_loop_spec:
  "match_loop digest ds i (-1) = (if digest \<in> set ds then int (i + length (takeWhile (\<lambda>d. d \<noteq> digest) ds)) else -1)"
  by (induction ds arbitrary: i) (auto simp: match_loop_keep)

lemma nth_first: "x \<in> set ds \<Longrightarrow> ds ! length (takeWhile (\<lambda>d. d \<noteq> x) ds) = x"
  by (induction ds) auto

lemma nibble [simp]: "(of_char c :: nat) div 16 < 16"
  by (rule less_mult_imp_div_less) simp

lemma match_eq: "match g token = (if Sum256 token \<in> set (gd_digests g) then (take fingerprintLen (Hash token), True) else ([], False))"
proof (cases "Sum256 token \<in> set (gd_digests g)")
  case True
  then have "gd_digests g ! length (takeWhile (\<lambda>d. d \<noteq> Sum256 token) (gd_digests g)) = Sum256 token"
    by (rule nth_first)
  then show ?thesis using True by (simp add: match_def match_loop_spec Hash_def)
qed (simp add: match_def match_loop_spec)

lemma middleware_iff:
  "middleware g host auth addr = Next c \<longleftrightarrow> hostAllowed g host \<and> (\<exists>token. bearerToken auth = (token, True) \<and> Sum256 token \<in> set (gd_digests g) \<and>
     c = \<lparr>ca_fingerprint = take fingerprintLen (Hash token), ca_remoteAddr = addr\<rparr>)"
  by (auto simp: middleware_def match_eq split: prod.splits)

lemma hexVal_hexDigit: "n < 16 \<Longrightarrow> hexVal (hexDigit n) = Some n"
proof -
  assume "n < 16"
  then have "n \<in> set [0..<16]" by simp
  moreover have "\<forall>n\<in>set [0..<16]. hexVal (hexDigit n) = Some n" by code_simp
  ultimately show ?thesis by blast
qed

lemma hexDecode_hexEncode [simp]: "hexDecode (hexEncode s) = Some s"
proof (induction s)
  case (Cons c s)
  have "hexVal (hexDigit (of_char c div 16)) = Some (of_char c div 16)" "hexVal (hexDigit (of_char c mod 16)) = Some (of_char c mod 16)"
    by (simp_all add: hexVal_hexDigit)
  then show ?case using Cons by (simp add: hexEncode_def Let_def)
qed (simp add: hexEncode_def)

lemma hexDigit_safe: "n < 16 \<Longrightarrow> hexDigit n \<noteq> CHR '','' \<and> \<not> isSpace (hexDigit n)"
proof -
  assume "n < 16"
  then have "n \<in> set [0..<16]" by simp
  moreover have "\<forall>n\<in>set [0..<16]. hexDigit n \<noteq> CHR '','' \<and> \<not> isSpace (hexDigit n)" by code_simp
  ultimately show ?thesis by blast
qed

lemma hexEncode_safe: "c \<in> set (hexEncode s) \<Longrightarrow> c \<noteq> CHR '','' \<and> \<not> isSpace c"
proof (induction s)
  case (Cons a s)
  have "(of_char a :: nat) div 16 < 16" "(of_char a :: nat) mod 16 < 16" by simp_all
  then show ?case using Cons hexDigit_safe by (auto simp: hexEncode_def Let_def)
qed (simp add: hexEncode_def)

lemma ParseTokenDigests_digests:
  "ParseTokenDigests_loop i (map Hash toks) = Inr (map Sum256 toks)"
proof (induction toks arbitrary: i)
  case (Cons t toks)
  have "TrimSpace (Hash t) = Hash t" unfolding Hash_def by (rule TrimSpace_no_space) (use hexEncode_safe in blast)
  moreover have "Hash t \<noteq> []" using length_Hash[of t] by fastforce
  moreover have "hexDecode (Hash t) = Some (Sum256 t)" by (simp add: Hash_def)
  ultimately show ?case using Cons by simp
qed simp

section \<open>Properties\<close>



end
