(* ===== verification/Perms.thy ===== *)
theory Perms
  imports Go_Prelude
begin

text \<open>
  Package \<^verbatim>\<open>perms\<close> (src/perms/perms.go): the grant a token carries, its \<^verbatim>\<open><namespace>:<role>\<close> wire
  format, and the two parsers. A \<^verbatim>\<open>*Grant\<close> that may be nil is a \<^typ>\<open>'a option\<close>; the Go map of a
  grant is an association list in an arbitrary iteration order.
\<close>

section \<open>Roles\<close>

type_synonym Role = string

definition RoleRead :: Role where "RoleRead = ''read''"
definition RoleWrite :: Role where "RoleWrite = ''write''"
definition RoleWorker :: Role where "RoleWorker = ''worker''"
definition RoleAdmin :: Role where "RoleAdmin = ''admin''"

definition SystemNamespace :: string where "SystemNamespace = ''temporal-system''"
definition Wildcard :: string where "Wildcard = ''*''"

definition roleBits :: "(Role \<times> nat) list" where
  "roleBits = [(RoleWorker, 1), (RoleRead, 2), (RoleWrite, 4), (RoleAdmin, 8)]"

text \<open>Reading a missing key of a Go map gives the zero value.\<close>

definition roleBit :: "Role \<Rightarrow> nat" where
  "roleBit r = (case map_of roleBits r of Some b \<Rightarrow> b | None \<Rightarrow> 0)"

definition Valid :: "Role \<Rightarrow> bool" where
  "Valid r = (map_of roleBits r \<noteq> None)"

datatype PermError = ErrInvalidRole | ErrEmptyNamespace | ErrMalformedEntry
  | ErrWorkerRole | ErrWildcardNamespace

text \<open>A parser wraps the sentinel with the index and the text of the entry.\<close>

type_synonym EntryError = "PermError \<times> nat \<times> string"

definition Grantable :: "string \<Rightarrow> Role \<Rightarrow> PermError option" where
  "Grantable namespace role =
     (if namespace = Wildcard then Some ErrWildcardNamespace
      else if role = RoleWorker then Some ErrWorkerRole
      else None)"

section \<open>Grants\<close>

record NamespacePermission =
  np_Namespace :: string
  np_Role :: Role

record Grant =
  perms :: "(string \<times> Role) list"

type_synonym GrantOption = "Grant \<Rightarrow> Grant"

definition add :: "string \<Rightarrow> Role \<Rightarrow> Grant \<Rightarrow> Grant" where
  "add namespace role g =
     (case map_of (perms g) namespace of
        None \<Rightarrow> g\<lparr>perms := AList.update namespace role (perms g)\<rparr>
      | Some cur \<Rightarrow> if roleBit cur < roleBit role
                    then g\<lparr>perms := AList.update namespace role (perms g)\<rparr> else g)"

definition New :: "GrantOption list \<Rightarrow> Grant" where
  "New opts = foldl (\<lambda>g opt. opt g) \<lparr>perms = []\<rparr> opts"

definition AddNamespace :: "string \<Rightarrow> Role \<Rightarrow> GrantOption" where
  "AddNamespace namespace role = add namespace role"

definition WithSystemRole :: "Role \<Rightarrow> GrantOption" where
  "WithSystemRole role = AddNamespace SystemNamespace role"

definition AddWildcard :: "Role \<Rightarrow> GrantOption" where
  "AddWildcard role = WithSystemRole role"

definition Merge :: "Grant option list \<Rightarrow> Grant" where
  "Merge grants = foldl (\<lambda>out gp. case gp of None \<Rightarrow> out
       | Some g \<Rightarrow> foldl (\<lambda>out (ns, role). add ns role out) out (perms g)) (New []) grants"

definition Empty :: "Grant option \<Rightarrow> bool" where
  "Empty gp = (case gp of None \<Rightarrow> True | Some g \<Rightarrow> length (perms g) = 0)"

definition Namespaces :: "Grant option \<Rightarrow> NamespacePermission list" where
  "Namespaces gp = (case gp of None \<Rightarrow> []
     | Some g \<Rightarrow> sort_key np_Namespace
         (map (\<lambda>(ns, role). \<lparr>np_Namespace = ns, np_Role = role\<rparr>) (perms g)))"

section \<open>Wire format\<close>

definition claimEntry :: "NamespacePermission \<Rightarrow> string" where
  "claimEntry p = np_Namespace p @ CHR '':'' # np_Role p"

definition ToClaim :: "Grant option \<Rightarrow> string list" where
  "ToClaim gp = map claimEntry (Namespaces gp)"

fun ParseClaim_loop :: "nat \<Rightarrow> string list \<Rightarrow> Grant \<Rightarrow> EntryError + Grant" where
  "ParseClaim_loop i [] g = Inr g"
| "ParseClaim_loop i (entry # claim) g =
     (let idx = LastIndex entry CHR '':'' in
      if idx < 0 then Inl (ErrMalformedEntry, i, entry)
      else let namespace = take (nat idx) entry; role = drop (nat idx + 1) entry in
        if namespace = [] then Inl (ErrEmptyNamespace, i, entry)
        else if \<not> Valid role then Inl (ErrInvalidRole, i, entry)
        else ParseClaim_loop (Suc i) claim (add namespace role g))"

definition ParseClaim :: "string list \<Rightarrow> EntryError + Grant" where
  "ParseClaim claim = ParseClaim_loop 0 claim (New [])"

fun ParseConfig_check :: "nat \<Rightarrow> string list \<Rightarrow> EntryError option" where
  "ParseConfig_check i [] = None"
| "ParseConfig_check i (entry # entries) =
     (let idx = LastIndex entry CHR '':'' in
      case Grantable (take (nat idx) entry) (drop (nat idx + 1) entry) of
        Some e \<Rightarrow> Some (e, i, entry)
      | None \<Rightarrow> ParseConfig_check (Suc i) entries)"

definition ParseConfig :: "string list \<Rightarrow> EntryError + Grant" where
  "ParseConfig entries =
     (let trimmed = map TrimSpace entries in
      case ParseClaim trimmed of
        Inl e \<Rightarrow> Inl e
      | Inr g \<Rightarrow> (case ParseConfig_check 0 trimmed of Some e \<Rightarrow> Inl e | None \<Rightarrow> Inr g))"

section \<open>Meaning of a grant\<close>

text \<open>
  \<^verbatim>\<open>grantBit g ns\<close> is the role bit a grant gives a namespace, 0 for none. \<^verbatim>\<open>wf_grant\<close> is what every
  grant built from valid entries satisfies.
\<close>

definition grantBit :: "Grant \<Rightarrow> string \<Rightarrow> nat" where
  "grantBit g ns = (case map_of (perms g) ns of Some r \<Rightarrow> roleBit r | None \<Rightarrow> 0)"

definition wf_grant :: "Grant \<Rightarrow> bool" where
  "wf_grant g = (wf_map (perms g) \<and> (\<forall>(ns, r) \<in> set (perms g). ns \<noteq> [] \<and> Valid r))"

text \<open>
  A claim entry as the consumer of the token reads it: a namespace and a role. Temporal's default
  mapper ORs the bits of all entries of a namespace into one mask and compares the mask with the bit
  an API needs (the package comment, lines 36-47).
\<close>

definition entryPair :: "string \<Rightarrow> string \<times> Role" where
  "entryPair entry = (let idx = nat (LastIndex entry CHR '':'') in (take idx entry, drop (idx + 1) entry))"

fun claimMask :: "string \<Rightarrow> string list \<Rightarrow> nat" where
  "claimMask ns [] = 0"
| "claimMask ns (entry # claim) =
     (let (n, r) = entryPair entry in
      or (if n = ns then roleBit r else 0) (claimMask ns claim))"

fun claimMax :: "string \<Rightarrow> string list \<Rightarrow> nat" where
  "claimMax ns [] = 0"
| "claimMax ns (entry # claim) =
     (let (n, r) = entryPair entry in
      max (if n = ns then roleBit r else 0) (claimMax ns claim))"

subsection \<open>Role bits\<close>

lemmas role_defs = RoleRead_def RoleWrite_def RoleWorker_def RoleAdmin_def

lemma Valid_iff: "Valid r \<longleftrightarrow> r \<in> {RoleWorker, RoleRead, RoleWrite, RoleAdmin}"
  by (auto simp: Valid_def roleBits_def split: if_splits)

lemma roleBit_simps [simp]:
  "roleBit RoleWorker = 1" "roleBit RoleRead = 2" "roleBit RoleWrite = 4" "roleBit RoleAdmin = 8"
  by (simp_all add: roleBit_def roleBits_def role_defs)

lemma roleBit_range: "roleBit r \<in> {0, 1, 2, 4, 8}"
  by (auto simp: roleBit_def roleBits_def)

lemma roleBit_pos_iff: "0 < roleBit r \<longleftrightarrow> Valid r"
  by (auto simp: roleBit_def Valid_def roleBits_def)

lemma roleBit_inj: "Valid r \<Longrightarrow> Valid s \<Longrightarrow> roleBit r = roleBit s \<Longrightarrow> r = s"
  by (auto simp: Valid_iff)

lemma Valid_no_colon: "Valid r \<Longrightarrow> CHR '':'' \<notin> set r"
  by (auto simp: Valid_iff role_defs)

subsection \<open>Adding\<close>

lemma perms_New [simp]: "perms (New []) = []"
  by (simp add: New_def)

lemma wf_map_add [simp]: "wf_map (perms g) \<Longrightarrow> wf_map (perms (add ns r g))"
  by (auto simp: add_def split: option.splits)

lemma map_of_add_other [simp]: "n \<noteq> ns \<Longrightarrow> map_of (perms (add ns r g)) n = map_of (perms g) n"
  by (auto simp: add_def split: option.splits)

lemma grantBit_add: "grantBit (add ns r g) n = (if n = ns then max (grantBit g n) (roleBit r) else grantBit g n)"
  by (auto simp: add_def grantBit_def split: option.splits)

lemma dom_add [simp]: "dom (map_of (perms (add ns r g))) = insert ns (dom (map_of (perms g)))"
  by (auto simp: add_def split: option.splits)

lemma wf_grant_New [simp]: "wf_grant (New [])"
  by (simp add: wf_grant_def)

lemma wf_grant_iff:
  "wf_grant g \<longleftrightarrow> wf_map (perms g) \<and> (\<forall>ns r. map_of (perms g) ns = Some r \<longrightarrow> ns \<noteq> [] \<and> Valid r)"
proof (cases "wf_map (perms g)")
  case True
  have "(\<forall>(ns, r) \<in> set (perms g). ns \<noteq> [] \<and> Valid r)
      \<longleftrightarrow> (\<forall>ns r. (ns, r) \<in> set (perms g) \<longrightarrow> ns \<noteq> [] \<and> Valid r)" by blast
  then show ?thesis
    unfolding wf_grant_def wf_map_in_set_iff[OF True] by blast
qed (simp add: wf_grant_def)

lemma wf_grant_add: "wf_grant g \<Longrightarrow> ns \<noteq> [] \<Longrightarrow> Valid r \<Longrightarrow> wf_grant (add ns r g)"
  by (auto simp: wf_grant_iff add_def split: option.splits if_splits)

text \<open>Valid grants with the same bits hold the same roles.\<close>

lemma wf_grant_role:
  "wf_grant g \<Longrightarrow> map_of (perms g) ns = Some r \<Longrightarrow> Valid r \<and> ns \<noteq> [] \<and> grantBit g ns = roleBit r"
  by (auto simp: wf_grant_iff grantBit_def)

lemma wf_grant_bit_zero: "wf_grant g \<Longrightarrow> grantBit g ns = 0 \<longleftrightarrow> map_of (perms g) ns = None"
  using wf_grant_role[of g ns] roleBit_pos_iff
  by (cases "map_of (perms g) ns") (force simp: grantBit_def)+

lemma grant_ext:
  assumes "wf_grant g" "wf_grant h" "\<And>ns. grantBit g ns = grantBit h ns"
  shows "map_of (perms g) = map_of (perms h)"
proof
  fix ns
  show "map_of (perms g) ns = map_of (perms h) ns"
  proof (cases "map_of (perms g) ns")
    case None
    then have "grantBit h ns = 0" using assms(3)[of ns] by (simp add: grantBit_def)
    then show ?thesis using None wf_grant_bit_zero[OF assms(2)] by simp
  next
    case (Some r)
    then have r: "Valid r" "grantBit g ns = roleBit r"
      using wf_grant_role[OF assms(1)] by auto
    then have "grantBit h ns \<noteq> 0" using assms(3)[of ns] roleBit_pos_iff[of r] by simp
    then obtain s where s: "map_of (perms h) ns = Some s"
      by (auto simp: wf_grant_bit_zero[OF assms(2)])
    then have "Valid s" "roleBit s = roleBit r"
      using wf_grant_role[OF assms(2) s] assms(3)[of ns] r by auto
    then show ?thesis using Some s r roleBit_inj by metis
  qed
qed

subsection \<open>Adding the pairs of a map\<close>

definition addPairs :: "Grant \<Rightarrow> (string \<times> Role) list \<Rightarrow> Grant" where
  "addPairs = foldl (\<lambda>out (ns, role). add ns role out)"

lemma addPairs_simps [simp]:
  "addPairs g [] = g" "addPairs g ((ns, r) # ps) = addPairs (add ns r g) ps"
  by (simp_all add: addPairs_def)

lemma grantBit_addPairs:
  "wf_map ps \<Longrightarrow> grantBit (addPairs g ps) n
     = max (grantBit g n) (grantBit \<lparr>perms = ps\<rparr> n)"
proof (induction ps arbitrary: g)
  case (Cons p ps)
  obtain ns r where p: "p = (ns, r)" by (cases p)
  have "map_of ps ns = None" using Cons.prems p by (simp add: map_of_eq_None_iff)
  then have "grantBit \<lparr>perms = p # ps\<rparr> n = max (if n = ns then roleBit r else 0) (grantBit \<lparr>perms = ps\<rparr> n)"
    using p by (simp add: grantBit_def)
  then show ?case using Cons p by (simp add: grantBit_add max.assoc)
qed (simp add: grantBit_def)

lemma wf_grant_addPairs:
  "wf_grant g \<Longrightarrow> (\<forall>(ns, r) \<in> set ps. ns \<noteq> [] \<and> Valid r) \<Longrightarrow> wf_grant (addPairs g ps)"
  by (induction ps arbitrary: g) (auto simp: wf_grant_add)

lemma addPairs_rebuild:
  assumes "wf_grant g" "wf_map ps" "set ps = set (perms g)"
  shows "wf_grant (addPairs (New []) ps) \<and> map_of (perms (addPairs (New []) ps)) = map_of (perms g)"
proof -
  have m: "map_of ps = map_of (perms g)"
    using assms by (auto simp: wf_grant_def map_of_inject_set)
  have w: "wf_grant (addPairs (New []) ps)"
    using assms by (intro wf_grant_addPairs) (auto simp: wf_grant_def)
  moreover have "grantBit (addPairs (New []) ps) n = grantBit g n" for n
    using assms(2) m by (simp add: grantBit_addPairs) (simp add: grantBit_def)
  ultimately show ?thesis using assms(1) grant_ext by blast
qed

subsection \<open>Merging\<close>

definition optBit :: "string \<Rightarrow> Grant option \<Rightarrow> nat" where
  "optBit n gp = (case gp of None \<Rightarrow> 0 | Some g \<Rightarrow> grantBit g n)"

lemma Merge_addPairs:
  "Merge gs = foldl (\<lambda>out gp. case gp of None \<Rightarrow> out | Some g \<Rightarrow> addPairs out (perms g)) (New []) gs"
  by (simp add: Merge_def addPairs_def)

lemma Max_insert_max: "finite S \<Longrightarrow> Max (insert (max a b) S) = Max (insert a (insert b S))"
  for a b :: "'a::linorder"
  by (cases "S = {}") (simp_all add: max.assoc)

lemma Max_insert_zero: "finite S \<Longrightarrow> Max (insert 0 (insert a S)) = Max (insert a S)"
  for a :: nat
  by (subst Max.insert) auto

lemma Merge_fold_bit:
  "(\<And>g. Some g \<in> set gs \<Longrightarrow> wf_grant g) \<Longrightarrow>
   grantBit (foldl (\<lambda>out gp. case gp of None \<Rightarrow> out | Some g \<Rightarrow> addPairs out (perms g)) out gs) n
     = Max (insert (grantBit out n) (optBit n ` set gs))"
proof (induction gs arbitrary: out)
  case (Cons gp gs)
  show ?case
  proof (cases gp)
    case None
    then show ?thesis using Cons by (simp add: optBit_def insert_commute[of _ 0] Max_insert_zero)
  next
    case (Some g)
    then have "wf_grant g" using Cons.prems by simp
    then have "grantBit (addPairs out (perms g)) n = max (grantBit out n) (grantBit g n)"
      by (simp add: grantBit_addPairs wf_grant_def) (simp add: grantBit_def)
    then show ?thesis using Cons Some by (simp add: optBit_def Max_insert_max)
  qed
qed simp

lemma Merge_fold_wf:
  "(\<And>g. Some g \<in> set gs \<Longrightarrow> wf_grant g) \<Longrightarrow> wf_grant out \<Longrightarrow>
   wf_grant (foldl (\<lambda>out gp. case gp of None \<Rightarrow> out | Some g \<Rightarrow> addPairs out (perms g)) out gs)"
proof (induction gs arbitrary: out)
  case (Cons gp gs)
  show ?case
  proof (cases gp)
    case (Some g)
    then have "\<forall>(ns, r) \<in> set (perms g). ns \<noteq> [] \<and> Valid r"
      using Cons.prems(1)[of g] by (simp add: wf_grant_def)
    then show ?thesis using Cons Some by (simp add: wf_grant_addPairs)
  qed (use Cons in simp)
qed simp

subsection \<open>Claim entries\<close>

lemma entryPair_claimEntry [simp]:
  "Valid (np_Role p) \<Longrightarrow> entryPair (claimEntry p) = (np_Namespace p, np_Role p)"
  by (simp add: entryPair_def claimEntry_def Valid_no_colon)

definition wf_entry :: "string \<Rightarrow> bool" where
  "wf_entry entry = (CHR '':'' \<in> set entry \<and> fst (entryPair entry) \<noteq> [] \<and> Valid (snd (entryPair entry)))"

lemma wf_entry_claimEntry [simp]:
  "np_Namespace p \<noteq> [] \<Longrightarrow> Valid (np_Role p) \<Longrightarrow> wf_entry (claimEntry p)"
  by (simp add: wf_entry_def) (simp add: claimEntry_def)

text \<open>Why an entry is refused, in the order the parser checks.\<close>

definition entryError :: "string \<Rightarrow> PermError" where
  "entryError entry = (if CHR '':'' \<notin> set entry then ErrMalformedEntry
     else if fst (entryPair entry) = [] then ErrEmptyNamespace else ErrInvalidRole)"

lemma ParseClaim_loop_step:
  "ParseClaim_loop i (entry # claim) g =
     (if wf_entry entry then ParseClaim_loop (Suc i) claim (addPairs g [entryPair entry])
      else Inl (entryError entry, i, entry))"
  using LastIndex_neg_iff[of entry "CHR '':''"]
  by (auto simp: wf_entry_def entryPair_def entryError_def Let_def)

lemma ParseClaim_loop_ok:
  "\<forall>e\<in>set claim. wf_entry e \<Longrightarrow> ParseClaim_loop i claim g = Inr (addPairs g (map entryPair claim))"
proof (induction claim arbitrary: i g)
  case (Cons e claim)
  obtain ns r where "entryPair e = (ns, r)" by (cases "entryPair e")
  then show ?case using Cons by (simp add: ParseClaim_loop_step del: ParseClaim_loop.simps(2))
qed simp

lemma ParseClaim_loop_bad:
  "\<forall>e\<in>set pre. wf_entry e \<Longrightarrow> \<not> wf_entry entry \<Longrightarrow>
   ParseClaim_loop i (pre @ entry # rest) g = Inl (entryError entry, i + length pre, entry)"
  by (induction pre arbitrary: i g) (simp_all add: ParseClaim_loop_step del: ParseClaim_loop.simps(2))

lemma ParseClaim_ok_iff:
  "(\<exists>g. ParseClaim claim = Inr g) \<longleftrightarrow> (\<forall>e\<in>set claim. wf_entry e)"
proof
  assume "\<exists>g. ParseClaim claim = Inr g"
  then show "\<forall>e\<in>set claim. wf_entry e"
    by (rule contrapos_pp)
       (auto simp: ParseClaim_def ParseClaim_loop_bad dest!: split_list_first_prop[of claim "\<lambda>e. \<not> wf_entry e"])
qed (simp add: ParseClaim_def ParseClaim_loop_ok)

lemma ParseClaim_InrD:
  assumes "ParseClaim claim = Inr g"
  shows "g = addPairs (New []) (map entryPair claim)" "\<forall>e\<in>set claim. wf_entry e"
proof -
  show *: "\<forall>e\<in>set claim. wf_entry e" using assms ParseClaim_ok_iff by blast
  show "g = addPairs (New []) (map entryPair claim)"
    using assms ParseClaim_loop_ok[OF *] by (simp add: ParseClaim_def)
qed

lemma ParseClaim_wf: "ParseClaim claim = Inr g \<Longrightarrow> wf_grant g"
  using ParseClaim_InrD[of claim g] wf_grant_addPairs[of "New []" "map entryPair claim"]
  by (auto simp: wf_entry_def case_prod_beta)

lemma addPairs_origin:
  "map_of (perms (addPairs g ps)) ns = Some r \<Longrightarrow> map_of (perms g) ns = Some r \<or> (ns, r) \<in> set ps"
proof (induction ps arbitrary: g)
  case (Cons p ps)
  obtain n s where p: "p = (n, s)" by (cases p)
  then have "map_of (perms (add n s g)) ns = Some r \<or> (ns, r) \<in> set ps" using Cons by simp
  then show ?case using p by (auto simp: add_def split: option.splits if_splits)
qed simp

lemma grantBit_entries:
  "grantBit (addPairs g (map entryPair claim)) ns = max (grantBit g ns) (claimMax ns claim)"
proof (induction claim arbitrary: g)
  case (Cons e claim)
  obtain n r where "entryPair e = (n, r)" by (cases "entryPair e")
  then show ?case using Cons by (auto simp: grantBit_add Let_def)
qed simp

subsection \<open>Mask and maximum\<close>

lemma or_nat_ge: "a \<le> or a b" "b \<le> or a b" for a b :: nat
proof -
  have "int a \<le> or (int a) (int b)" "int b \<le> or (int b) (int a)"
    by (simp_all only: or_greater_eq of_nat_0_le_iff)
  then show "a \<le> or a b" "b \<le> or a b"
    by (simp_all add: or_nat_def le_nat_iff or.commute)
qed

lemma or_nat_lt: "a < 2 ^ n \<Longrightarrow> b < 2 ^ n \<Longrightarrow> or a b < 2 ^ n" for a b :: nat
  using OR_upper[of "int a" n "int b"] by (simp add: or_nat_def nat_less_iff)

lemma claimMask_ge: "claimMax ns claim \<le> claimMask ns claim"
  by (induction claim)
     (auto simp: Let_def or_nat_ge intro: order_trans[OF _ or_nat_ge(2)] split: prod.splits)

lemma claimMask_lt: "claimMax ns claim < 2 ^ n \<Longrightarrow> claimMask ns claim < 2 ^ n"
  by (induction claim) (auto simp: Let_def or_nat_lt split: prod.splits if_splits)

lemma mask_threshold: "2 ^ k \<le> claimMask ns claim \<longleftrightarrow> 2 ^ k \<le> claimMax ns claim"
  using claimMask_ge[of ns claim] claimMask_lt[of ns claim k] by linarith

subsection \<open>Pairs in claim order\<close>

lemma Namespaces_set:
  "set (map (\<lambda>p. (np_Namespace p, np_Role p)) (Namespaces (Some g))) = set (perms g)"
  by (force simp: Namespaces_def image_iff)

lemma Namespaces_keys:
  "map np_Namespace (Namespaces (Some g)) = sort (map fst (perms g))"
  by (rule properties_for_sort[symmetric])
     (simp_all add: Namespaces_def multiset.map_comp comp_def case_prod_beta)

lemma Namespaces_strict:
  assumes "wf_map (perms g)"
  shows "sorted_wrt (<) (map np_Namespace (Namespaces (Some g)))"
  using assms by (simp add: Namespaces_keys strict_sorted_iff)

lemma ToClaim_pairs:
  assumes "wf_grant g"
  shows "map entryPair (ToClaim (Some g)) = map (\<lambda>p. (np_Namespace p, np_Role p)) (Namespaces (Some g))"
    and "\<forall>e\<in>set (ToClaim (Some g)). wf_entry e"
proof -
  have v: "np_Namespace p \<noteq> [] \<and> Valid (np_Role p)" if "p \<in> set (Namespaces (Some g))" for p
  proof -
    have "(np_Namespace p, np_Role p) \<in> set (perms g)"
      using that Namespaces_set[of g] by (auto simp: set_eq_iff image_iff)
    then show ?thesis using assms by (auto simp: wf_grant_def)
  qed
  then show "map entryPair (ToClaim (Some g)) = map (\<lambda>p. (np_Namespace p, np_Role p)) (Namespaces (Some g))"
    and "\<forall>e\<in>set (ToClaim (Some g)). wf_entry e"
    by (simp_all add: ToClaim_def)
qed

subsection \<open>Operator configuration\<close>

definition wf_config :: "string \<Rightarrow> bool" where
  "wf_config entry = (wf_entry entry \<and> fst (entryPair entry) \<noteq> Wildcard \<and> snd (entryPair entry) \<noteq> RoleWorker)"

lemma ParseConfig_check_step:
  "ParseConfig_check i (entry # entries) =
     (case Grantable (fst (entryPair entry)) (snd (entryPair entry)) of
        Some e \<Rightarrow> Some (e, i, entry) | None \<Rightarrow> ParseConfig_check (Suc i) entries)"
  by (simp add: entryPair_def Let_def)

lemma ParseConfig_check_None_iff:
  "ParseConfig_check i entries = None \<longleftrightarrow>
     (\<forall>e\<in>set entries. fst (entryPair e) \<noteq> Wildcard \<and> snd (entryPair e) \<noteq> RoleWorker)"
  by (induction entries arbitrary: i)
     (simp_all add: ParseConfig_check_step Grantable_def del: ParseConfig_check.simps(2))

lemma ParseConfig_Inr_iff:
  "ParseConfig entries = Inr g \<longleftrightarrow>
     (\<forall>e\<in>set entries. wf_config (TrimSpace e)) \<and> g = addPairs (New []) (map (entryPair \<circ> TrimSpace) entries)"
proof (cases "\<forall>e\<in>set entries. wf_entry (TrimSpace e)")
  case True
  then have "ParseClaim (map TrimSpace entries) = Inr (addPairs (New []) (map (entryPair \<circ> TrimSpace) entries))"
    by (simp add: ParseClaim_def ParseClaim_loop_ok)
  moreover have "ParseConfig_check 0 (map TrimSpace entries) = None \<longleftrightarrow> (\<forall>e\<in>set entries. wf_config (TrimSpace e))"
    using True by (auto simp: ParseConfig_check_None_iff wf_config_def)
  ultimately show ?thesis
    by (cases "ParseConfig_check 0 (map TrimSpace entries)") (auto simp: ParseConfig_def Let_def)
next
  case False
  then have "\<not> (\<exists>g. ParseClaim (map TrimSpace entries) = Inr g)"
    using ParseClaim_ok_iff[of "map TrimSpace entries"] by simp
  then show ?thesis using False
    by (auto simp: ParseConfig_def Let_def wf_config_def split: sum.splits)
qed

section \<open>Properties\<close>

text \<open>C28. A grant survives its wire format: parsing the claim a well-formed grant serializes to gives
  a well-formed grant with the same role for every namespace, whatever the map iteration order and
  even when a namespace contains colons.\<close>

theorem ParseClaim_ToClaim:
  assumes "wf_grant g"
  shows "\<exists>h. ParseClaim (ToClaim (Some g)) = Inr h \<and> wf_grant h \<and> map_of (perms h) = map_of (perms g)"
proof -
  let ?ps = "map (\<lambda>p. (np_Namespace p, np_Role p)) (Namespaces (Some g))"
  have "ParseClaim (ToClaim (Some g)) = Inr (addPairs (New []) ?ps)"
    using ToClaim_pairs[OF assms] by (simp add: ParseClaim_def ParseClaim_loop_ok)
  moreover have "wf_map ?ps"
    using Namespaces_strict[of g] assms by (simp add: wf_grant_def comp_def strict_sorted_iff)
  ultimately show ?thesis
    using addPairs_rebuild[OF assms _ Namespaces_set] by blast
qed

theorem ParseClaim_ToClaim_witness:
  "\<exists>h. ParseClaim (ToClaim (Some \<lparr>perms = [(''b:x'', ''write''), (''a'', ''admin'')]\<rparr>)) = Inr h \<and> wf_grant h
     \<and> map_of (perms h) = map_of [(''b:x'', ''write''), (''a'', ''admin'')]"
  using ParseClaim_ToClaim[of "\<lparr>perms = [(''b:x'', ''write''), (''a'', ''admin'')]\<rparr>"]
  by (simp add: wf_grant_def Valid_def roleBits_def role_defs)

text \<open>C29. A claim means the same whether its consumer ORs the role bits of a namespace or takes the
  highest role: for every role bit \<^verbatim>\<open>2 ^ k\<close> an API may need, the ORed mask of the raw entries reaches it
  exactly when the parsed grant does. A claim is accepted exactly when every entry is well formed.\<close>

theorem ParseClaim_meaning:
  "((\<exists>g. ParseClaim claim = Inr g) \<longleftrightarrow> list_all wf_entry claim) \<and>
   (\<forall>g. ParseClaim claim = Inr g \<longrightarrow>
      wf_grant g \<and> (\<forall>ns k. 2 ^ k \<le> claimMask ns claim \<longleftrightarrow> 2 ^ k \<le> grantBit g ns))"
proof (intro conjI allI impI)
  show "(\<exists>g. ParseClaim claim = Inr g) = list_all wf_entry claim"
    using ParseClaim_ok_iff by (simp add: list_all_iff)
  fix g ns k
  assume a: "ParseClaim claim = Inr g"
  show "wf_grant g" by (rule ParseClaim_wf[OF a])
  have "grantBit g ns = claimMax ns claim"
    using ParseClaim_InrD(1)[OF a] by (simp add: grantBit_entries) (simp add: grantBit_def)
  then show "2 ^ k \<le> claimMask ns claim \<longleftrightarrow> 2 ^ k \<le> grantBit g ns"
    by (simp add: mask_threshold)
qed

theorem ParseClaim_meaning_witness:
  "\<exists>g. ParseClaim [''a:read'', ''a:write''] = Inr g \<and> 2 ^ 2 \<le> grantBit g ''a''"
proof -
  have 1: "list_all wf_entry [''a:read'', ''a:write'']" by code_simp
  have 2: "(2::nat) ^ 2 \<le> claimMask ''a'' [''a:read'', ''a:write'']" by code_simp
  show ?thesis using ParseClaim_meaning[of "[''a:read'', ''a:write'']"] 1 2 by metis
qed

text \<open>\<^verbatim>\<open>Merge\<close> is the union of the grants at the highest role: nil grants are skipped and every
  namespace gets the largest bit any grant gives it. The right-hand side depends only on the set of
  grants and on what each means, so neither argument order nor map iteration order matters.\<close>

theorem Merge_highest:
  assumes "\<And>g. Some g \<in> set grants \<Longrightarrow> wf_grant g"
  shows "wf_grant (Merge grants) \<and> grantBit (Merge grants) ns = Max (insert 0 (optBit ns ` set grants))"
proof -
  have "grantBit (New []) ns = 0" by (simp add: grantBit_def)
  then show ?thesis
    using Merge_fold_wf[of grants "New []"] Merge_fold_bit[of grants "New []" ns] assms
    by (simp add: Merge_addPairs)
qed

theorem Merge_highest_witness:
  "grantBit (Merge [Some (New [AddNamespace ''a'' ''read'']), None, Some (New [AddNamespace ''a'' ''admin''])]) ''a'' = 8"
proof -
  have "wf_grant (New [AddNamespace ''a'' ''read''])" "wf_grant (New [AddNamespace ''a'' ''admin''])"
    by code_simp+
  then show ?thesis
    using Merge_highest[of "[Some (New [AddNamespace ''a'' ''read'']), None, Some (New [AddNamespace ''a'' ''admin''])]" "''a''"]
    by (auto simp: optBit_def New_def AddNamespace_def add_def grantBit_def roleBit_def roleBits_def role_defs)
qed

text \<open>\<^verbatim>\<open>ParseConfig\<close> accepts a permission list exactly when every trimmed entry is well formed,
  names no literal \<^verbatim>\<open>*\<close> namespace and is not the worker role; the grant it returns holds only
  entries of the list, none of them at the worker role or on \<^verbatim>\<open>*\<close>.\<close>

theorem ParseConfig_grantable:
  "((\<exists>g. ParseConfig entries = Inr g) \<longleftrightarrow> list_all (wf_config \<circ> TrimSpace) entries) \<and>
   (\<forall>g ns r. ParseConfig entries = Inr g \<longrightarrow> map_of (perms g) ns = Some r \<longrightarrow>
      (ns, r) \<in> set (map (entryPair \<circ> TrimSpace) entries) \<and> Grantable ns r = None)"
proof (intro conjI allI impI)
  show "(\<exists>g. ParseConfig entries = Inr g) \<longleftrightarrow> list_all (wf_config \<circ> TrimSpace) entries"
    by (simp add: ParseConfig_Inr_iff list_all_iff)
  fix g ns r
  assume a: "ParseConfig entries = Inr g" and m: "map_of (perms g) ns = Some r"
  show in_set: "(ns, r) \<in> set (map (entryPair \<circ> TrimSpace) entries)"
    using a m addPairs_origin[of "New []" "map (entryPair \<circ> TrimSpace) entries" ns r]
    by (simp add: ParseConfig_Inr_iff)
  then show "Grantable ns r = None"
    using a by (auto simp: ParseConfig_Inr_iff wf_config_def Grantable_def comp_def)
       (metis fst_conv snd_conv)+
qed

theorem ParseConfig_grantable_witness:
  "(\<exists>g. ParseConfig ['' a:read '', ''b:admin''] = Inr g) \<and> \<not> (\<exists>g. ParseConfig [''a:worker''] = Inr g)"
proof -
  have 1: "list_all (wf_config \<circ> TrimSpace) ['' a:read '', ''b:admin'']" by code_simp
  have 2: "\<not> list_all (wf_config \<circ> TrimSpace) [''a:worker'']" by code_simp
  show ?thesis using ParseConfig_grantable[of "['' a:read '', ''b:admin'']"]
    ParseConfig_grantable[of "[''a:worker'']"] 1 2 by simp
qed

end
