(* ===== verification/Authz.thy ===== *)
theory Authz
  imports Perms
begin

text \<open>
  Package \<^verbatim>\<open>authz\<close> (src/authz/authz.go): the static authorization policy, and the
  \<^verbatim>\<open>PermissionResolver\<close> interface through which the OIDC handlers use it (src/oidc/authz.go).
\<close>

section \<open>Rules and policies\<close>

datatype selectorKind = selectEmail | selectDomain | selectGroup | otherSelector string

definition parseKind :: "string \<Rightarrow> selectorKind" where
  "parseKind s = (if s = ''email'' then selectEmail else if s = ''domain'' then selectDomain
     else if s = ''group'' then selectGroup else otherSelector s)"

record Rule =
  r_Index :: nat
  r_Raw :: string
  r_Grant :: Grant
  r_kind :: selectorKind
  r_value :: string

fun kindString :: "selectorKind \<Rightarrow> string" where
  "kindString selectEmail = ''email''"
| "kindString selectDomain = ''domain''"
| "kindString selectGroup = ''group''"
| "kindString (otherSelector s) = s"

definition Selector :: "Rule \<Rightarrow> string" where
  "Selector r = kindString (r_kind r) @ CHR '':'' # r_value r"

definition matches :: "Rule \<Rightarrow> string \<Rightarrow> string \<Rightarrow> bool" where
  "matches r email domain = (case r_kind r of
      selectEmail \<Rightarrow> r_value r = email
    | selectDomain \<Rightarrow> r_value r = domain
    | _ \<Rightarrow> False)"

record Policy =
  p_rules :: "Rule list"
  p_dflt :: Grant

datatype RuleReason = NoEquals | NoSelector | NotEmail string | NotDomain string
  | GroupUnsupported | UnknownSelector string | GrantsNothing | BadPermission EntryError

datatype PolicyError = ErrInvalidRule nat string RuleReason | ErrDefaultPermissions EntryError

text \<open>The selector switch of \<^verbatim>\<open>parseRule\<close>: the reason to refuse the lower-cased value, if any.\<close>

definition checkSelector :: "selectorKind \<Rightarrow> string \<Rightarrow> string \<Rightarrow> string \<Rightarrow> RuleReason option" where
  "checkSelector kind kindText value valueText = (case kind of
      selectEmail \<Rightarrow> (case Cut value CHR ''@'' of (local, domain, ok) \<Rightarrow>
          if \<not> ok \<or> local = [] \<or> domain = [] \<or> CHR ''@'' \<in> set domain then Some (NotEmail valueText) else None)
    | selectDomain \<Rightarrow> if value = [] \<or> CHR ''@'' \<in> set value then Some (NotDomain valueText) else None
    | selectGroup \<Rightarrow> Some GroupUnsupported
    | otherSelector _ \<Rightarrow> Some (UnknownSelector kindText))"

definition parseRule :: "nat \<Rightarrow> string \<Rightarrow> PolicyError + Rule" where
  "parseRule i raw = (case Cut (TrimSpace raw) CHR ''='' of (selector, permissions, ok) \<Rightarrow>
     if \<not> ok then Inl (ErrInvalidRule i raw NoEquals)
     else case Cut (TrimSpace selector) CHR '':'' of (kind, value, ok) \<Rightarrow>
       if \<not> ok then Inl (ErrInvalidRule i raw NoSelector)
       else let k = parseKind (ToLower (TrimSpace kind)); v = ToLower (TrimSpace value) in
         case checkSelector k kind v value of
           Some why \<Rightarrow> Inl (ErrInvalidRule i raw why)
         | None \<Rightarrow>
             if TrimSpace permissions = [] then Inl (ErrInvalidRule i raw GrantsNothing)
             else (case ParseConfig (Split permissions CHR '','') of
                 Inl e \<Rightarrow> Inl (ErrInvalidRule i raw (BadPermission e))
               | Inr g \<Rightarrow> Inr \<lparr>r_Index = i, r_Raw = raw, r_Grant = g, r_kind = k, r_value = v\<rparr>))"

fun parseRules :: "nat \<Rightarrow> string list \<Rightarrow> PolicyError + Rule list" where
  "parseRules i [] = Inr []"
| "parseRules i (raw # raws) = (case parseRule i raw of
     Inl e \<Rightarrow> Inl e
   | Inr r \<Rightarrow> (case parseRules (Suc i) raws of Inl e \<Rightarrow> Inl e | Inr rs \<Rightarrow> Inr (r # rs)))"

definition Parse :: "string list \<Rightarrow> string \<Rightarrow> PolicyError + Policy" where
  "Parse rules defaultPermissions = (case parseRules 0 rules of
     Inl e \<Rightarrow> Inl e
   | Inr rs \<Rightarrow>
       if TrimSpace defaultPermissions \<noteq> [] then
         (case ParseConfig (Split defaultPermissions CHR '','') of
            Inl e \<Rightarrow> Inl (ErrDefaultPermissions e)
          | Inr g \<Rightarrow> Inr \<lparr>p_rules = rs, p_dflt = g\<rparr>)
       else Inr \<lparr>p_rules = rs, p_dflt = New []\<rparr>)"

definition Configured :: "Policy \<Rightarrow> bool" where
  "Configured p = (0 < length (p_rules p) \<or> \<not> Empty (Some (p_dflt p)))"

definition Default :: "Policy \<Rightarrow> Grant" where
  "Default p = Merge [Some (p_dflt p)]"

section \<open>Resolution\<close>

record Explanation =
  x_Email :: string
  x_Matched :: "Rule list"
  x_Default :: bool
  x_Grant :: Grant

definition emailDomain :: "string \<Rightarrow> string" where
  "emailDomain email = (let at = LastIndex email CHR ''@'' in
     if at < 0 then [] else drop (nat at + 1) email)"

definition Explain :: "Policy \<Rightarrow> string \<Rightarrow> Explanation" where
  "Explain p email0 =
     (let email = ToLower (TrimSpace email0); domain = emailDomain email;
          matched = filter (\<lambda>r. matches r email domain) (p_rules p);
          grants = map (\<lambda>r. Some (r_Grant r)) matched @ (if length matched = 0 then [Some (p_dflt p)] else [])
      in \<lparr>x_Email = email, x_Matched = matched, x_Default = (length matched = 0), x_Grant = Merge grants\<rparr>)"

text \<open>
  \<^verbatim>\<open>PermissionResolver\<close> has one method; its error text is a string and its grant may be nil.
\<close>

type_synonym PermissionResolver = "string \<Rightarrow> string + Grant option"

definition Resolve :: "Policy \<Rightarrow> PermissionResolver" where
  "Resolve p email = Inr (Some (x_Grant (Explain p email)))"

definition denyAll :: PermissionResolver where
  "denyAll email = Inr (Some (New []))"

definition permitted :: "PermissionResolver \<Rightarrow> string \<Rightarrow> string + Grant option \<times> bool" where
  "permitted a email = (case a email of
     Inl err \<Rightarrow> Inl err
   | Inr g \<Rightarrow> Inr (g, g \<noteq> None \<and> \<not> Empty g))"

definition SystemRole :: "Grant \<Rightarrow> Role" where
  "SystemRole g = (case find (\<lambda>np. np_Namespace np = SystemNamespace) (Namespaces (Some g)) of
     Some np \<Rightarrow> np_Role np | None \<Rightarrow> [])"

section \<open>The resolver contract\<close>

text \<open>
  What the token handlers rely on: a grant names a namespace once, so its claim does too, and the
  case and the surrounding spaces of an address do not matter.
\<close>

locale permission_resolver =
  fixes resolve :: PermissionResolver
  assumes one_role: "resolve email = Inr (Some g) \<Longrightarrow> wf_map (perms g)"
    and folded: "ToLower (TrimSpace email) = ToLower (TrimSpace email') \<Longrightarrow> resolve email = resolve email'"
begin

lemma permitted_grant:
  assumes "permitted resolve email = Inr (gp, True)"
  shows "ToClaim gp \<noteq> [] \<and> sorted_wrt (<) (map np_Namespace (Namespaces gp))"
proof -
  obtain g where g: "gp = Some g" "resolve email = Inr (Some g)" "perms g \<noteq> []"
    using assms by (auto simp: permitted_def Empty_def split: sum.splits option.splits)
  have "length (Namespaces (Some g)) = length (perms g)" by (simp add: Namespaces_def)
  then have "ToClaim (Some g) \<noteq> []" using g(3) by (auto simp: ToClaim_def)
  then show ?thesis using g Namespaces_strict[OF one_role[OF g(2)]] by simp
qed

lemma permitted_folded:
  "ToLower (TrimSpace email) = ToLower (TrimSpace email') \<Longrightarrow> permitted resolve email = permitted resolve email'"
  using folded[of email email'] by (simp add: permitted_def)

end

section \<open>Lemmas\<close>

lemma addPairs_wf_map: "wf_map (perms g) \<Longrightarrow> wf_map (perms (addPairs g ps))"
proof (induction ps arbitrary: g)
  case (Cons p ps)
  obtain ns r where "p = (ns, r)" by (cases p)
  then show ?case using Cons.IH[OF wf_map_add[OF Cons.prems]] by simp
qed simp

lemma Merge_wf_map: "wf_map (perms (Merge gs))"
proof -
  have "wf_map (perms out) \<Longrightarrow> wf_map (perms (foldl (\<lambda>out gp. case gp of None \<Rightarrow> out
          | Some g \<Rightarrow> addPairs out (perms g)) out gs))" for out
  proof (induction gs arbitrary: out)
    case (Cons gp gs)
    then show ?case by (cases gp) (simp_all add: addPairs_wf_map)
  qed simp
  then show ?thesis by (simp add: Merge_addPairs)
qed

interpretation policy: permission_resolver "Resolve p" for p
  by unfold_locales (auto simp: Resolve_def Explain_def Let_def Merge_wf_map)

interpretation deny: permission_resolver denyAll
  by unfold_locales (auto simp: denyAll_def)

text \<open>What parsing guarantees of a policy: grants are well formed and no rule grants nothing.\<close>

definition wf_policy :: "Policy \<Rightarrow> bool" where
  "wf_policy p = (wf_grant (p_dflt p) \<and> (\<forall>r \<in> set (p_rules p). wf_grant (r_Grant r) \<and> perms (r_Grant r) \<noteq> []
      \<and> (r_kind r = selectEmail \<or> r_kind r = selectDomain)))"

lemma addPairs_nonempty: "perms g \<noteq> [] \<or> ps \<noteq> [] \<Longrightarrow> perms (addPairs g ps) \<noteq> []"
proof (induction ps arbitrary: g)
  case (Cons p ps)
  obtain ns r where p: "p = (ns, r)" by (cases p)
  have "AList.update ns r kvs \<noteq> []" for kvs :: "(string \<times> Role) list" by (cases kvs) auto
  then have "perms (add ns r g) \<noteq> []" by (auto simp: add_def split: option.splits)
  then show ?case using Cons p by simp
qed simp

lemma ParseConfig_wf:
  assumes "ParseConfig entries = Inr g"
  shows "wf_grant g" "entries \<noteq> [] \<Longrightarrow> perms g \<noteq> []"
proof -
  have g: "g = addPairs (New []) (map (entryPair \<circ> TrimSpace) entries)"
      "\<forall>e\<in>set entries. wf_config (TrimSpace e)"
    using assms by (simp_all add: ParseConfig_Inr_iff)
  show "wf_grant g"
    unfolding g(1) using g(2)
    by (intro wf_grant_addPairs) (auto simp: wf_config_def wf_entry_def case_prod_beta)
  show "entries \<noteq> [] \<Longrightarrow> perms g \<noteq> []" unfolding g(1) by (intro addPairs_nonempty) simp
qed

lemma parseRule_wf:
  assumes "parseRule i raw = Inr r"
  shows "wf_grant (r_Grant r)" "perms (r_Grant r) \<noteq> []"
    "r_kind r = selectEmail \<or> r_kind r = selectDomain" "r_value r = ToLower (r_value r)" "r_Index r = i" "r_Raw r = raw"
  using assms
  by (auto simp: parseRule_def Let_def checkSelector_def ParseConfig_wf(1) dest: ParseConfig_wf(2)
      split: prod.splits if_splits option.splits sum.splits selectorKind.splits)

lemma parseRules_wf:
  "parseRules i raws = Inr rs \<Longrightarrow> r \<in> set rs \<Longrightarrow>
     wf_grant (r_Grant r) \<and> perms (r_Grant r) \<noteq> [] \<and> (r_kind r = selectEmail \<or> r_kind r = selectDomain)"
proof (induction raws arbitrary: i rs)
  case (Cons raw raws)
  then show ?case
    by (fastforce split: sum.splits dest: parseRule_wf)
qed simp

lemma Parse_wf: "Parse rules dflt = Inr p \<Longrightarrow> wf_policy p"
  by (auto simp: Parse_def wf_policy_def ParseConfig_wf(1) dest: parseRules_wf split: sum.splits if_splits)

lemma Explain_grants_wf:
  assumes "wf_policy p"
    "Some g \<in> set (map (\<lambda>r. Some (r_Grant r)) (filter P (p_rules p)) @ (if b then [Some (p_dflt p)] else []))"
  shows "wf_grant g"
  using assms by (auto simp: wf_policy_def split: if_splits)

lemma grantBit_nonempty: "wf_grant g \<Longrightarrow> perms g \<noteq> [] \<longleftrightarrow> (\<exists>ns. 0 < grantBit g ns)"
proof
  assume w: "wf_grant g" and "perms g \<noteq> []"
  then obtain ns r kvs where "perms g = (ns, r) # kvs" by (cases "perms g") auto
  then have "map_of (perms g) ns = Some r" by simp
  then show "\<exists>ns. 0 < grantBit g ns"
    using wf_grant_role[OF w, of ns r] roleBit_pos_iff by metis
qed (auto simp: grantBit_def split: option.splits)

lemma Explain_bits:
  assumes "wf_policy p"
  shows "wf_grant (x_Grant (Explain p email))"
    and "grantBit (x_Grant (Explain p email)) ns =
      (if x_Matched (Explain p email) = [] then grantBit (p_dflt p) ns
       else Max ((\<lambda>r. grantBit (r_Grant r) ns) ` set (x_Matched (Explain p email))))"
proof -
  define grants where "grants = map (\<lambda>r. Some (r_Grant r)) (x_Matched (Explain p email)) @
    (if x_Matched (Explain p email) = [] then [Some (p_dflt p)] else [])"
  have g: "x_Grant (Explain p email) = Merge grants"
    by (simp add: grants_def Explain_def Let_def)
  have wf: "\<And>g. Some g \<in> set grants \<Longrightarrow> wf_grant g"
    using Explain_grants_wf[OF assms] by (simp add: grants_def Explain_def Let_def)
  show "wf_grant (x_Grant (Explain p email))"
    unfolding g Merge_addPairs by (rule Merge_fold_wf[OF wf]) simp_all
  have *: "optBit ns ` set grants = (if x_Matched (Explain p email) = [] then {grantBit (p_dflt p) ns}
      else (\<lambda>r. grantBit (r_Grant r) ns) ` set (x_Matched (Explain p email)))"
    by (auto simp: grants_def optBit_def image_iff)
  have "grantBit (Merge grants) ns = Max (insert 0 (optBit ns ` set grants))"
    unfolding Merge_addPairs by (subst Merge_fold_bit[OF wf]) (simp_all add: grantBit_def)
  then show "grantBit (x_Grant (Explain p email)) ns =
      (if x_Matched (Explain p email) = [] then grantBit (p_dflt p) ns
       else Max ((\<lambda>r. grantBit (r_Grant r) ns) ` set (x_Matched (Explain p email))))"
    by (simp add: g * split: if_splits)
qed

section \<open>Properties\<close>

text \<open>C35. What a person may do is decided by the configuration alone: for a policy that parsed, the
  role a person gets on a namespace is the highest one any matching rule gives, and the default
  permissions when no rule matches.\<close>

theorem Resolve_highest:
  assumes "Parse rules dflt = Inr p"
  shows "\<exists>g. Resolve p email = Inr (Some g) \<and> wf_grant g \<and>
    grantBit g ns =
      (let matched = filter (\<lambda>r. matches r (ToLower (TrimSpace email)) (emailDomain (ToLower (TrimSpace email)))) (p_rules p)
       in if matched = [] then grantBit (p_dflt p) ns else Max ((\<lambda>r. grantBit (r_Grant r) ns) ` set matched))"
  using Explain_bits[OF Parse_wf[OF assms], of email]
  by (simp add: Resolve_def Explain_def Let_def)

theorem Resolve_highest_witness:
  "\<exists>p g. Parse [''domain:x.io=a:read'', ''email:bo@x.io=a:admin'']  [] = Inr p \<and>
     Resolve p ''Bo@X.io'' = Inr (Some g) \<and> grantBit g ''a'' = 8"
proof -
  let ?raw = "[''domain:x.io=a:read'', ''email:bo@x.io=a:admin'']"
  let ?p = "\<lparr>p_rules = [
      \<lparr>r_Index = 0, r_Raw = ''domain:x.io=a:read'', r_Grant = \<lparr>perms = [(''a'', ''read'')]\<rparr>, r_kind = selectDomain, r_value = ''x.io''\<rparr>,
      \<lparr>r_Index = 1, r_Raw = ''email:bo@x.io=a:admin'', r_Grant = \<lparr>perms = [(''a'', ''admin'')]\<rparr>, r_kind = selectEmail, r_value = ''bo@x.io''\<rparr>],
    p_dflt = \<lparr>perms = []\<rparr>\<rparr>"
  have p: "Parse ?raw [] = Inr ?p" by code_simp
  have m: "filter (\<lambda>r. matches r (ToLower (TrimSpace ''Bo@X.io'')) (emailDomain (ToLower (TrimSpace ''Bo@X.io'')))) (p_rules ?p)
      = p_rules ?p" by code_simp
  show ?thesis using p Resolve_highest[OF p, of "''Bo@X.io''" "''a''"] m
    by (auto simp: Let_def grantBit_def roleBit_def roleBits_def role_defs)
qed

text \<open>C27. Deny by default: under a policy that parsed, a person is permitted anything at all exactly
  when some rule names them or their domain, or default permissions are configured. A component
  built without a resolver permits nobody.\<close>

theorem permitted_iff_configured:
  assumes "Parse rules dflt = Inr p"
  shows "((\<exists>g. permitted (Resolve p) email = Inr (g, True)) \<longleftrightarrow>
     (\<exists>r \<in> set (p_rules p). matches r (ToLower (TrimSpace email)) (emailDomain (ToLower (TrimSpace email))))
     \<or> perms (p_dflt p) \<noteq> [])
   \<and> \<not> (\<exists>g. permitted denyAll email = Inr (g, True))"
proof -
  have wf: "wf_policy p" by (rule Parse_wf[OF assms])
  let ?m = "x_Matched (Explain p email)"
  have m: "?m = [] \<longleftrightarrow> \<not> (\<exists>r \<in> set (p_rules p). matches r (ToLower (TrimSpace email)) (emailDomain (ToLower (TrimSpace email))))"
    by (auto simp: Explain_def Let_def filter_empty_conv)
  have "(\<exists>ns. 0 < grantBit (x_Grant (Explain p email)) ns) \<longleftrightarrow> ?m \<noteq> [] \<or> perms (p_dflt p) \<noteq> []"
  proof (cases "?m = []")
    case True
    then show ?thesis
      using Explain_bits(2)[OF wf] grantBit_nonempty[of "p_dflt p"] wf by (simp add: wf_policy_def)
  next
    case False
    then obtain r where r: "r \<in> set ?m" by (cases ?m) auto
    then have "wf_grant (r_Grant r)" "perms (r_Grant r) \<noteq> []"
      using wf by (auto simp: Explain_def Let_def wf_policy_def)
    then obtain ns where "0 < grantBit (r_Grant r) ns" using grantBit_nonempty by blast
    also have "\<dots> \<le> grantBit (x_Grant (Explain p email)) ns"
      using False r by (simp add: Explain_bits(2)[OF wf])
    finally show ?thesis using False by blast
  qed
  then have "perms (x_Grant (Explain p email)) \<noteq> [] \<longleftrightarrow> ?m \<noteq> [] \<or> perms (p_dflt p) \<noteq> []"
    using grantBit_nonempty[OF Explain_bits(1)[OF wf]] by blast
  then show ?thesis
    using m by (simp add: permitted_def Resolve_def Empty_def denyAll_def New_def)
qed

theorem permitted_iff_configured_witness:
  "\<exists>p. Parse [''domain:x.io=a:read''] [] = Inr p \<and> (\<exists>g. permitted (Resolve p) ''Bo@X.io'' = Inr (g, True))
     \<and> \<not> (\<exists>g. permitted (Resolve p) ''bo@y.io'' = Inr (g, True))"
proof -
  let ?p = "\<lparr>p_rules = [
      \<lparr>r_Index = 0, r_Raw = ''domain:x.io=a:read'', r_Grant = \<lparr>perms = [(''a'', ''read'')]\<rparr>, r_kind = selectDomain, r_value = ''x.io''\<rparr>],
    p_dflt = \<lparr>perms = []\<rparr>\<rparr>"
  have p: "Parse [''domain:x.io=a:read''] [] = Inr ?p" by code_simp
  have "\<exists>r \<in> set (p_rules ?p). matches r (ToLower (TrimSpace ''Bo@X.io'')) (emailDomain (ToLower (TrimSpace ''Bo@X.io'')))"
    by code_simp
  moreover have "\<not> (\<exists>r \<in> set (p_rules ?p). matches r (ToLower (TrimSpace ''bo@y.io'')) (emailDomain (ToLower (TrimSpace ''bo@y.io''))))"
    by code_simp
  ultimately show ?thesis
    using p permitted_iff_configured[OF p, of "''Bo@X.io''"] permitted_iff_configured[OF p, of "''bo@y.io''"]
    by (intro exI[of _ ?p] conjI) simp_all
qed

end
