(* ===== verification/State_Types.thy ===== *)
theory State_Types
  imports Authz Go_Crypto
begin

text \<open>
  The persisted types of packages \<^verbatim>\<open>oidc\<close>, \<^verbatim>\<open>keys\<close> and \<^verbatim>\<open>admin\<close>, the errors of the stores, and the
  SQLite schema after its last migration (src/state/sqlite/migrations). A table is the list of its
  rows in rowid order. A row keyed by a secret holds the secret's hash and the other columns, i.e. the
  Go struct with the secret blanked, plus its lifecycle stamps; NULL is \<^const>\<open>None\<close>.
\<close>

section \<open>OIDC types\<close>

record Identity =
  id_ConnectorID :: string
  id_Subject :: string
  id_Email :: string

record AuthRequest =
  ar_InternalState :: string
  ar_ConnectorID :: string
  ar_ClientID :: string
  ar_RedirectURI :: string
  ar_Scope :: string
  ar_ClientState :: string
  ar_CodeChallenge :: string
  ar_CodeChallengeMethod :: string
  ar_Nonce :: string
  ar_CreatedAt :: Time
  ar_ExpiresAt :: Time

record AuthCode =
  ac_Code :: string
  ac_ClientID :: string
  ac_RedirectURI :: string
  ac_ConnectorID :: string
  ac_Subject :: string
  ac_Email :: string
  ac_Scope :: string
  ac_CodeChallenge :: string
  ac_CodeChallengeMethod :: string
  ac_Nonce :: string
  ac_FamilyID :: string
  ac_CreatedAt :: Time
  ac_ExpiresAt :: Time

record Refresh =
  rt_Token :: string
  rt_JTI :: string
  rt_ClientID :: string
  rt_ConnectorID :: string
  rt_Subject :: string
  rt_Email :: string
  rt_FamilyID :: string
  rt_AuthTime :: Time
  rt_CreatedAt :: Time
  rt_ExpiresAt :: Time

record DeviceCode =
  dc_Code :: string
  dc_UserCode :: string
  dc_ClientID :: string
  dc_Scope :: string
  dc_ConnectorID :: string
  dc_Subject :: string
  dc_Email :: string
  dc_ApprovedAt :: "Time option"
  dc_DeniedAt :: "Time option"
  dc_LastPolledAt :: "Time option"
  dc_IntervalSeconds :: int
  dc_CreatedAt :: Time
  dc_ExpiresAt :: Time

record BrowserSession =
  bs_SID :: string
  bs_ConnectorID :: string
  bs_Subject :: string
  bs_Email :: string
  bs_CreatedAt :: Time
  bs_ExpiresAt :: Time

section \<open>Keys and integration keys\<close>

record Keypair =
  kp_Kid :: string
  kp_Alg :: string
  kp_PrivatePEM :: string
  kp_PublicPEM :: string
  kp_CreatedAt :: Time
  kp_RetiredAt :: "Time option"

record IntegrationKey =
  ik_ID :: string
  ik_Namespace :: string
  ik_Role :: Role
  ik_Owner :: string
  ik_JTI :: string
  ik_CreatedAt :: Time
  ik_ExpiresAt :: "Time option"
  ik_RevokedAt :: "Time option"

section \<open>Errors\<close>

text \<open>The sentinels of the stores; \<^verbatim>\<open>ErrStore\<close> is any other failure (a driver error).\<close>

datatype StoreError =
    ErrAuthRequestNotFound | ErrDuplicateInternalState
  | ErrAuthCodeNotFound | ErrAuthCodeReused | ErrDuplicateAuthCode
  | ErrRefreshNotFound | ErrRefreshReused | ErrRefreshFamilyRevoked | ErrDuplicateRefreshToken
  | ErrSessionNotFound
  | ErrDeviceCodeNotFound | ErrDeviceCodeNotPending | ErrDuplicateDeviceCode
  | ErrBrowserSessionNotFound | ErrDuplicateBrowserSession
  | ErrDuplicateKid | ErrKeypairNotFound | ErrLastActiveKeypair
  | ErrIntegrationKeyNotFound
  | ErrStore string

text \<open>
  \<^verbatim>\<open>ConsumeAuthCode\<close> and \<^verbatim>\<open>ConsumeRefresh\<close> return the row together with their reuse error, so
  their result has three shapes: the live value, the tombstone of a reused one, an error.
\<close>

datatype 'a Consumed = Live 'a | Reused 'a | Miss StoreError

section \<open>Schema\<close>

record AuthCodeRow =
  acr_code_hash :: string
  acr_data :: AuthCode
  acr_consumed_at :: "Time option"

record RefreshRow =
  rr_token_hash :: string
  rr_data :: Refresh
  rr_consumed_at :: "Time option"
  rr_revoked_at :: "Time option"

record DeviceRow =
  dr_device_code_hash :: string
  dr_data :: DeviceCode

record BrowserSessionRow =
  br_sid_hash :: string
  br_data :: BrowserSession

record Store =
  auth_requests :: "AuthRequest list"
  auth_codes :: "AuthCodeRow list"
  refresh_tokens :: "RefreshRow list"
  device_codes :: "DeviceRow list"
  browser_sessions :: "BrowserSessionRow list"
  keypairs :: "Keypair list"
  integration_keys :: "IntegrationKey list"
  jti_denylist :: "(string \<times> Time) list"

definition emptyStore :: Store where
  "emptyStore = \<lparr>auth_requests = [], auth_codes = [], refresh_tokens = [], device_codes = [],
     browser_sessions = [], keypairs = [], integration_keys = [], jti_denylist = []\<rparr>"

section \<open>Statements\<close>

text \<open>
  The shapes of SQL statement the store uses. \<^verbatim>\<open>update_where\<close> is \<^verbatim>\<open>UPDATE ... WHERE\<close>, a deletion is
  \<^const>\<open>filter\<close>, and a lookup by a unique key is \<^const>\<open>find\<close>.
\<close>

definition update_where :: "('a \<Rightarrow> bool) \<Rightarrow> ('a \<Rightarrow> 'a) \<Rightarrow> 'a list \<Rightarrow> 'a list" where
  "update_where P f rows = map (\<lambda>r. if P r then f r else r) rows"

definition count_where :: "('a \<Rightarrow> bool) \<Rightarrow> 'a list \<Rightarrow> nat" where
  "count_where P rows = length (filter P rows)"

definition exists_where :: "('a \<Rightarrow> bool) \<Rightarrow> 'a list \<Rightarrow> bool" where
  "exists_where P rows = list_ex P rows"

named_theorems sql \<open>laws of the statements\<close>

lemma exists_where_iff [simp, sql]: "exists_where P rows \<longleftrightarrow> (\<exists>r\<in>set rows. P r)"
  by (simp add: exists_where_def list_ex_iff)

lemma exists_where_key [sql]: "exists_where (\<lambda>r. k r = h) rows \<longleftrightarrow> h \<in> k ` set rows"
  by auto

lemma count_where_pos [sql]: "0 < count_where P rows \<longleftrightarrow> (\<exists>r\<in>set rows. P r)"
  by (auto simp: count_where_def filter_empty_conv)

lemma count_where_zero [sql]: "count_where P rows = 0 \<longleftrightarrow> (\<forall>r\<in>set rows. \<not> P r)"
  by (auto simp: count_where_def filter_empty_conv)

lemma set_update_where [sql]: "set (update_where P f rows) = (\<lambda>r. if P r then f r else r) ` set rows"
  by (simp add: update_where_def)

lemma in_update_where [sql]:
  "r \<in> set (update_where P f rows) \<longleftrightarrow> (\<exists>r0\<in>set rows. r = (if P r0 then f r0 else r0))"
  by (auto simp: update_where_def)

lemma update_where_key [sql]:
  "(\<And>r. k (f r) = k r) \<Longrightarrow> map k (update_where P f rows) = map k rows"
  by (simp add: update_where_def)

lemma image_update_where [sql]:
  "(\<And>r. k (f r) = k r) \<Longrightarrow> k ` set (update_where P f rows) = k ` set rows"
  by (metis list.set_map update_where_key)

lemma update_where_cong:
  "(\<And>r. r \<in> set rows \<Longrightarrow> P r \<longleftrightarrow> Q r) \<Longrightarrow> update_where P f rows = update_where Q f rows"
  by (simp add: update_where_def)

lemma update_where_none [sql]: "\<forall>r\<in>set rows. \<not> P r \<Longrightarrow> update_where P f rows = rows"
  by (induction rows) (simp_all add: update_where_def)

lemma length_update_where [simp]: "length (update_where P f rows) = length rows"
  by (simp add: update_where_def)

subsection \<open>Lookups by a unique key\<close>

lemma find_update_where [sql]:
  "(\<And>r. k (f r) = k r) \<Longrightarrow>
   find (\<lambda>r. k r = h) (update_where P f rows) = map_option (\<lambda>r. if P r then f r else r) (find (\<lambda>r. k r = h) rows)"
  by (induction rows) (simp_all add: update_where_def)

lemma find_update_key [sql]:
  assumes "\<And>r. k (f r) = k r"
  shows "find (\<lambda>r. k r = h) (update_where (\<lambda>r. k r = h0 \<and> Q r) f rows) =
    (if h = h0 then map_option (\<lambda>r. if Q r then f r else r) (find (\<lambda>r. k r = h) rows)
     else find (\<lambda>r. k r = h) rows)"
proof (cases "find (\<lambda>r. k r = h) rows")
  case (Some r)
  then have "k r = h" using find_SomeD by fastforce
  then show ?thesis using Some by (auto simp: find_update_where[of k f, OF assms])
qed (auto simp: find_update_where[of k f, OF assms])

lemma find_key_and [sql]:
  assumes "distinct (map k rows)"
  shows "find (\<lambda>r. k r = h \<and> Q r) rows =
    (case find (\<lambda>r. k r = h) rows of None \<Rightarrow> None | Some r \<Rightarrow> if Q r then Some r else None)"
  using assms
proof (induction rows)
  case (Cons a rows)
  show ?case
  proof (cases "k a = h")
    case True
    then have "\<forall>r\<in>set rows. k r \<noteq> h" using Cons.prems by (auto simp: rev_image_eqI)
    then have "find (\<lambda>r. k r = h \<and> Q r) rows = None" by (auto simp: find_None_iff)
    then show ?thesis using True by simp
  qed (use Cons in simp)
qed simp

lemma find_append_new [sql]:
  "find P (rows @ [r]) = (case find P rows of Some x \<Rightarrow> Some x | None \<Rightarrow> if P r then Some r else None)"
  by (induction rows) simp_all

lemma find_key_None_iff: "find (\<lambda>r. k r = h) rows = None \<longleftrightarrow> h \<notin> k ` set rows"
  by (auto simp: find_None_iff)

lemma find_key_Some_iff:
  "distinct (map k rows) \<Longrightarrow> find (\<lambda>r. k r = h) rows = Some r \<longleftrightarrow> r \<in> set rows \<and> k r = h"
  by (auto dest: find_SomeD intro: find_distinct_key)

lemma count_where_card:
  assumes "distinct (map k rows)"
  shows "count_where P rows = card {h. \<exists>r. find (\<lambda>r. k r = h) rows = Some r \<and> P r}"
proof -
  have "{h. \<exists>r. find (\<lambda>r. k r = h) rows = Some r \<and> P r} = set (map k (filter P rows))"
    using find_key_Some_iff[OF assms] by auto
  moreover have "distinct (map k (filter P rows))" using assms by (rule distinct_map_filter)
  ultimately show ?thesis
    by (simp only: distinct_card count_where_def length_map)
qed

lemma find_filter_key [sql]:
  "distinct (map k rows) \<Longrightarrow> find (\<lambda>r. k r = h) (filter P rows) =
    (case find (\<lambda>r. k r = h) rows of None \<Rightarrow> None | Some r \<Rightarrow> if P r then Some r else None)"
proof (induction rows)
  case (Cons a rows)
  show ?case
  proof (cases "k a = h")
    case True
    then have "find (\<lambda>r. k r = h) (filter P rows) = None"
      using Cons.prems by (auto simp: find_None_iff rev_image_eqI)
    then show ?thesis using True by simp
  qed (use Cons in simp)
qed simp

lemma find_removed [sql]: "find (\<lambda>r. k r = h) (filter (\<lambda>r. k r \<noteq> s) rows) = (if h = s then None else find (\<lambda>r. k r = h) rows)"
  by (induction rows) auto

end
