(* ===== verification/Key_Store.thy ===== *)
theory Key_Store
  imports State_Types "HOL-Library.Product_Lexorder"
begin

text \<open>
  The \<^verbatim>\<open>KeyStore\<close> interface of package \<^verbatim>\<open>keys\<close> (src/keys/store.go), its contract, and the two stores that
  implement it: SQLite (src/state/sqlite/keypair.go) and Postgres (src/state/postgres/keypair.go). The
  two differ in how they guard against retiring the last active key, a guarded \<^verbatim>\<open>UPDATE\<close> here, row
  locks and a count there; both refine one specification. Change notifications are not modelled.
\<close>

definition Retired :: "Keypair \<Rightarrow> bool" where
  "Retired kp = (kp_RetiredAt kp \<noteq> None)"

definition keyOrder :: "Keypair \<Rightarrow> Time \<times> string" where
  "keyOrder kp = (kp_CreatedAt kp, kp_Kid kp)"

section \<open>The interface and its specification\<close>

record 'st KeyStore =
  kst_SaveKeypair :: "'st \<Rightarrow> Keypair \<Rightarrow> StoreError option \<times> 'st"
  kst_LoadKeypairs :: "'st \<Rightarrow> StoreError + Keypair list"
  kst_RetireKeypair :: "'st \<Rightarrow> string \<Rightarrow> Time \<Rightarrow> (StoreError + Keypair) \<times> 'st"

type_synonym AbsKeys = "string \<rightharpoonup> Keypair"

definition spec_SaveKeypair :: "AbsKeys \<Rightarrow> Keypair \<Rightarrow> StoreError option \<times> AbsKeys" where
  "spec_SaveKeypair A kp = (if A (kp_Kid kp) \<noteq> None then (Some ErrDuplicateKid, A)
     else (None, A(kp_Kid kp \<mapsto> kp\<lparr>kp_RetiredAt := None\<rparr>)))"

definition spec_RetireKeypair :: "AbsKeys \<Rightarrow> string \<Rightarrow> Time \<Rightarrow> (StoreError + Keypair) \<times> AbsKeys" where
  "spec_RetireKeypair A kid at = (case A kid of
     None \<Rightarrow> (Inl ErrKeypairNotFound, A)
   | Some kp \<Rightarrow> if Retired kp then (Inr kp, A)
       else if \<exists>k kp'. k \<noteq> kid \<and> A k = Some kp' \<and> \<not> Retired kp'
       then (Inr (kp\<lparr>kp_RetiredAt := Some at\<rparr>), A(kid \<mapsto> kp\<lparr>kp_RetiredAt := Some at\<rparr>))
       else (Inl ErrLastActiveKeypair, A))"

definition hasActive :: "AbsKeys \<Rightarrow> bool" where
  "hasActive A = (\<exists>k kp. A k = Some kp \<and> \<not> Retired kp)"

text \<open>The keys of a map are named by their kid.\<close>

definition wf_keys :: "AbsKeys \<Rightarrow> bool" where
  "wf_keys A = (\<forall>k kp. A k = Some kp \<longrightarrow> kp_Kid kp = k)"

locale key_store =
  fixes ops :: "'st KeyStore"
    and inv :: "'st \<Rightarrow> bool"
    and abs :: "'st \<Rightarrow> AbsKeys"
  assumes abs_wf: "inv st \<Longrightarrow> wf_keys (abs st)"
    and save_keypair: "inv st \<Longrightarrow> kst_SaveKeypair ops st kp = (err, st') \<Longrightarrow>
      inv st' \<and> ((\<exists>e. err = Some (ErrStore e) \<and> abs st' = abs st) \<or> (err, abs st') = spec_SaveKeypair (abs st) kp)"
    and load_keypairs: "inv st \<Longrightarrow> kst_LoadKeypairs ops st = Inr kps \<Longrightarrow>
      set kps = ran (abs st) \<and> sorted (map keyOrder kps) \<and> distinct (map kp_Kid kps)"
    and retire_keypair: "inv st \<Longrightarrow> kst_RetireKeypair ops st kid at = (res, st') \<Longrightarrow>
      inv st' \<and> ((\<exists>e. res = Inl (ErrStore e) \<and> abs st' = abs st) \<or> (res, abs st') = spec_RetireKeypair (abs st) kid at)"

subsection \<open>Laws of the specification\<close>

lemma spec_Save_new_active: "spec_SaveKeypair A kp = (None, A') \<Longrightarrow> hasActive A'"
  by (auto simp: spec_SaveKeypair_def hasActive_def Retired_def split: if_splits intro!: exI[of _ "kp_Kid kp"])

lemma spec_Save_active: "spec_SaveKeypair A kp = (err, A') \<Longrightarrow> hasActive A \<Longrightarrow> hasActive A'"
  using spec_Save_new_active[of A kp A'] by (cases err) (auto simp: spec_SaveKeypair_def split: if_splits)

lemma spec_Retire_active: "spec_RetireKeypair A kid at = (res, A') \<Longrightarrow> hasActive A \<Longrightarrow> hasActive A'"
  by (fastforce simp: spec_RetireKeypair_def hasActive_def split: option.splits if_splits)

lemma spec_Retire_once:
  "spec_RetireKeypair A kid at = (Inr kp, A') \<Longrightarrow> spec_RetireKeypair A' kid at' = (Inr kp, A')"
  by (auto simp: spec_RetireKeypair_def Retired_def split: option.splits if_splits)

section \<open>SQLite\<close>

definition SaveKeypair :: "Store \<Rightarrow> Keypair \<Rightarrow> StoreError option \<times> Store" where
  "SaveKeypair s kp =
     (if exists_where (\<lambda>r. kp_Kid r = kp_Kid kp) (keypairs s) then (Some ErrDuplicateKid, s)
      else (None, s\<lparr>keypairs := keypairs s @ [kp\<lparr>kp_RetiredAt := None\<rparr>]\<rparr>))"

definition LoadKeypairs :: "Store \<Rightarrow> StoreError + Keypair list" where
  "LoadKeypairs s = Inr (sort_key keyOrder (keypairs s))"

definition UpdateKeypairPrivatePEM :: "Store \<Rightarrow> string \<Rightarrow> string \<Rightarrow> StoreError option \<times> Store" where
  "UpdateKeypairPrivatePEM s kid privatePEM =
     (if count_where (\<lambda>r. kp_Kid r = kid) (keypairs s) = 0 then (Some (ErrStore ''no keypair with kid''), s)
      else (None, s\<lparr>keypairs := update_where (\<lambda>r. kp_Kid r = kid) (\<lambda>r. r\<lparr>kp_PrivatePEM := privatePEM\<rparr>) (keypairs s)\<rparr>))"

definition RetireKeypair :: "Store \<Rightarrow> string \<Rightarrow> Time \<Rightarrow> (StoreError + Keypair) \<times> Store" where
  "RetireKeypair s kid at =
     (let hit = (\<lambda>r. kp_Kid r = kid \<and> kp_RetiredAt r = None
            \<and> exists_where (\<lambda>o'. kp_Kid o' \<noteq> kid \<and> kp_RetiredAt o' = None) (keypairs s));
          changed = count_where hit (keypairs s);
          s' = s\<lparr>keypairs := update_where hit (\<lambda>r. r\<lparr>kp_RetiredAt := Some at\<rparr>) (keypairs s)\<rparr>
      in case find (\<lambda>r. kp_Kid r = kid) (keypairs s') of
           None \<Rightarrow> (Inl ErrKeypairNotFound, s')
         | Some kp \<Rightarrow> if changed = 0 \<and> \<not> Retired kp then (Inl ErrLastActiveKeypair, s') else (Inr kp, s'))"

definition sqliteKeyStore :: "Store KeyStore" where
  "sqliteKeyStore = \<lparr>kst_SaveKeypair = SaveKeypair, kst_LoadKeypairs = LoadKeypairs, kst_RetireKeypair = RetireKeypair\<rparr>"

section \<open>Postgres\<close>

definition pg_RetireKeypair :: "Store \<Rightarrow> string \<Rightarrow> Time \<Rightarrow> (StoreError + Keypair) \<times> Store" where
  "pg_RetireKeypair s kid at =
     (let active = sort (map kp_Kid (filter (\<lambda>r. kp_RetiredAt r = None) (keypairs s)));
          changed = (1 < length active \<and> kid \<in> set active);
          s' = (if changed
                then s\<lparr>keypairs := update_where (\<lambda>r. kp_Kid r = kid) (\<lambda>r. r\<lparr>kp_RetiredAt := Some at\<rparr>) (keypairs s)\<rparr>
                else s)
      in case find (\<lambda>r. kp_Kid r = kid) (keypairs s') of
           None \<Rightarrow> (Inl ErrKeypairNotFound, s)
         | Some kp \<Rightarrow> if \<not> changed \<and> \<not> Retired kp then (Inl ErrLastActiveKeypair, s') else (Inr kp, s'))"

definition pg_SaveKeypair :: "Store \<Rightarrow> Keypair \<Rightarrow> StoreError option \<times> Store" where
  "pg_SaveKeypair s kp =
     (if kp_Kid kp \<in> set (map kp_Kid (keypairs s)) then (Some ErrDuplicateKid, s)
      else (None, s\<lparr>keypairs := keypairs s @ [kp\<lparr>kp_RetiredAt := None\<rparr>]\<rparr>))"

definition pg_LoadKeypairs :: "Store \<Rightarrow> StoreError + Keypair list" where
  "pg_LoadKeypairs s = Inr (sort_key keyOrder (keypairs s))"

definition postgresKeyStore :: "Store KeyStore" where
  "postgresKeyStore = \<lparr>kst_SaveKeypair = pg_SaveKeypair, kst_LoadKeypairs = pg_LoadKeypairs, kst_RetireKeypair = pg_RetireKeypair\<rparr>"

section \<open>Refinement\<close>

definition wf_keypairs :: "Store \<Rightarrow> bool" where
  "wf_keypairs s = distinct (map kp_Kid (keypairs s))"

definition abs_keypairs :: "Store \<Rightarrow> AbsKeys" where
  "abs_keypairs s = (\<lambda>k. find (\<lambda>r. kp_Kid r = k) (keypairs s))"

lemma abs_keypairs_Some:
  "wf_keypairs s \<Longrightarrow> abs_keypairs s k = Some kp \<longleftrightarrow> kp \<in> set (keypairs s) \<and> kp_Kid kp = k"
  by (simp add: abs_keypairs_def wf_keypairs_def find_key_Some_iff)

lemma abs_keypairs_wf: "wf_keypairs s \<Longrightarrow> wf_keys (abs_keypairs s)"
  by (simp add: wf_keys_def abs_keypairs_Some)

lemma SaveKeypair_refines:
  assumes "wf_keypairs s" "SaveKeypair s kp = (err, s')"
  shows "wf_keypairs s' \<and> (err, abs_keypairs s') = spec_SaveKeypair (abs_keypairs s) kp"
proof (cases "kp_Kid kp \<in> kp_Kid ` set (keypairs s)")
  case True
  then have "find (\<lambda>r. kp_Kid r = kp_Kid kp) (keypairs s) \<noteq> None"
    by (simp only: find_key_None_iff not_not)
  moreover have "exists_where (\<lambda>r. kp_Kid r = kp_Kid kp) (keypairs s)"
    using True by (simp only: exists_where_key)
  ultimately show ?thesis using assms by (auto simp: SaveKeypair_def spec_SaveKeypair_def abs_keypairs_def)
next
  case False
  then have n: "find (\<lambda>r. kp_Kid r = kp_Kid kp) (keypairs s) = None"
    by (simp add: find_key_None_iff)
  have nx: "\<not> exists_where (\<lambda>r. kp_Kid r = kp_Kid kp) (keypairs s)"
    using False by (simp only: exists_where_key) simp
  have e: "err = None" "s' = s\<lparr>keypairs := keypairs s @ [kp\<lparr>kp_RetiredAt := None\<rparr>]\<rparr>"
    using assms(2) nx by (simp_all add: SaveKeypair_def del: exists_where_iff)
  have "abs_keypairs s' = (abs_keypairs s)(kp_Kid kp \<mapsto> kp\<lparr>kp_RetiredAt := None\<rparr>)"
    using n by (auto simp: e abs_keypairs_def find_append_new fun_eq_iff split: option.splits)
  then show ?thesis
    using assms(1) False n by (simp add: e spec_SaveKeypair_def wf_keypairs_def) (simp add: abs_keypairs_def)
qed

lemma LoadKeypairs_spec:
  assumes "wf_keypairs s"
  shows "set (sort_key keyOrder (keypairs s)) = ran (abs_keypairs s)
     \<and> sorted (map keyOrder (sort_key keyOrder (keypairs s))) \<and> distinct (map kp_Kid (sort_key keyOrder (keypairs s)))"
proof -
  have "ran (abs_keypairs s) = set (keypairs s)"
    by (auto simp: ran_def abs_keypairs_Some[OF assms])
  moreover have "mset (map kp_Kid (sort_key keyOrder (keypairs s))) = mset (map kp_Kid (keypairs s))" by simp
  ultimately show ?thesis
    using assms by (metis mset_eq_imp_distinct_iff set_sort sorted_sort_key wf_keypairs_def)
qed

text \<open>The effect of stamping one kid.\<close>

lemma abs_keypairs_stamp:
  assumes "find (\<lambda>r. kp_Kid r = kid) (keypairs s) = Some kp" "Q kp"
  shows "abs_keypairs (s\<lparr>keypairs := update_where (\<lambda>r. kp_Kid r = kid \<and> Q r) (\<lambda>r. r\<lparr>kp_RetiredAt := Some at\<rparr>) (keypairs s)\<rparr>)
    = (abs_keypairs s)(kid \<mapsto> kp\<lparr>kp_RetiredAt := Some at\<rparr>)"
  using assms by (auto simp: abs_keypairs_def find_update_key fun_eq_iff)

lemma RetireKeypair_refines:
  assumes "wf_keypairs s" "RetireKeypair s kid at = (res, s')"
  shows "wf_keypairs s' \<and> (res, abs_keypairs s') = spec_RetireKeypair (abs_keypairs s) kid at"
proof -
  let ?other = "\<exists>r\<in>set (keypairs s). kp_Kid r \<noteq> kid \<and> kp_RetiredAt r = None"
  let ?hit = "\<lambda>r. kp_Kid r = kid \<and> (kp_RetiredAt r = None \<and> ?other)"
  let ?s = "s\<lparr>keypairs := update_where ?hit (\<lambda>r. r\<lparr>kp_RetiredAt := Some at\<rparr>) (keypairs s)\<rparr>"
  have other: "?other \<longleftrightarrow> (\<exists>k kp'. k \<noteq> kid \<and> abs_keypairs s k = Some kp' \<and> \<not> Retired kp')"
    using assms(1) by (auto simp: abs_keypairs_Some Retired_def)
  have wf: "wf_keypairs ?s" using assms(1) by (simp add: wf_keypairs_def update_where_key)
  have R: "RetireKeypair s kid at = (case find (\<lambda>r. kp_Kid r = kid) (keypairs ?s) of
        None \<Rightarrow> (Inl ErrKeypairNotFound, ?s)
      | Some kp \<Rightarrow> if count_where ?hit (keypairs s) = 0 \<and> \<not> Retired kp then (Inl ErrLastActiveKeypair, ?s) else (Inr kp, ?s))"
    by (simp add: RetireKeypair_def Let_def)
  show ?thesis
  proof (cases "find (\<lambda>r. kp_Kid r = kid) (keypairs s)")
    case None
    then have "\<forall>r\<in>set (keypairs s). \<not> ?hit r" using find_NoneD[OF None] by auto
    then have "?s = s" by (simp add: update_where_none)
    then show ?thesis using assms None wf R by (simp add: spec_RetireKeypair_def abs_keypairs_def)
  next
    case (Some kp)
    have f: "find (\<lambda>r. kp_Kid r = kid) (keypairs ?s) =
        Some (if kp_RetiredAt kp = None \<and> ?other then kp\<lparr>kp_RetiredAt := Some at\<rparr> else kp)"
      using Some by (auto simp: find_update_key)
    have kp: "kp \<in> set (keypairs s)" "kp_Kid kp = kid" using find_SomeD[OF Some] by auto
    show ?thesis
    proof (cases "kp_RetiredAt kp = None \<and> ?other")
      case True
      then have "0 < count_where ?hit (keypairs s)" using kp by (auto simp: count_where_pos)
      then have "res = Inr (kp\<lparr>kp_RetiredAt := Some at\<rparr>)" "s' = ?s"
        using assms(2) True unfolding R f by simp_all
      moreover have "abs_keypairs ?s = (abs_keypairs s)(kid \<mapsto> kp\<lparr>kp_RetiredAt := Some at\<rparr>)"
        by (rule abs_keypairs_stamp[OF Some]) (use True in simp)
      moreover have "abs_keypairs s kid = Some kp" using Some by (simp add: abs_keypairs_def)
      ultimately show ?thesis
        using wf True other by (simp add: spec_RetireKeypair_def Retired_def)
    next
      case False
      have "r = kp" if "r \<in> set (keypairs s)" "kp_Kid r = kid" for r
        using distinct_key_unique[of kp_Kid "keypairs s" r kp] that kp assms(1) by (simp add: wf_keypairs_def)
      then have none: "\<forall>r\<in>set (keypairs s). \<not> ?hit r" using False by blast
      then have "count_where ?hit (keypairs s) = 0" "?s = s"
        by (simp_all add: count_where_zero update_where_none)
      moreover have "abs_keypairs s kid = Some kp" using Some by (simp add: abs_keypairs_def)
      ultimately show ?thesis
        using assms False other unfolding R f by (auto simp: spec_RetireKeypair_def Retired_def split: if_splits)
    qed
  qed
qed

lemma sqliteKeyStore_simps [simp]:
  "kst_SaveKeypair sqliteKeyStore = SaveKeypair" "kst_LoadKeypairs sqliteKeyStore = LoadKeypairs"
  "kst_RetireKeypair sqliteKeyStore = RetireKeypair"
  by (simp_all add: sqliteKeyStore_def)

interpretation sqlite_keys: key_store sqliteKeyStore wf_keypairs abs_keypairs
  by unfold_locales
     (simp_all add: abs_keypairs_wf LoadKeypairs_def,
      blast dest: SaveKeypair_refines, blast dest: LoadKeypairs_spec, blast dest: RetireKeypair_refines)

subsection \<open>Postgres agrees with SQLite\<close>

lemma two_members: "finite X \<Longrightarrow> x \<in> X \<Longrightarrow> 1 < card X \<longleftrightarrow> (\<exists>y\<in>X. y \<noteq> x)"
  using card.remove[of X x] card_gt_0_iff[of "X - {x}"] by auto

lemma active_count:
  assumes "wf_keypairs s" "kid \<in> set (map kp_Kid (filter (\<lambda>r. kp_RetiredAt r = None) (keypairs s)))"
  shows "1 < length (filter (\<lambda>r. kp_RetiredAt r = None) (keypairs s)) \<longleftrightarrow>
    (\<exists>r\<in>set (keypairs s). kp_Kid r \<noteq> kid \<and> kp_RetiredAt r = None)"
proof -
  let ?act = "filter (\<lambda>r. kp_RetiredAt r = None) (keypairs s)"
  have "distinct (map kp_Kid ?act)" using assms(1) by (simp add: wf_keypairs_def distinct_map_filter)
  then have "length ?act = card (set (map kp_Kid ?act))" by (metis distinct_card length_map)
  then have "1 < length ?act \<longleftrightarrow> (\<exists>k\<in>set (map kp_Kid ?act). k \<noteq> kid)"
    using two_members[OF _ assms(2)] by simp
  then show ?thesis by auto
qed

lemma pg_RetireKeypair_eq:
  assumes "wf_keypairs s"
  shows "pg_RetireKeypair s kid at = RetireKeypair s kid at"
proof -
  let ?other = "\<exists>r\<in>set (keypairs s). kp_Kid r \<noteq> kid \<and> kp_RetiredAt r = None"
  let ?hit = "\<lambda>r. kp_Kid r = kid \<and> kp_RetiredAt r = None \<and> ?other"
  let ?act = "sort (map kp_Kid (filter (\<lambda>r. kp_RetiredAt r = None) (keypairs s)))"
  have changed: "1 < length ?act \<and> kid \<in> set ?act \<longleftrightarrow> (\<exists>r\<in>set (keypairs s). ?hit r)"
    using active_count[OF assms, of kid] by auto
  have uniq: "r = r'" if "r \<in> set (keypairs s)" "r' \<in> set (keypairs s)" "kp_Kid r = kp_Kid r'" for r r'
    using distinct_key_unique[of kp_Kid "keypairs s" r r'] that assms by (simp add: wf_keypairs_def)
  show ?thesis
  proof (cases "\<exists>r\<in>set (keypairs s). ?hit r")
    case True
    then obtain r0 where r0: "r0 \<in> set (keypairs s)" "?hit r0" by blast
    have "update_where (\<lambda>r. kp_Kid r = kid) (\<lambda>r. r\<lparr>kp_RetiredAt := Some at\<rparr>) (keypairs s)
        = update_where ?hit (\<lambda>r. r\<lparr>kp_RetiredAt := Some at\<rparr>) (keypairs s)"
      by (rule update_where_cong) (use r0 uniq in blast)
    moreover have "count_where ?hit (keypairs s) \<noteq> 0" using True by (simp add: count_where_zero)
    moreover have "find (\<lambda>r. kp_Kid r = kid) (update_where ?hit (\<lambda>r. r\<lparr>kp_RetiredAt := Some at\<rparr>) (keypairs s)) \<noteq> None"
      using r0 by (auto simp: find_key_None_iff image_update_where)
    ultimately show ?thesis
      using True changed by (auto simp: pg_RetireKeypair_def RetireKeypair_def Let_def)
  next
    case False
    then have "update_where ?hit (\<lambda>r. r\<lparr>kp_RetiredAt := Some at\<rparr>) (keypairs s) = keypairs s"
      "count_where ?hit (keypairs s) = 0"
      by (simp_all add: update_where_none count_where_zero)
    moreover have nc: "(1 < length ?act \<and> kid \<in> set ?act) = False" using False changed by blast
    ultimately show ?thesis
      unfolding pg_RetireKeypair_def RetireKeypair_def Let_def nc by (simp split: option.splits)
  qed
qed

lemma pg_SaveKeypair_eq: "pg_SaveKeypair s kp = SaveKeypair s kp"
  unfolding pg_SaveKeypair_def SaveKeypair_def exists_where_key by simp

lemma postgresKeyStore_simps [simp]:
  "kst_SaveKeypair postgresKeyStore = pg_SaveKeypair" "kst_LoadKeypairs postgresKeyStore = pg_LoadKeypairs"
  "kst_RetireKeypair postgresKeyStore = pg_RetireKeypair"
  by (simp_all add: postgresKeyStore_def)

interpretation postgres_keys: key_store postgresKeyStore wf_keypairs abs_keypairs
  by unfold_locales
     (simp_all add: abs_keypairs_wf pg_LoadKeypairs_def pg_SaveKeypair_eq pg_RetireKeypair_eq,
      blast dest: SaveKeypair_refines, blast dest: LoadKeypairs_spec, blast dest: RetireKeypair_refines)

end
