(* ===== verification/Go_AES.thy ===== *)
theory Go_AES
  imports Go_Crypto
begin

text \<open>
  AES-256-GCM as Go's \<^verbatim>\<open>crypto/aes\<close> and \<^verbatim>\<open>crypto/cipher\<close> provide it (FIPS 197, NIST SP 800-38D, 12-byte
  nonce, 16-byte tag): what \<^verbatim>\<open>sealPEM\<close> and \<^verbatim>\<open>openPEM\<close> of package \<^verbatim>\<open>keys\<close> call. Only the forward cipher is
  needed, since GCM decrypts with the same keystream.
\<close>

section \<open>The block cipher\<close>

definition aes_sbox :: "8 word list" where
  "aes_sbox = [
   0x63, 0x7c, 0x77, 0x7b, 0xf2, 0x6b, 0x6f, 0xc5, 0x30, 0x01, 0x67, 0x2b, 0xfe, 0xd7, 0xab, 0x76,
   0xca, 0x82, 0xc9, 0x7d, 0xfa, 0x59, 0x47, 0xf0, 0xad, 0xd4, 0xa2, 0xaf, 0x9c, 0xa4, 0x72, 0xc0,
   0xb7, 0xfd, 0x93, 0x26, 0x36, 0x3f, 0xf7, 0xcc, 0x34, 0xa5, 0xe5, 0xf1, 0x71, 0xd8, 0x31, 0x15,
   0x04, 0xc7, 0x23, 0xc3, 0x18, 0x96, 0x05, 0x9a, 0x07, 0x12, 0x80, 0xe2, 0xeb, 0x27, 0xb2, 0x75,
   0x09, 0x83, 0x2c, 0x1a, 0x1b, 0x6e, 0x5a, 0xa0, 0x52, 0x3b, 0xd6, 0xb3, 0x29, 0xe3, 0x2f, 0x84,
   0x53, 0xd1, 0x00, 0xed, 0x20, 0xfc, 0xb1, 0x5b, 0x6a, 0xcb, 0xbe, 0x39, 0x4a, 0x4c, 0x58, 0xcf,
   0xd0, 0xef, 0xaa, 0xfb, 0x43, 0x4d, 0x33, 0x85, 0x45, 0xf9, 0x02, 0x7f, 0x50, 0x3c, 0x9f, 0xa8,
   0x51, 0xa3, 0x40, 0x8f, 0x92, 0x9d, 0x38, 0xf5, 0xbc, 0xb6, 0xda, 0x21, 0x10, 0xff, 0xf3, 0xd2,
   0xcd, 0x0c, 0x13, 0xec, 0x5f, 0x97, 0x44, 0x17, 0xc4, 0xa7, 0x7e, 0x3d, 0x64, 0x5d, 0x19, 0x73,
   0x60, 0x81, 0x4f, 0xdc, 0x22, 0x2a, 0x90, 0x88, 0x46, 0xee, 0xb8, 0x14, 0xde, 0x5e, 0x0b, 0xdb,
   0xe0, 0x32, 0x3a, 0x0a, 0x49, 0x06, 0x24, 0x5c, 0xc2, 0xd3, 0xac, 0x62, 0x91, 0x95, 0xe4, 0x79,
   0xe7, 0xc8, 0x37, 0x6d, 0x8d, 0xd5, 0x4e, 0xa9, 0x6c, 0x56, 0xf4, 0xea, 0x65, 0x7a, 0xae, 0x08,
   0xba, 0x78, 0x25, 0x2e, 0x1c, 0xa6, 0xb4, 0xc6, 0xe8, 0xdd, 0x74, 0x1f, 0x4b, 0xbd, 0x8b, 0x8a,
   0x70, 0x3e, 0xb5, 0x66, 0x48, 0x03, 0xf6, 0x0e, 0x61, 0x35, 0x57, 0xb9, 0x86, 0xc1, 0x1d, 0x9e,
   0xe1, 0xf8, 0x98, 0x11, 0x69, 0xd9, 0x8e, 0x94, 0x9b, 0x1e, 0x87, 0xe9, 0xce, 0x55, 0x28, 0xdf,
   0x8c, 0xa1, 0x89, 0x0d, 0xbf, 0xe6, 0x42, 0x68, 0x41, 0x99, 0x2d, 0x0f, 0xb0, 0x54, 0xbb, 0x16]"

definition aes_sub :: "8 word \<Rightarrow> 8 word" where
  "aes_sub b = aes_sbox ! unat b"

definition aes_xtime :: "8 word \<Rightarrow> 8 word" where
  "aes_xtime b = push_bit 1 b XOR (if bit b 7 then 0x1b else 0)"

definition xor_bytes :: "8 word list \<Rightarrow> 8 word list \<Rightarrow> 8 word list" where
  "xor_bytes = map2 (XOR)"

text \<open>Key expansion: the words of the schedule, newest first, each a list of four bytes.\<close>

fun aes_expand :: "nat \<Rightarrow> nat \<Rightarrow> 8 word \<Rightarrow> 8 word list list \<Rightarrow> 8 word list list" where
  "aes_expand 0 i rcon ws = ws"
| "aes_expand (Suc n) i rcon ws =
     (let t = hd ws;
          t' = (if i mod 8 = 0 then xor_bytes (map aes_sub (rotate1 t)) [rcon, 0, 0, 0]
                else if i mod 8 = 4 then map aes_sub t else t);
          rcon' = (if i mod 8 = 0 then aes_xtime rcon else rcon)
      in aes_expand n (Suc i) rcon' (xor_bytes (ws ! 7) t' # ws))"

fun chunks4 :: "8 word list \<Rightarrow> 8 word list list" where
  "chunks4 (a # b # c # d # bs) = [a, b, c, d] # chunks4 bs"
| "chunks4 _ = []"

definition aes_schedule :: "8 word list \<Rightarrow> 8 word list list" where
  "aes_schedule key = rev (aes_expand 52 8 1 (rev (chunks4 key)))"

definition aes_roundKey :: "8 word list list \<Rightarrow> nat \<Rightarrow> 8 word list" where
  "aes_roundKey ws r = concat (take 4 (drop (4 * r) ws))"

definition aes_shiftRows :: "8 word list \<Rightarrow> 8 word list" where
  "aes_shiftRows s = map (\<lambda>i. s ! i) [0, 5, 10, 15, 4, 9, 14, 3, 8, 13, 2, 7, 12, 1, 6, 11]"

definition aes_mixColumn :: "8 word list \<Rightarrow> 8 word list" where
  "aes_mixColumn col = (case col of [a, b, c, d] \<Rightarrow>
     [aes_xtime a XOR (aes_xtime b XOR b) XOR c XOR d,
      a XOR aes_xtime b XOR (aes_xtime c XOR c) XOR d,
      a XOR b XOR aes_xtime c XOR (aes_xtime d XOR d),
      (aes_xtime a XOR a) XOR b XOR c XOR aes_xtime d] | _ \<Rightarrow> col)"

definition aes_mixColumns :: "8 word list \<Rightarrow> 8 word list" where
  "aes_mixColumns s = concat (map aes_mixColumn (chunks4 s))"

definition aes_encrypt :: "8 word list \<Rightarrow> 8 word list \<Rightarrow> 8 word list" where
  "aes_encrypt key blk =
     (let ws = aes_schedule key;
          s0 = xor_bytes blk (aes_roundKey ws 0);
          s13 = fold (\<lambda>r s. xor_bytes (aes_mixColumns (aes_shiftRows (map aes_sub s))) (aes_roundKey ws r)) [1..<14] s0
      in xor_bytes (aes_shiftRows (map aes_sub s13)) (aes_roundKey ws 14))"

section \<open>Galois/counter mode\<close>

fun ghash_mul :: "nat \<Rightarrow> 128 word \<Rightarrow> 128 word \<Rightarrow> 128 word \<Rightarrow> 128 word" where
  "ghash_mul 0 x z v = z"
| "ghash_mul (Suc n) x z v =
     ghash_mul n x (if bit x n then z XOR v else z)
       (if bit v 0 then drop_bit 1 v XOR 0xe1000000000000000000000000000000 else drop_bit 1 v)"

fun be_join :: "8 word list \<Rightarrow> 128 word \<Rightarrow> 128 word" where
  "be_join [] acc = acc"
| "be_join (b # bs) acc = be_join bs (push_bit 8 acc OR ucast b)"

definition be_split :: "nat \<Rightarrow> 128 word \<Rightarrow> 8 word list" where
  "be_split n w = map (\<lambda>i. ucast (drop_bit (8 * i) w)) (rev [0..<n])"

fun ghash :: "nat \<Rightarrow> 128 word \<Rightarrow> 128 word \<Rightarrow> 8 word list \<Rightarrow> 128 word" where
  "ghash 0 h y bs = y"
| "ghash (Suc n) h y bs = (if bs = [] then y
     else ghash n h (ghash_mul 128 (y XOR be_join (take 16 bs) 0) 0 h) (drop 16 bs))"

definition pad16 :: "8 word list \<Rightarrow> 8 word list" where
  "pad16 bs = bs @ replicate ((16 - length bs mod 16) mod 16) 0"

text \<open>The keystream: the cipher over the 12-byte nonce and a 32-bit counter that starts at 2.\<close>

fun gcm_stream :: "8 word list \<Rightarrow> 8 word list \<Rightarrow> nat \<Rightarrow> nat \<Rightarrow> 8 word list" where
  "gcm_stream key nonce ctr 0 = []"
| "gcm_stream key nonce ctr (Suc n) =
     aes_encrypt key (nonce @ be_split 4 (word_of_nat ctr)) @ gcm_stream key nonce (Suc ctr) n"

definition gcm_xor :: "8 word list \<Rightarrow> 8 word list \<Rightarrow> 8 word list \<Rightarrow> 8 word list" where
  "gcm_xor key nonce bs = (let ks = gcm_stream key nonce 2 (length bs)
     in map (\<lambda>i. (bs ! i) XOR (if i < length ks then ks ! i else 0)) [0..<length bs])"

definition gcm_tag :: "8 word list \<Rightarrow> 8 word list \<Rightarrow> 8 word list \<Rightarrow> 8 word list \<Rightarrow> 8 word list" where
  "gcm_tag key nonce aad ct =
     (let h = be_join (aes_encrypt key (replicate 16 0)) 0;
          data = pad16 aad @ pad16 ct @ be_split 8 (word_of_nat (8 * length aad)) @ be_split 8 (word_of_nat (8 * length ct));
          s = ghash (length data) h 0 data
      in be_split 16 (s XOR be_join (aes_encrypt key (nonce @ [0, 0, 0, 1])) 0))"

definition gcmNonceSize :: nat where "gcmNonceSize = 12"
definition gcmTagSize :: nat where "gcmTagSize = 16"

definition gcmSeal :: "string \<Rightarrow> string \<Rightarrow> string \<Rightarrow> string \<Rightarrow> string" where
  "gcmSeal key nonce plaintext aad =
     (let k = toBytes key; n = toBytes nonce; ct = gcm_xor k n (toBytes plaintext)
      in fromBytes (ct @ gcm_tag k n (toBytes aad) ct))"

definition gcmOpen :: "string \<Rightarrow> string \<Rightarrow> string \<Rightarrow> string \<Rightarrow> string option" where
  "gcmOpen key nonce ciphertext aad =
     (let k = toBytes key; n = toBytes nonce; c = toBytes ciphertext in
      if length c < gcmTagSize then None
      else let ct = take (length c - gcmTagSize) c; tag = drop (length c - gcmTagSize) c in
        if tag = gcm_tag k n (toBytes aad) ct then Some (fromBytes (gcm_xor k n ct)) else None)"

section \<open>Opening what was sealed\<close>

lemma length_gcm_xor [simp]: "length (gcm_xor k n bs) = length bs"
  by (simp add: gcm_xor_def Let_def)

lemma length_gcm_tag [simp]: "length (gcm_tag k n a c) = gcmTagSize"
  by (simp add: gcm_tag_def be_split_def Let_def gcmTagSize_def)

lemma gcm_xor_invol: "gcm_xor k n (gcm_xor k n bs) = bs"
  by (rule nth_equalityI) (simp_all add: gcm_xor_def Let_def xor.assoc)

lemma of_char_char_of_unat: "of_char (char_of (unat w)) = w" for w :: "8 word"
proof -
  have "unat w < 2 ^ LENGTH(8)" by (rule unsigned_less)
  then have n: "(of_char (char_of (unat w)) :: nat) = unat w" by simp
  have "of_char (char_of (unat w)) = (of_nat (of_char (char_of (unat w)) :: nat) :: 8 word)"
    by (simp only: of_nat_of_char)
  also have "\<dots> = of_nat (unat w)" by (simp only: n)
  finally show ?thesis by simp
qed

lemma unat_of_char: "unat (of_char c :: 8 word) = of_char c"
proof -
  have "unat (of_nat (of_char c) :: 8 word) = (of_char c :: nat)"
    using of_char_lt[of c] by (simp add: unsigned_of_nat take_bit_nat_eq_self del: of_nat_of_char)
  then show ?thesis by (simp only: of_nat_of_char)
qed

lemma toBytes_fromBytes [simp]: "toBytes (fromBytes bs) = bs"
  by (simp add: toBytes_def fromBytes_def comp_def of_char_char_of_unat)

lemma fromBytes_toBytes [simp]: "fromBytes (toBytes s) = s"
  by (simp add: toBytes_def fromBytes_def comp_def unat_of_char)

theorem gcmOpen_gcmSeal [simp]: "gcmOpen key nonce (gcmSeal key nonce pt aad) aad = Some pt"
  by (simp add: gcmOpen_def gcmSeal_def Let_def gcm_xor_invol)

end
