(* ===== verification/Keyring.thy ===== *)
theory Keyring
  imports Key_Store Go_AES
begin

text \<open>
  Package \<^verbatim>\<open>keys\<close>: the signing-keypair aggregate (src/keys/keys.go, retire.go, publish.go, init.go,
  keypair.go) over a \<^verbatim>\<open>KeyStore\<close>, and encryption of private keys at rest (src/keys/encryption.go). The
  clock is an argument: \<^verbatim>\<open>now\<close> where a method reads it once, a function \<^verbatim>\<open>clk\<close> from the number of the
  reading where it reads it several times. Randomness (key material, nonces) is an argument that may
  be missing, which is the failure of the generator.
\<close>

section \<open>State\<close>

record Keys =
  k_alg :: string
  k_grace :: Duration
  k_kek :: "string option"
  k_publishDelay :: Duration
  k_keypairs :: "Keypair list"
  k_unencrypted :: "string list"

definition AlgRS256 :: string where "AlgRS256 = ''RS256''"
definition DefaultRetirementGrace :: Duration where "DefaultRetirementGrace = 4 * Hour"
definition DefaultPublishDelay :: Duration where "DefaultPublishDelay = 5 * Minute"

definition newKeys :: Keys where
  "newKeys = \<lparr>k_alg = AlgRS256, k_grace = DefaultRetirementGrace, k_kek = None,
     k_publishDelay = DefaultPublishDelay, k_keypairs = [], k_unencrypted = []\<rparr>"

datatype KeyError = ErrKeyStore StoreError | ErrKeypairExists string | ErrNoKeypair
  | ErrReplacementPending string Time | ErrUnsupportedAlgorithm string | ErrGenerate
  | ErrNoEncryptionKey | ErrDecryptKeypair string | ErrEncryptionKeyLength nat | ErrNonce

section \<open>Choosing the signer\<close>

text \<open>The loop of \<^verbatim>\<open>Signing\<close> from the newest keypair down.\<close>

fun Signing_loop :: "Keypair list \<Rightarrow> Time \<Rightarrow> Duration \<Rightarrow> Keypair option \<Rightarrow> Keypair option" where
  "Signing_loop [] now publishDelay oldest = oldest"
| "Signing_loop (kp # kps) now publishDelay oldest =
     (if Retired kp then Signing_loop kps now publishDelay oldest
      else if \<not> now < kp_CreatedAt kp + publishDelay then Some kp
      else Signing_loop kps now publishDelay (Some kp))"

definition Signing :: "Keypair list \<Rightarrow> Time \<Rightarrow> Duration \<Rightarrow> Keypair option" where
  "Signing kps now publishDelay = Signing_loop (rev kps) now publishDelay None"

definition Latest :: "Keys \<Rightarrow> Time \<Rightarrow> KeyError + Keypair" where
  "Latest k now = (case Signing (k_keypairs k) now (k_publishDelay k) of
     None \<Rightarrow> Inl ErrNoKeypair | Some kp \<Rightarrow> Inr kp)"

definition Published :: "Keys \<Rightarrow> Time \<Rightarrow> Keypair list" where
  "Published k now = filter (\<lambda>kp. case kp_RetiredAt kp of None \<Rightarrow> True | Some t \<Rightarrow> now < t + k_grace k) (k_keypairs k)"

record KeypairStatus =
  st_Keypair :: Keypair
  st_Signing :: bool
  st_ActivatesAt :: "Time option"

definition statusOf :: "Keypair list \<Rightarrow> Time \<Rightarrow> Duration \<Rightarrow> Keypair \<Rightarrow> KeypairStatus" where
  "statusOf kps now delay kp =
     (let signingKid = (case Signing kps now delay of Some s \<Rightarrow> kp_Kid s | None \<Rightarrow> []);
          signing = (\<not> Retired kp \<and> kp_Kid kp = signingKid); at = kp_CreatedAt kp + delay
      in \<lparr>st_Keypair = kp, st_Signing = signing,
          st_ActivatesAt = (if \<not> Retired kp \<and> \<not> signing \<and> now < at then Some at else None)\<rparr>)"

section \<open>Encryption at rest\<close>

definition encryptedPEMPrefix :: string where "encryptedPEMPrefix = ''tempogate-kek:v1:''"
definition kekBytes :: nat where "kekBytes = 32"

definition isEncrypted :: "string \<Rightarrow> bool" where
  "isEncrypted privatePEM = HasPrefix privatePEM encryptedPEMPrefix"

definition kidAAD :: "string \<Rightarrow> string" where
  "kidAAD kid = ''tempogate keypair '' @ kid"

text \<open>\<^verbatim>\<open>cipher\<close>: the AEAD is named by its key.\<close>

definition cipher :: "Keys \<Rightarrow> KeyError + string option" where
  "cipher k = (case k_kek k of None \<Rightarrow> Inr None
     | Some kek \<Rightarrow> if length kek \<noteq> kekBytes then Inl (ErrEncryptionKeyLength (length kek)) else Inr (Some kek))"

definition sealPEM :: "string \<Rightarrow> string option \<Rightarrow> string \<Rightarrow> string \<Rightarrow> KeyError + string" where
  "sealPEM kek rnd kid privatePEM = (case rnd of
     None \<Rightarrow> Inl ErrNonce
   | Some nonce \<Rightarrow> Inr (encryptedPEMPrefix @ RawStdEncode (nonce @ gcmSeal kek nonce privatePEM (kidAAD kid))))"

definition openPEM :: "string \<Rightarrow> Keypair \<Rightarrow> KeyError + string" where
  "openPEM kek kp = (case RawStdDecode (drop (length encryptedPEMPrefix) (kp_PrivatePEM kp)) of
     None \<Rightarrow> Inl (ErrDecryptKeypair (kp_Kid kp))
   | Some raw \<Rightarrow> if length raw < gcmNonceSize then Inl (ErrDecryptKeypair (kp_Kid kp))
       else (case gcmOpen kek (take gcmNonceSize raw) (drop gcmNonceSize raw) (kidAAD (kp_Kid kp)) of
           None \<Rightarrow> Inl (ErrDecryptKeypair (kp_Kid kp)) | Some pem \<Rightarrow> Inr pem))"

fun openStored_loop :: "string option \<Rightarrow> Keypair list \<Rightarrow> KeyError + Keypair list \<times> string list" where
  "openStored_loop aead [] = Inr ([], [])"
| "openStored_loop aead (kp # stored) =
     (if \<not> isEncrypted (kp_PrivatePEM kp) then
        (case openStored_loop aead stored of Inl e \<Rightarrow> Inl e
         | Inr (out, un) \<Rightarrow> Inr (kp # out, if aead \<noteq> None then kp_Kid kp # un else un))
      else case aead of None \<Rightarrow> Inl ErrNoEncryptionKey
        | Some kek \<Rightarrow> (case openPEM kek kp of Inl e \<Rightarrow> Inl e
            | Inr pem \<Rightarrow> (case openStored_loop aead stored of Inl e \<Rightarrow> Inl e
                | Inr (out, un) \<Rightarrow> Inr (kp\<lparr>kp_PrivatePEM := pem\<rparr> # out, un))))"

definition openStored :: "Keys \<Rightarrow> Keypair list \<Rightarrow> KeyError + Keypair list \<times> string list" where
  "openStored k stored = (case cipher k of Inl e \<Rightarrow> Inl e | Inr aead \<Rightarrow> openStored_loop aead stored)"

definition sealForStore :: "Keys \<Rightarrow> string option \<Rightarrow> Keypair \<Rightarrow> KeyError + Keypair" where
  "sealForStore k rnd kp = (case cipher k of
     Inl e \<Rightarrow> Inl e
   | Inr None \<Rightarrow> Inr kp
   | Inr (Some kek) \<Rightarrow> (case sealPEM kek rnd (kp_Kid kp) (kp_PrivatePEM kp) of
       Inl e \<Rightarrow> Inl e | Inr pem \<Rightarrow> Inr (kp\<lparr>kp_PrivatePEM := pem\<rparr>)))"

text \<open>\<^verbatim>\<open>EncryptStored\<close> over the store's \<^verbatim>\<open>UpdateKeypairPrivatePEM\<close>, drawing one nonce per rewritten row;
  it reports how many rows it rewrote before it stopped, and the error it stopped with.\<close>

fun EncryptStored_loop :: "('st \<Rightarrow> string \<Rightarrow> string \<Rightarrow> StoreError option \<times> 'st) \<Rightarrow> string \<Rightarrow> string option list
    \<Rightarrow> Keypair list \<Rightarrow> 'st \<Rightarrow> nat \<Rightarrow> nat \<times> KeyError option \<times> 'st" where
  "EncryptStored_loop rw kek rnds [] st n = (n, None, st)"
| "EncryptStored_loop rw kek rnds (kp # stored) st n =
     (if isEncrypted (kp_PrivatePEM kp) then
        (case openPEM kek kp of Inl e \<Rightarrow> (n, Some e, st) | Inr _ \<Rightarrow> EncryptStored_loop rw kek rnds stored st n)
      else case sealPEM kek (case rnds of r # _ \<Rightarrow> r | [] \<Rightarrow> None) (kp_Kid kp) (kp_PrivatePEM kp) of
          Inl e \<Rightarrow> (n, Some e, st)
        | Inr sealed \<Rightarrow> (case rw st (kp_Kid kp) sealed of
            (Some e, st') \<Rightarrow> (n, Some (ErrKeyStore e), st')
          | (None, st') \<Rightarrow> EncryptStored_loop rw kek (tl rnds) stored st' (Suc n)))"

definition EncryptStored :: "'st KeyStore \<Rightarrow> ('st \<Rightarrow> string \<Rightarrow> string \<Rightarrow> StoreError option \<times> 'st) \<Rightarrow> Keys
    \<Rightarrow> string option list \<Rightarrow> 'st \<Rightarrow> nat \<times> KeyError option \<times> 'st" where
  "EncryptStored ops rw k rnds st = (case cipher k of
     Inl e \<Rightarrow> (0, Some e, st)
   | Inr None \<Rightarrow> (0, Some ErrNoEncryptionKey, st)
   | Inr (Some kek) \<Rightarrow> (case kst_LoadKeypairs ops st of
       Inl e \<Rightarrow> (0, Some (ErrKeyStore e), st)
     | Inr stored \<Rightarrow> EncryptStored_loop rw kek rnds stored st 0))"

section \<open>Transitions of the aggregate\<close>

definition sortByCreatedAt :: "Keypair list \<Rightarrow> Keypair list" where
  "sortByCreatedAt kps = sort_key keyOrder kps"

definition swap :: "Keys \<Rightarrow> Keypair list \<Rightarrow> string list \<Rightarrow> Keys" where
  "swap k kps unencrypted = k\<lparr>k_keypairs := sortByCreatedAt kps, k_unencrypted := unencrypted\<rparr>"

fun pickLatest_loop :: "Keypair \<Rightarrow> Keypair list \<Rightarrow> Keypair" where
  "pickLatest_loop latest [] = latest"
| "pickLatest_loop latest (kp # kps) =
     pickLatest_loop (if kp_CreatedAt latest < kp_CreatedAt kp then kp else latest) kps"

definition pickLatest :: "Keypair list \<Rightarrow> Keypair" where
  "pickLatest kps = pickLatest_loop (hd kps) (tl kps)"

text \<open>The material \<^verbatim>\<open>rsa.GenerateKey\<close> and the marshallers yield: kid, private and public PEM.\<close>

type_synonym Material = "(string \<times> string \<times> string) option"

definition GenerateKeypair :: "string \<Rightarrow> Time \<Rightarrow> Material \<Rightarrow> KeyError + Keypair" where
  "GenerateKeypair alg now material =
     (if alg \<noteq> AlgRS256 then Inl (ErrUnsupportedAlgorithm alg)
      else case material of None \<Rightarrow> Inl ErrGenerate
        | Some (kid, priv, pub) \<Rightarrow> Inr \<lparr>kp_Kid = kid, kp_Alg = alg, kp_PrivatePEM = priv, kp_PublicPEM = pub,
            kp_CreatedAt = now, kp_RetiredAt = None\<rparr>)"

definition Reload :: "'st KeyStore \<Rightarrow> Keys \<Rightarrow> 'st \<Rightarrow> KeyError option \<times> Keys" where
  "Reload ops k st = (case kst_LoadKeypairs ops st of
     Inl e \<Rightarrow> (Some (ErrKeyStore e), k)
   | Inr stored \<Rightarrow> (case openStored k stored of
       Inl e \<Rightarrow> (Some e, k)
     | Inr (kps, unencrypted) \<Rightarrow> (None, swap k kps unencrypted)))"

definition saveKey :: "'st KeyStore \<Rightarrow> Keys \<Rightarrow> string option \<Rightarrow> Keypair \<Rightarrow> 'st \<Rightarrow> KeyError option \<times> 'st" where
  "saveKey ops k rnd kp st = (case sealForStore k rnd kp of
     Inl e \<Rightarrow> (Some e, st)
   | Inr toStore \<Rightarrow> (case kst_SaveKeypair ops st toStore of
       (Some e, st') \<Rightarrow> (Some (ErrKeyStore e), st') | (None, st') \<Rightarrow> (None, st')))"

definition Generate :: "'st KeyStore \<Rightarrow> bool \<Rightarrow> Time \<Rightarrow> Material \<Rightarrow> string option \<Rightarrow> Keys \<Rightarrow> 'st
    \<Rightarrow> (KeyError + Keypair) \<times> Keys \<times> 'st" where
  "Generate ops force now material rnd k st = (case kst_LoadKeypairs ops st of
     Inl e \<Rightarrow> (Inl (ErrKeyStore e), k, st)
   | Inr stored \<Rightarrow>
       if 0 < length stored \<and> \<not> force then (Inl (ErrKeypairExists (kp_Kid (pickLatest stored))), k, st)
       else case openStored k stored of
           Inl e \<Rightarrow> (Inl e, k, st)
         | Inr (existing, unencrypted) \<Rightarrow> (case GenerateKeypair (k_alg k) now material of
               Inl e \<Rightarrow> (Inl e, k, st)
             | Inr kp \<Rightarrow> (case saveKey ops k rnd kp st of
                   (Some e, st') \<Rightarrow> (Inl e, k, st')
                 | (None, st') \<Rightarrow> (Inr kp, swap k (existing @ [kp]) unencrypted, st'))))"

definition init :: "'st KeyStore \<Rightarrow> (nat \<Rightarrow> Time) \<Rightarrow> Material \<Rightarrow> string option \<Rightarrow> Keys \<Rightarrow> 'st
    \<Rightarrow> KeyError option \<times> Keys \<times> 'st" where
  "init ops clk material rnd k st = (case kst_LoadKeypairs ops st of
     Inl e \<Rightarrow> (Some (ErrKeyStore e), k, st)
   | Inr stored \<Rightarrow> (case openStored k stored of
       Inl e \<Rightarrow> (Some e, k, st)
     | Inr (existing0, unencrypted) \<Rightarrow>
         let existing = sortByCreatedAt existing0 in
         if Signing existing (clk 0) (k_publishDelay k) \<noteq> None then (None, swap k existing unencrypted, st)
         else case GenerateKeypair (k_alg k) (clk 1) material of
             Inl e \<Rightarrow> (Some e, k, st)
           | Inr kp \<Rightarrow> (case saveKey ops k rnd kp st of
               (Some e, st') \<Rightarrow> (Some e, k, st')
             | (None, st') \<Rightarrow> (None, swap k (existing @ [kp]) unencrypted, st'))))"

text \<open>\<^verbatim>\<open>checkReplacementPublished\<close> reads the clock for the signer, for its successor and for the comparison.\<close>

definition checkReplacementPublished :: "'st KeyStore \<Rightarrow> (nat \<Rightarrow> Time) \<Rightarrow> string \<Rightarrow> Keys \<Rightarrow> 'st \<Rightarrow> KeyError option \<times> Keys" where
  "checkReplacementPublished ops clk kid k st = (case Reload ops k st of
     (Some e, k') \<Rightarrow> (Some e, k')
   | (None, k') \<Rightarrow>
       let kps = k_keypairs k'; rest = filter (\<lambda>kp. kp_Kid kp \<noteq> kid) kps in
       (case Signing kps (clk 0) (k_publishDelay k') of
          None \<Rightarrow> (None, k')
        | Some signing \<Rightarrow>
            if kp_Kid signing \<noteq> kid then (None, k')
            else case Signing rest (clk 1) (k_publishDelay k') of
                None \<Rightarrow> (None, k')
              | Some next \<Rightarrow> let at = kp_CreatedAt next + k_publishDelay k' in
                  if clk 2 < at then (Some (ErrReplacementPending (kp_Kid next) at), k') else (None, k')))"

definition Retire :: "'st KeyStore \<Rightarrow> bool \<Rightarrow> (nat \<Rightarrow> Time) \<Rightarrow> string \<Rightarrow> Keys \<Rightarrow> 'st
    \<Rightarrow> (KeyError + Keypair) \<times> Keys \<times> 'st" where
  "Retire ops force clk kid k st =
     (case (if force then (None, k) else checkReplacementPublished ops clk kid k st) of
        (Some e, k1) \<Rightarrow> (Inl e, k1, st)
      | (None, k1) \<Rightarrow> (case kst_RetireKeypair ops st kid (clk 3) of
            (Inl e, st') \<Rightarrow> (Inl (ErrKeyStore e), k1, st')
          | (Inr kp, st') \<Rightarrow> (case Reload ops k1 st' of
                (Some e, k2) \<Rightarrow> (Inl e, k2, st')
              | (None, k2) \<Rightarrow> (case find (\<lambda>c. kp_Kid c = kp_Kid kp) (k_keypairs k2) of
                    Some c \<Rightarrow> (Inr c, k2, st')
                  | None \<Rightarrow> (Inl (ErrKeyStore ErrKeypairNotFound), k2, st')))))"

definition Statuses :: "'st KeyStore \<Rightarrow> Time \<Rightarrow> Keys \<Rightarrow> 'st \<Rightarrow> (KeyError + KeypairStatus list) \<times> Keys" where
  "Statuses ops now k st = (case Reload ops k st of
     (Some e, k') \<Rightarrow> (Inl e, k')
   | (None, k') \<Rightarrow> (Inr (map (statusOf (k_keypairs k') now (k_publishDelay k')) (k_keypairs k')), k'))"

section \<open>Lemmas\<close>

subsection \<open>The signer\<close>

definition mature :: "Time \<Rightarrow> Duration \<Rightarrow> Keypair \<Rightarrow> bool" where
  "mature now delay kp = (\<not> Retired kp \<and> kp_CreatedAt kp + delay \<le> now)"

lemma Signing_loop_spec:
  "Signing_loop kps now d oldest =
     (case find (mature now d) kps of Some kp \<Rightarrow> Some kp
      | None \<Rightarrow> (if filter (\<lambda>kp. \<not> Retired kp) kps = [] then oldest else Some (last (filter (\<lambda>kp. \<not> Retired kp) kps))))"
  by (induction kps arbitrary: oldest) (auto simp: mature_def not_less split: option.splits)

lemma find_rev_last: "find P (rev xs) = (if filter P xs = [] then None else Some (last (filter P xs)))"
  by (induction xs rule: rev_induct) auto

lemma Signing_spec:
  "Signing kps now d =
     (let act = filter (\<lambda>kp. \<not> Retired kp) kps; mat = filter (mature now d) kps
      in if mat \<noteq> [] then Some (last mat) else if act \<noteq> [] then Some (hd act) else None)"
  by (simp add: Signing_def Signing_loop_spec find_rev_last Let_def rev_filter[symmetric] last_rev)

lemma Signing_Some_in: "Signing kps now d = Some kp \<Longrightarrow> kp \<in> set kps \<and> \<not> Retired kp"
proof -
  assume a: "Signing kps now d = Some kp"
  then have "kp \<in> set (filter (\<lambda>kp. \<not> Retired kp) kps) \<or> kp \<in> set (filter (mature now d) kps)"
    by (auto simp: Signing_spec Let_def simp del: set_filter split: if_splits)
  then show ?thesis by (auto simp: mature_def)
qed

lemma Signing_None_iff: "Signing kps now d = None \<longleftrightarrow> (\<forall>kp\<in>set kps. Retired kp)"
  by (auto simp: Signing_spec Let_def filter_empty_conv mature_def)

lemma Signing_mature:
  assumes "\<exists>kp\<in>set kps. mature now d kp"
  shows "\<exists>kp. Signing kps now d = Some kp \<and> mature now d kp"
proof -
  have "filter (mature now d) kps \<noteq> []" using assms by (simp add: filter_empty_conv)
  then show ?thesis
    using last_in_set[of "filter (mature now d) kps"] by (auto simp: Signing_spec Let_def)
qed

lemma last_max: "sorted (map f xs) \<Longrightarrow> x \<in> set xs \<Longrightarrow> f x \<le> f (last xs)"
  for f :: "'a \<Rightarrow> 'b::linorder"
  by (induction xs rule: rev_induct) (auto simp: sorted_append)

lemma hd_min: "sorted (map f xs) \<Longrightarrow> x \<in> set xs \<Longrightarrow> f (hd xs) \<le> f x"
  for f :: "'a \<Rightarrow> 'b::linorder"
  by (cases xs) auto

lemma sorted_keyOrder_created: "sorted (map keyOrder kps) \<Longrightarrow> sorted (map kp_CreatedAt (filter P kps))"
proof -
  assume a: "sorted (map keyOrder kps)"
  then have "sorted (map keyOrder (filter P kps))" by (rule sorted_filter)
  then show ?thesis by (simp add: sorted_map keyOrder_def) (rule sorted_wrt_mono_rel, auto)
qed

subsection \<open>Opening stored keys\<close>

text \<open>Opening changes nothing but the private half.\<close>

definition meta :: "Keypair \<Rightarrow> Keypair" where
  "meta kp = kp\<lparr>kp_PrivatePEM := []\<rparr>"

lemma meta_simps [simp]:
  "kp_Kid (meta kp) = kp_Kid kp" "kp_CreatedAt (meta kp) = kp_CreatedAt kp" "kp_RetiredAt (meta kp) = kp_RetiredAt kp"
  "meta (kp\<lparr>kp_PrivatePEM := x\<rparr>) = meta kp"
  by (simp_all add: meta_def)

lemma meta_eqD:
  assumes "meta a = meta b"
  shows "kp_Kid a = kp_Kid b" "kp_CreatedAt a = kp_CreatedAt b" "kp_RetiredAt a = kp_RetiredAt b"
  using arg_cong[OF assms, of kp_Kid] arg_cong[OF assms, of kp_CreatedAt] arg_cong[OF assms, of kp_RetiredAt]
  by simp_all

lemma openStored_loop_meta: "openStored_loop aead stored = Inr (kps, un) \<Longrightarrow> map meta kps = map meta stored"
  by (induction stored arbitrary: kps un) (auto split: if_splits sum.splits option.splits prod.splits)

lemma openStored_meta: "openStored k stored = Inr (kps, un) \<Longrightarrow> map meta kps = map meta stored"
  by (auto simp: openStored_def dest: openStored_loop_meta split: sum.splits)

lemma meta_keyOrder: "map meta kps = map meta stored \<Longrightarrow> map keyOrder kps = map keyOrder stored"
proof -
  assume a: "map meta kps = map meta stored"
  have "map keyOrder xs = map keyOrder (map meta xs)" for xs by (simp add: keyOrder_def)
  then show ?thesis using a by metis
qed

lemma meta_in:
  "map meta kps = map meta stored \<Longrightarrow> kp \<in> set kps \<Longrightarrow> \<exists>kp'\<in>set stored. meta kp' = meta kp"
  by (metis (no_types, lifting) image_iff list.set_map)

lemma meta_Retired: "meta a = meta b \<Longrightarrow> Retired a = Retired b"
  by (metis Retired_def meta_simps(3))

lemma meta_mature: "meta a = meta b \<Longrightarrow> mature t d a = mature t d b"
  by (metis mature_def meta_Retired meta_simps(2))

lemma Reload_cfg: "Reload ops k st = (e, k') \<Longrightarrow>
   k_publishDelay k' = k_publishDelay k \<and> k_kek k' = k_kek k \<and> k_grace k' = k_grace k \<and> k_alg k' = k_alg k"
  by (auto simp: Reload_def swap_def split: sum.splits)

text \<open>A sealed private key opens again.\<close>

lemma sealPEM_isEncrypted: "sealPEM kek rnd kid pem = Inr sealed \<Longrightarrow> isEncrypted sealed"
  by (auto simp: sealPEM_def isEncrypted_def HasPrefix_def split: option.splits)

lemma openPEM_sealPEM:
  assumes "sealPEM kek (Some nonce) (kp_Kid kp) pem = Inr sealed" "length nonce = gcmNonceSize"
  shows "openPEM kek (kp\<lparr>kp_PrivatePEM := sealed\<rparr>) = Inr pem"
  using assms by (auto simp: sealPEM_def openPEM_def)

subsection \<open>Client lemmas over the key-store contract\<close>

definition hasMature :: "AbsKeys \<Rightarrow> Time \<Rightarrow> Duration \<Rightarrow> bool" where
  "hasMature A now delay = (\<exists>k kp. A k = Some kp \<and> mature now delay kp)"

lemma hasMature_mono: "hasMature A now d \<Longrightarrow> now \<le> now' \<Longrightarrow> hasMature A now' d"
  unfolding hasMature_def mature_def by (meson order_trans)

text \<open>What other replicas and the operator may do, with this process's aggregate or another's: reload,
  generate, retire (without force unless \<^verbatim>\<open>force\<close> is allowed), and let time pass. All aggregates share
  one publish delay, as replicas of one configuration do.\<close>

inductive key_step :: "'st KeyStore \<Rightarrow> bool \<Rightarrow> Keys \<times> 'st \<times> Time \<Rightarrow> Keys \<times> 'st \<times> Time \<Rightarrow> bool"
  for ops force where
  tick: "now \<le> now' \<Longrightarrow> key_step ops force (k, st, now) (k, st, now')"
| reload: "Reload ops k st = (e, k') \<Longrightarrow> key_step ops force (k, st, now) (k', st, now)"
| generate: "Generate ops f now material rnd k st = (res, k', st') \<Longrightarrow> key_step ops force (k, st, now) (k', st', now)"
| retire: "mono clk \<Longrightarrow> now \<le> clk 0 \<Longrightarrow> f \<longrightarrow> force \<Longrightarrow> Retire ops f clk kid k st = (res, k', st') \<Longrightarrow>
    key_step ops force (k, st, now) (k', st', clk 3)"
| other_generate: "Generate ops f now material rnd k0 st = (res, k1, st') \<Longrightarrow> key_step ops force (k, st, now) (k, st', now)"
| other_retire: "mono clk \<Longrightarrow> now \<le> clk 0 \<Longrightarrow> f \<longrightarrow> force \<Longrightarrow> k_publishDelay k0 = k_publishDelay k \<Longrightarrow>
    Retire ops f clk kid k0 st = (res, k1, st') \<Longrightarrow> key_step ops force (k, st, now) (k, st', clk 3)"

context key_store
begin

lemma Reload_keys:
  assumes "inv st" "Reload ops k st = (None, k')"
  shows "sorted (map keyOrder (k_keypairs k'))"
    and "kp \<in> set (k_keypairs k') \<Longrightarrow> \<exists>kp'. abs st (kp_Kid kp) = Some kp' \<and> meta kp' = meta kp"
    and "abs st kid = Some kp' \<Longrightarrow> \<exists>kp\<in>set (k_keypairs k'). meta kp = meta kp'"
proof -
  obtain stored kps un where l: "kst_LoadKeypairs ops st = Inr stored"
    and o: "openStored k stored = Inr (kps, un)" and k': "k' = swap k kps un"
    using assms(2) by (auto simp: Reload_def split: sum.splits)
  have m: "map meta kps = map meta stored" by (rule openStored_meta[OF o])
  have st: "set stored = ran (abs st)" using load_keypairs[OF assms(1) l] by simp
  have kk: "set (k_keypairs k') = set kps" by (simp add: k' swap_def sortByCreatedAt_def)
  show "sorted (map keyOrder (k_keypairs k'))" by (simp add: k' swap_def sortByCreatedAt_def)
  show "\<exists>kp'. abs st (kp_Kid kp) = Some kp' \<and> meta kp' = meta kp" if kin: "kp \<in> set (k_keypairs k')"
  proof -
    obtain kp' where "kp' \<in> set stored" "meta kp' = meta kp" using meta_in[OF m kin[unfolded kk]] by blast
    then obtain q where q: "abs st q = Some kp'" using st by (auto simp: ran_def)
    then have "q = kp_Kid kp'" using abs_wf[OF assms(1)] by (simp add: wf_keys_def)
    also have "\<dots> = kp_Kid kp" by (rule meta_eqD(1)[OF \<open>meta kp' = meta kp\<close>])
    finally show ?thesis using q \<open>meta kp' = meta kp\<close> by blast
  qed
  show "\<exists>kp\<in>set (k_keypairs k'). meta kp = meta kp'" if "abs st kid = Some kp'"
  proof -
    have "kp' \<in> set stored" using that st by (auto simp: ran_def)
    then show ?thesis unfolding kk by (rule meta_in[OF m[symmetric]])
  qed
qed

lemma saveKey_spec:
  assumes "inv st" "saveKey ops k rnd kp st = (e, st')"
  shows "inv st' \<and> (abs st' = abs st \<and> e \<noteq> None \<or>
     (\<exists>kp'. spec_SaveKeypair (abs st) kp' = (None, abs st') \<and> meta kp' = meta kp \<and> e = None))"
proof (cases "sealForStore k rnd kp")
  case (Inl err)
  then show ?thesis using assms by (auto simp: saveKey_def)
next
  case (Inr toStore)
  then have m: "meta toStore = meta kp"
    by (auto simp: sealForStore_def split: sum.splits option.splits)
  obtain er st1 where sv: "kst_SaveKeypair ops st toStore = (er, st1)" by (cases "kst_SaveKeypair ops st toStore")
  then have e: "st' = st1" "e = map_option ErrKeyStore er"
    using assms(2) Inr by (auto simp: saveKey_def split: option.splits)
  have s1: "inv st1"
    and "(\<exists>x. er = Some (ErrStore x) \<and> abs st1 = abs st) \<or> (er, abs st1) = spec_SaveKeypair (abs st) toStore"
    using save_keypair[OF assms(1) sv] by auto
  then consider "er = Some ErrDuplicateKid \<or> (\<exists>x. er = Some (ErrStore x))" "abs st1 = abs st"
    | "er = None" "spec_SaveKeypair (abs st) toStore = (None, abs st1)"
    by (auto simp: spec_SaveKeypair_def split: if_splits)
  then show ?thesis
  proof cases
    case 1
    then show ?thesis using s1 e by auto
  next
    case 2
    then show ?thesis using s1 e m by auto
  qed
qed

lemma Generate_spec:
  assumes "inv st" "Generate ops f now material rnd k st = (res, k', st')"
  shows "inv st' \<and> k_publishDelay k' = k_publishDelay k \<and> (abs st' = abs st \<or>
     (\<exists>kp. spec_SaveKeypair (abs st) kp = (None, abs st') \<and> kp_CreatedAt kp = now))"
proof -
  have "abs st' = abs st \<and> inv st' \<or> (\<exists>kp e. saveKey ops k rnd kp st = (e, st') \<and> kp_CreatedAt kp = now)"
    using assms by (auto simp: Generate_def GenerateKeypair_def split: sum.splits if_splits prod.splits option.splits)
  moreover have "k_publishDelay k' = k_publishDelay k"
    using assms(2) by (auto simp: Generate_def swap_def split: sum.splits if_splits prod.splits option.splits)
  ultimately show ?thesis
    using saveKey_spec[OF assms(1)] by (metis meta_simps(2))
qed

lemma checkReplacement_cfg:
  "checkReplacementPublished ops clk kid k st = (e, k1) \<Longrightarrow> k_publishDelay k1 = k_publishDelay k"
  by (auto simp: checkReplacementPublished_def Let_def split: prod.splits option.splits if_splits dest: Reload_cfg)

lemma Retire_cases:
  assumes "Retire ops f clk kid k st = (res, k', st')"
  obtains (refused) e where "checkReplacementPublished ops clk kid k st = (Some e, k')" "st' = st" "\<not> f"
  | (ran) k1 r where "f \<or> checkReplacementPublished ops clk kid k st = (None, k1)"
      "f \<longrightarrow> k1 = k" "kst_RetireKeypair ops st kid (clk 3) = (r, st')"
      "k' = k1 \<or> (\<exists>e. Reload ops k1 st' = (e, k'))"
proof (cases f)
  case True
  obtain r st1 where r: "kst_RetireKeypair ops st kid (clk 3) = (r, st1)" by (cases "kst_RetireKeypair ops st kid (clk 3)")
  then have "st1 = st' \<and> (k' = k \<or> (\<exists>e. Reload ops k st' = (e, k')))"
    using assms True by (cases r) (auto simp: Retire_def split: prod.splits option.splits)
  then show ?thesis using ran[of k r] r True by blast
next
  case False
  obtain e k1 where c: "checkReplacementPublished ops clk kid k st = (e, k1)"
    by (cases "checkReplacementPublished ops clk kid k st")
  show ?thesis
  proof (cases e)
    case (Some x)
    then have "k' = k1" "st' = st" using assms False c by (simp_all add: Retire_def)
    then show ?thesis using Some c False by (intro refused[of x]) simp_all
  next
    case None
    obtain r st1 where r: "kst_RetireKeypair ops st kid (clk 3) = (r, st1)" by (cases "kst_RetireKeypair ops st kid (clk 3)")
    then have "st1 = st' \<and> (k' = k1 \<or> (\<exists>e. Reload ops k1 st' = (e, k')))"
      using assms False c None by (cases r) (auto simp: Retire_def split: prod.splits option.splits)
    then show ?thesis using ran[of k1 r] r c None False by blast
  qed
qed

lemma Retire_spec:
  assumes "inv st" "Retire ops f clk kid k st = (res, k', st')"
  shows "inv st' \<and> k_publishDelay k' = k_publishDelay k \<and>
     (abs st' = abs st \<or> (\<exists>kp. spec_RetireKeypair (abs st) kid (clk 3) = (Inr kp, abs st')
         \<and> (f \<or> (\<exists>k1. checkReplacementPublished ops clk kid k st = (None, k1)))))"
  using assms(2)
proof (cases rule: Retire_cases)
  case (refused e)
  then show ?thesis using assms(1) checkReplacement_cfg by auto
next
  case (ran k1 r)
  have d: "k_publishDelay k' = k_publishDelay k"
    using ran checkReplacement_cfg Reload_cfg by metis
  have "inv st'" and "(\<exists>e. r = Inl (ErrStore e) \<and> abs st' = abs st) \<or> (r, abs st') = spec_RetireKeypair (abs st) kid (clk 3)"
    using retire_keypair[OF assms(1) ran(3)] by auto
  moreover have "abs st' = abs st" if "(Inl e, abs st') = spec_RetireKeypair (abs st) kid (clk 3)" for e
    using that by (auto simp: spec_RetireKeypair_def split: option.splits if_splits)
  ultimately show ?thesis using ran(1) d by (cases r) metis+
qed

text \<open>Retiring without force keeps a key that relying parties have had time to fetch.\<close>

lemma check_keeps_mature:
  assumes "inv st" "checkReplacementPublished ops clk kid k st = (None, k1)" "mono clk"
    and "hasMature (abs st) (clk 0) (k_publishDelay k)"
    and "\<exists>k' kp'. k' \<noteq> kid \<and> abs st k' = Some kp' \<and> \<not> Retired kp'"
  shows "\<exists>k' kp'. k' \<noteq> kid \<and> abs st k' = Some kp' \<and> mature (clk 3) (k_publishDelay k) kp'"
proof -
  let ?d = "k_publishDelay k"
  have later: "mature (clk 3) ?d kp" if "mature (clk i) ?d kp" "i \<le> 3" for i kp
    using that monoD[OF assms(3), of i 3] by (auto simp: mature_def)
  obtain k' where rl: "Reload ops k st = (None, k')"
    using assms(2) by (auto simp: checkReplacementPublished_def split: prod.splits option.splits)
  note keys = Reload_keys[OF assms(1) rl]
  have d: "k_publishDelay k' = ?d" using Reload_cfg[OF rl] by simp
  have "\<exists>kp\<in>set (k_keypairs k'). mature (clk 0) ?d kp"
    using assms(4) keys(3) meta_mature unfolding hasMature_def by metis
  then obtain sg where sg: "Signing (k_keypairs k') (clk 0) ?d = Some sg" "mature (clk 0) ?d sg"
    using Signing_mature by blast
  obtain sg' where sg': "abs st (kp_Kid sg) = Some sg'" "meta sg' = meta sg"
    using keys(2) Signing_Some_in[OF sg(1)] by blast
  show ?thesis
  proof (cases "kp_Kid sg = kid")
    case False
    then show ?thesis using sg(2) sg' later[of 0] meta_mature by (metis zero_le)
  next
    case True
    let ?rest = "filter (\<lambda>kp. kp_Kid kp \<noteq> kid) (k_keypairs k')"
    obtain q kq where q: "q \<noteq> kid" "abs st q = Some kq" "\<not> Retired kq" using assms(5) by blast
    then obtain kr where kr: "kr \<in> set (k_keypairs k')" "meta kr = meta kq" using keys(3) by blast
    then have "kp_Kid kr = q" using q abs_wf[OF assms(1)] meta_eqD(1)[OF kr(2)] by (simp add: wf_keys_def)
    then have "kr \<in> set ?rest" "\<not> Retired kr" using kr q meta_Retired[OF kr(2)] by auto
    then obtain nx where nx: "Signing ?rest (clk 1) ?d = Some nx"
      using Signing_None_iff[of ?rest "clk 1" ?d] by (cases "Signing ?rest (clk 1) ?d") auto
    then have nx': "nx \<in> set (k_keypairs k')" "kp_Kid nx \<noteq> kid" "\<not> Retired nx"
      using Signing_Some_in[OF nx] by auto
    have "\<not> clk 2 < kp_CreatedAt nx + ?d"
      using assms(2) rl sg(1) True nx d by (auto simp: checkReplacementPublished_def Let_def split: if_splits)
    then have "mature (clk 2) ?d nx" using nx' by (simp add: mature_def)
    then have m: "mature (clk 3) ?d nx" by (rule later) simp
    obtain n where "abs st (kp_Kid nx) = Some n" "meta n = meta nx" using keys(2)[OF nx'(1)] by blast
    then show ?thesis using nx'(2) m meta_mature by blast
  qed
qed

lemma Retire_keeps_mature:
  assumes "inv st" "Retire ops False clk kid k st = (res, k', st')" "mono clk"
    "hasMature (abs st) (clk 0) (k_publishDelay k)"
  shows "hasMature (abs st') (clk 3) (k_publishDelay k)"
proof (cases "abs st' = abs st")
  case True
  then show ?thesis using hasMature_mono[OF assms(4)] monoD[OF assms(3), of 0 3] by simp
next
  case False
  then obtain kp k1 where r: "spec_RetireKeypair (abs st) kid (clk 3) = (Inr kp, abs st')"
    and c: "checkReplacementPublished ops clk kid k st = (None, k1)"
    using Retire_spec[OF assms(1,2)] by auto
  then have o: "\<exists>k' kp'. k' \<noteq> kid \<and> abs st k' = Some kp' \<and> \<not> Retired kp'"
    and same: "\<And>q. q \<noteq> kid \<Longrightarrow> abs st' q = abs st q"
    using False by (auto simp: spec_RetireKeypair_def fun_upd_def fun_eq_iff split: option.splits if_splits)
  show ?thesis
    using check_keeps_mature[OF assms(1) c assms(3,4) o] same unfolding hasMature_def by metis
qed

lemma Save_keeps_mature:
  "spec_SaveKeypair A kp = (e, A') \<Longrightarrow> hasMature A now d \<Longrightarrow> hasMature A' now d"
  by (auto simp: spec_SaveKeypair_def hasMature_def split: if_splits) (metis map_upd_Some_unfold option.distinct(1))

lemma key_step_delay: "key_step ops force (k, st, now) (k', st', now') \<Longrightarrow> inv st \<Longrightarrow>
    inv st' \<and> k_publishDelay k' = k_publishDelay k"
  by (erule key_step.cases) (auto dest: Reload_cfg Generate_spec Retire_spec)

lemma key_step_mature:
  assumes "key_step ops False (k, st, now) (k', st', now')" "inv st" "hasMature (abs st) now (k_publishDelay k)"
  shows "hasMature (abs st') now' (k_publishDelay k')"
  using assms(1)
proof cases
  case (tick)
  then show ?thesis using assms hasMature_mono by blast
next
  case (reload e)
  then show ?thesis using assms Reload_cfg by metis
next
  case (generate f material rnd res)
  then show ?thesis using assms Generate_spec[OF assms(2)] Save_keeps_mature by metis
next
  case (retire clk f kid res)
  then show ?thesis
    using assms Retire_keeps_mature[OF assms(2)] Retire_spec[OF assms(2)] hasMature_mono[OF assms(3)] by metis
next
  case (other_generate f material rnd k0 res k1)
  then show ?thesis using assms Generate_spec[OF assms(2)] Save_keeps_mature by metis
next
  case (other_retire clk f k0 kid res k1)
  then show ?thesis
    using assms Retire_keeps_mature[OF assms(2)] hasMature_mono[OF assms(3)] by metis
qed

lemma key_step_active:
  assumes "key_step ops force (k, st, now) (k', st', now')" "inv st" "hasActive (abs st)"
  shows "hasActive (abs st')"
  using assms(1)
  by cases (use assms Generate_spec[OF assms(2)] Retire_spec[OF assms(2)] spec_Save_active spec_Retire_active in \<open>simp_all, metis+\<close>)

lemma key_steps:
  assumes "(key_step ops force)\<^sup>*\<^sup>* (k, st, now) (k', st', now')" "inv st"
  shows "inv st' \<and> k_publishDelay k' = k_publishDelay k
    \<and> (hasActive (abs st) \<longrightarrow> hasActive (abs st'))
    \<and> (\<not> force \<longrightarrow> hasMature (abs st) now (k_publishDelay k) \<longrightarrow> hasMature (abs st') now' (k_publishDelay k))"
  using assms(1)
proof (induction "(k', st', now')" arbitrary: k' st' now' rule: rtranclp_induct)
  case base
  then show ?case using assms by simp
next
  case (step x)
  obtain k1 st1 now1 where x: "x = (k1, st1, now1)" by (cases x)
  note step = step(1) step(2)[unfolded x] step(3)[OF x]
  then show ?case
    using key_step_delay[OF step(2)] key_step_active[OF step(2)] key_step_mature[of k1 st1 now1 k' st' now'] by auto
qed

lemma Reload_Latest:
  assumes "inv st" "Reload ops k st = (None, k')" "hasActive (abs st)"
  shows "\<exists>kp. Latest k' now = Inr kp \<and> kp \<in> set (Published k' now) \<and> \<not> Retired kp \<and>
     (hasMature (abs st) now (k_publishDelay k) \<longrightarrow> kp_CreatedAt kp + k_publishDelay k \<le> now)"
proof -
  note keys = Reload_keys[OF assms(1,2)]
  have d: "k_publishDelay k' = k_publishDelay k" using Reload_cfg[OF assms(2)] by simp
  have "\<exists>kp\<in>set (k_keypairs k'). \<not> Retired kp"
    using assms(3) keys(3) meta_Retired unfolding hasActive_def by metis
  then obtain kp where kp: "Signing (k_keypairs k') now (k_publishDelay k) = Some kp"
    using Signing_None_iff[of "k_keypairs k'" now "k_publishDelay k"]
    by (cases "Signing (k_keypairs k') now (k_publishDelay k)") auto
  have "mature now (k_publishDelay k) kp" if "hasMature (abs st) now (k_publishDelay k)"
  proof -
    have "\<exists>kp\<in>set (k_keypairs k'). mature now (k_publishDelay k) kp"
      using that keys(3) meta_mature unfolding hasMature_def by metis
    then show ?thesis using Signing_mature kp by fastforce
  qed
  then show ?thesis
    using kp d Signing_Some_in[OF kp] by (auto simp: Latest_def Published_def Retired_def mature_def)
qed

end

subsection \<open>Boot\<close>

context key_store
begin

lemma Latest_active: "\<exists>kp\<in>set (k_keypairs k). \<not> Retired kp \<Longrightarrow> \<exists>kp. Latest k now = Inr kp"
  using Signing_None_iff[of "k_keypairs k" now "k_publishDelay k"]
  by (cases "Signing (k_keypairs k) now (k_publishDelay k)") (auto simp: Latest_def)

lemma init_active:
  assumes "inv st" "init ops clk material rnd k st = (None, k', st')"
  shows "inv st' \<and> hasActive (abs st') \<and> (\<exists>kp. Latest k' now = Inr kp)"
proof -
  obtain stored ex un where l: "kst_LoadKeypairs ops st = Inr stored" and o: "openStored k stored = Inr (ex, un)"
    using assms(2) by (auto simp: init_def split: sum.splits)
  have m: "map meta ex = map meta stored" by (rule openStored_meta[OF o])
  show ?thesis
  proof (cases "Signing (sortByCreatedAt ex) (clk 0) (k_publishDelay k)")
    case (Some sg)
    then have e: "k' = swap k (sortByCreatedAt ex) un" "st' = st"
      using assms(2) l o by (simp_all add: init_def)
    have sg: "sg \<in> set ex" "\<not> Retired sg"
      using Signing_Some_in[OF Some] by (simp_all add: sortByCreatedAt_def)
    then obtain sg' where "sg' \<in> set stored" "meta sg' = meta sg" using meta_in[OF m] by blast
    then have "sg' \<in> ran (abs st)" "\<not> Retired sg'"
      using load_keypairs[OF assms(1) l] sg(2) meta_Retired by blast+
    then have "hasActive (abs st)" by (auto simp: hasActive_def ran_def)
    moreover have "sg \<in> set (k_keypairs k')" using sg by (simp add: e swap_def sortByCreatedAt_def)
    ultimately show ?thesis using assms(1) e sg Latest_active by blast
  next
    case None
    then obtain kp where g: "GenerateKeypair (k_alg k) (clk 1) material = Inr kp"
      and sv: "saveKey ops k rnd kp st = (None, st')" and k': "k' = swap k (sortByCreatedAt ex @ [kp]) un"
      using assms(2) l o by (auto simp: init_def split: sum.splits prod.splits option.splits)
    have "\<not> Retired kp" using g by (auto simp: GenerateKeypair_def Retired_def split: if_splits option.splits)
    moreover have "kp \<in> set (k_keypairs k')" by (simp add: k' swap_def sortByCreatedAt_def)
    moreover have "inv st' \<and> hasActive (abs st')"
      using saveKey_spec[OF assms(1) sv] spec_Save_new_active by blast
    ultimately show ?thesis using Latest_active by blast
  qed
qed

end

subsection \<open>Rewriting stored keys encrypted\<close>

text \<open>The private key a row stands for under a key-encryption key.\<close>

definition plain :: "string \<Rightarrow> Keypair \<Rightarrow> KeyError + string" where
  "plain kek kp = (if isEncrypted (kp_PrivatePEM kp) then openPEM kek kp else Inr (kp_PrivatePEM kp))"

lemma UpdateKeypairPrivatePEM_row:
  assumes "wf_keypairs s" "kp \<in> set (keypairs s)" "UpdateKeypairPrivatePEM s (kp_Kid kp) pem = (None, s')"
  shows "keypairs s' = map (\<lambda>r. if r = kp then r\<lparr>kp_PrivatePEM := pem\<rparr> else r) (keypairs s)"
proof -
  have "kp_Kid r = kp_Kid kp \<longleftrightarrow> r = kp" if "r \<in> set (keypairs s)" for r
    using distinct_key_unique[of kp_Kid "keypairs s" r kp] that assms by (auto simp: wf_keypairs_def)
  then show ?thesis
    using assms(3) by (auto simp: UpdateKeypairPrivatePEM_def update_where_def split: if_splits)
qed

lemma EncryptStored_step:
  assumes "wf_keypairs s" "kp \<in> set (keypairs s)" "\<not> isEncrypted (kp_PrivatePEM kp)"
    "sealPEM kek (Some nonce) (kp_Kid kp) (kp_PrivatePEM kp) = Inr sealed" "length nonce = gcmNonceSize"
    "UpdateKeypairPrivatePEM s (kp_Kid kp) sealed = (None, s')"
  shows "wf_keypairs s'" "map meta (keypairs s') = map meta (keypairs s)"
    "map (plain kek) (keypairs s') = map (plain kek) (keypairs s)"
    "kp\<lparr>kp_PrivatePEM := sealed\<rparr> \<in> set (keypairs s')"
    "r \<in> set (keypairs s) \<Longrightarrow> r \<noteq> kp \<Longrightarrow> r \<in> set (keypairs s')"
proof -
  have k: "keypairs s' = map (\<lambda>r. if r = kp then r\<lparr>kp_PrivatePEM := sealed\<rparr> else r) (keypairs s)"
    by (rule UpdateKeypairPrivatePEM_row[OF assms(1,2,6)])
  have "map kp_Kid (keypairs s') = map kp_Kid (keypairs s)" by (simp add: k)
  then show "wf_keypairs s'" using assms(1) by (simp add: wf_keypairs_def)
  show "map meta (keypairs s') = map meta (keypairs s)" by (simp add: k)
  have "plain kek (kp\<lparr>kp_PrivatePEM := sealed\<rparr>) = plain kek kp"
    using openPEM_sealPEM[OF assms(4,5)] sealPEM_isEncrypted[OF assms(4)] assms(3) by (simp add: plain_def)
  then show "map (plain kek) (keypairs s') = map (plain kek) (keypairs s)" by (simp add: k)
  show "kp\<lparr>kp_PrivatePEM := sealed\<rparr> \<in> set (keypairs s')" using assms(2) by (auto simp: k image_iff)
  show "r \<in> set (keypairs s) \<Longrightarrow> r \<noteq> kp \<Longrightarrow> r \<in> set (keypairs s')" by (auto simp: k image_iff)
qed

lemma EncryptStored_loop_correct:
  assumes "EncryptStored_loop UpdateKeypairPrivatePEM kek rnds stored s n = (m, None, s')"
    and "wf_keypairs s" "set stored \<subseteq> set (keypairs s)" "distinct (map kp_Kid stored)"
    and "\<forall>r\<in>set rnds. \<forall>x. r = Some x \<longrightarrow> length x = gcmNonceSize"
  shows "wf_keypairs s' \<and> map meta (keypairs s') = map meta (keypairs s)
    \<and> map (plain kek) (keypairs s') = map (plain kek) (keypairs s)
    \<and> (\<forall>r\<in>set (keypairs s'). kp_Kid r \<in> kp_Kid ` set stored \<longrightarrow> isEncrypted (kp_PrivatePEM r) \<and> (\<exists>p. openPEM kek r = Inr p))
    \<and> (\<forall>r\<in>set (keypairs s). kp_Kid r \<notin> kp_Kid ` set stored \<longrightarrow> r \<in> set (keypairs s'))"
  using assms
proof (induction stored arbitrary: rnds s n)
  case (Cons kp stored)
  have kp: "kp \<in> set (keypairs s)" and sub: "set stored \<subseteq> set (keypairs s)"
    and d: "distinct (map kp_Kid stored)" "kp_Kid kp \<notin> kp_Kid ` set stored"
    using Cons.prems by auto
  have uniq: "r = r'" if "wf_keypairs t" "r \<in> set (keypairs t)" "r' \<in> set (keypairs t)" "kp_Kid r = kp_Kid r'" for t r r'
    using distinct_key_unique[of kp_Kid "keypairs t" r r'] that by (simp add: wf_keypairs_def)
  show ?case
  proof (cases "isEncrypted (kp_PrivatePEM kp)")
    case True
    then obtain p where p: "openPEM kek kp = Inr p"
      and rest: "EncryptStored_loop UpdateKeypairPrivatePEM kek rnds stored s n = (m, None, s')"
      using Cons.prems(1) by (auto split: sum.splits)
    note IH = Cons.IH[OF rest Cons.prems(2) sub d(1) Cons.prems(5)]
    have "kp \<in> set (keypairs s')" using IH kp d(2) by blast
    then have "isEncrypted (kp_PrivatePEM r) \<and> (\<exists>p. openPEM kek r = Inr p)"
      if "r \<in> set (keypairs s')" "kp_Kid r = kp_Kid kp" for r
      using uniq[of s' r kp] that IH True p by blast
    then show ?thesis using IH by auto
  next
    case False
    then obtain nonce rnds' where rn: "rnds = Some nonce # rnds'"
      using Cons.prems(1) by (cases rnds) (auto simp: sealPEM_def split: option.splits)
    then obtain sealed s1 where sl: "sealPEM kek (Some nonce) (kp_Kid kp) (kp_PrivatePEM kp) = Inr sealed"
      and up: "UpdateKeypairPrivatePEM s (kp_Kid kp) sealed = (None, s1)"
      and rest: "EncryptStored_loop UpdateKeypairPrivatePEM kek rnds' stored s1 (Suc n) = (m, None, s')"
      using Cons.prems(1) False by (auto split: sum.splits prod.splits option.splits)
    have ln: "length nonce = gcmNonceSize" using Cons.prems(5) rn by simp
    note st = EncryptStored_step[OF Cons.prems(2) kp False sl ln up]
    have sub1: "set stored \<subseteq> set (keypairs s1)" using st(5) sub d(2) by force
    note IH = Cons.IH[OF rest st(1) sub1 d(1)]
    have IH: "wf_keypairs s'" "map meta (keypairs s') = map meta (keypairs s1)"
      "map (plain kek) (keypairs s') = map (plain kek) (keypairs s1)"
      "\<And>r. r \<in> set (keypairs s') \<Longrightarrow> kp_Kid r \<in> kp_Kid ` set stored \<Longrightarrow> isEncrypted (kp_PrivatePEM r) \<and> (\<exists>p. openPEM kek r = Inr p)"
      "\<And>r. r \<in> set (keypairs s1) \<Longrightarrow> kp_Kid r \<notin> kp_Kid ` set stored \<Longrightarrow> r \<in> set (keypairs s')"
      using IH Cons.prems(5) rn by auto
    let ?new = "kp\<lparr>kp_PrivatePEM := sealed\<rparr>"
    have "?new \<in> set (keypairs s')" using IH(5)[OF st(4)] d(2) by simp
    then have "isEncrypted (kp_PrivatePEM r) \<and> (\<exists>p. openPEM kek r = Inr p)"
      if "r \<in> set (keypairs s')" "kp_Kid r = kp_Kid kp" for r
      using uniq[OF IH(1) that(1), of ?new] that openPEM_sealPEM[OF sl ln] sealPEM_isEncrypted[OF sl] by auto
    moreover have "r \<in> set (keypairs s')" if "r \<in> set (keypairs s)" "kp_Kid r \<notin> kp_Kid ` set (kp # stored)" for r
      using IH(5)[OF st(5)[OF that(1)]] that(2) by auto
    ultimately show ?thesis using IH(1-4) st(2,3) by auto
  qed
qed simp

lemma EncryptStored_again:
  assumes "\<forall>kp\<in>set stored. isEncrypted (kp_PrivatePEM kp) \<and> (\<exists>p. openPEM kek kp = Inr p)"
  shows "EncryptStored_loop rw kek rnds stored st n = (n, None, st)"
  using assms by (induction stored) auto

section \<open>Properties\<close>

lemma abs_active_iff: "wf_keypairs s \<Longrightarrow> hasActive (abs_keypairs s) \<longleftrightarrow> list_ex (\<lambda>r. \<not> Retired r) (keypairs s)"
  by (auto simp: hasActive_def abs_keypairs_Some list_ex_iff)

lemma abs_mature_iff:
  "wf_keypairs s \<Longrightarrow> hasMature (abs_keypairs s) now d \<longleftrightarrow> list_ex (mature now d) (keypairs s)"
  by (auto simp: hasMature_def abs_keypairs_Some list_ex_iff)

text \<open>C36. The signing rule: over keypairs sorted by creation time the signer is the newest non-retired
  keypair whose publish delay has elapsed; when none has, the oldest non-retired one; and there is none
  only when every keypair is retired. A retired keypair never signs.\<close>

theorem Signing_rule:
  assumes "sorted (map keyOrder kps)"
  shows "(Signing kps now d = None \<longleftrightarrow> (\<forall>kp\<in>set kps. Retired kp)) \<and>
    (\<forall>kp. Signing kps now d = Some kp \<longrightarrow> kp \<in> set kps \<and> \<not> Retired kp \<and>
       (if \<exists>x\<in>set kps. mature now d x
        then mature now d kp \<and> (\<forall>x\<in>set kps. mature now d x \<longrightarrow> kp_CreatedAt x \<le> kp_CreatedAt kp)
        else (\<forall>x\<in>set kps. \<not> Retired x \<longrightarrow> kp_CreatedAt kp \<le> kp_CreatedAt x)))"
proof (intro conjI allI impI)
  show "Signing kps now d = None \<longleftrightarrow> (\<forall>kp\<in>set kps. Retired kp)" by (rule Signing_None_iff)
  fix kp assume s: "Signing kps now d = Some kp"
  then show "kp \<in> set kps" "\<not> Retired kp" using Signing_Some_in by auto
  show "if \<exists>x\<in>set kps. mature now d x
        then mature now d kp \<and> (\<forall>x\<in>set kps. mature now d x \<longrightarrow> kp_CreatedAt x \<le> kp_CreatedAt kp)
        else (\<forall>x\<in>set kps. \<not> Retired x \<longrightarrow> kp_CreatedAt kp \<le> kp_CreatedAt x)"
  proof (cases "\<exists>x\<in>set kps. mature now d x")
    case True
    then have k: "kp = last (filter (mature now d) kps)"
      using s by (auto simp: Signing_spec Let_def filter_empty_conv)
    have "kp_CreatedAt x \<le> kp_CreatedAt kp" if "x \<in> set kps" "mature now d x" for x
      unfolding k using that by (intro last_max sorted_keyOrder_created[OF assms]) simp
    then show ?thesis using True Signing_mature[OF True] s by auto
  next
    case False
    then have k: "kp = hd (filter (\<lambda>kp. \<not> Retired kp) kps)"
      using s by (auto simp: Signing_spec Let_def filter_empty_conv split: if_splits)
    have "kp_CreatedAt kp \<le> kp_CreatedAt x" if "x \<in> set kps" "\<not> Retired x" for x
      unfolding k using that by (intro hd_min sorted_keyOrder_created[OF assms]) simp
    then show ?thesis using False by auto
  qed
qed

definition demoKey :: "string \<Rightarrow> Time \<Rightarrow> Keypair" where
  "demoKey kid created = \<lparr>kp_Kid = kid, kp_Alg = AlgRS256, kp_PrivatePEM = ''p'', kp_PublicPEM = ''q'',
     kp_CreatedAt = created, kp_RetiredAt = None\<rparr>"

theorem Signing_rule_witness:
  "Signing [demoKey ''a'' 0, demoKey ''b'' 10] 12 5 = Some (demoKey ''a'' 0) \<and>
   mature 12 5 (demoKey ''a'' 0)"
proof -
  have s: "sorted (map keyOrder [demoKey ''a'' 0, demoKey ''b'' 10])" by code_simp
  have e: "Signing [demoKey ''a'' 0, demoKey ''b'' 10] 12 5 = Some (demoKey ''a'' 0)" by code_simp
  have "\<exists>x\<in>set [demoKey ''a'' 0, demoKey ''b'' 10]. mature 12 5 x" by code_simp
  then show ?thesis using Signing_rule[OF s, of 12 5] e by simp
qed

definition demoStore :: Store where
  "demoStore = emptyStore\<lparr>keypairs := [demoKey ''a'' 0, demoKey ''b'' 10]\<rparr>"

definition demoKeys :: Keys where
  "demoKeys = newKeys\<lparr>k_publishDelay := 5\<rparr>"

lemma demo_retire_step:
  "(key_step sqliteKeyStore False)\<^sup>*\<^sup>* (demoKeys, demoStore, 20)
     (fst (snd (Retire sqliteKeyStore False (\<lambda>_. 20) ''b'' demoKeys demoStore)),
      snd (snd (Retire sqliteKeyStore False (\<lambda>_. 20) ''b'' demoKeys demoStore)), 20)"
  by (rule r_into_rtranclp)
     (rule key_step.retire[where clk = "\<lambda>_. 20" and f = False and kid = "''b''"
        and res = "fst (Retire sqliteKeyStore False (\<lambda>_. 20) ''b'' demoKeys demoStore)"], simp_all add: mono_def)

text \<open>C15. No sequence of generations, retirements (forced ones included) and reloads, by this process or
  by other replicas, leaves a store that had an active keypair without one: after any of them a reload
  yields a signer, which is not retired and is among the published keys, on both backends.\<close>

theorem signer_survives:
  assumes "ops \<in> {sqliteKeyStore, postgresKeyStore}" "wf_keypairs s" "list_ex (\<lambda>r. \<not> Retired r) (keypairs s)"
    and "(key_step ops force)\<^sup>*\<^sup>* (k, s, now) (k', s', now')" "Reload ops k' s' = (None, k'')"
  shows "\<exists>kp. Latest k'' now' = Inr kp \<and> \<not> Retired kp \<and> kp \<in> set (Published k'' now')"
proof -
  have a: "hasActive (abs_keypairs s)" using assms by (simp add: abs_active_iff)
  show ?thesis
  proof (cases "ops = sqliteKeyStore")
    case True
    then have "wf_keypairs s' \<and> hasActive (abs_keypairs s')"
      using sqlite_keys.key_steps[of force k s now k' s' now'] assms a by auto
    then show ?thesis using sqlite_keys.Reload_Latest assms(5) True by blast
  next
    case False
    then have p: "ops = postgresKeyStore" using assms(1) by simp
    then have "wf_keypairs s' \<and> hasActive (abs_keypairs s')"
      using postgres_keys.key_steps[of force k s now k' s' now'] assms a by auto
    then show ?thesis using postgres_keys.Reload_Latest assms(5) p by blast
  qed
qed

theorem signer_survives_witness:
  "\<exists>kp. Latest (snd (Reload sqliteKeyStore
       (fst (snd (Retire sqliteKeyStore False (\<lambda>_. 20) ''b'' demoKeys demoStore)))
       (snd (snd (Retire sqliteKeyStore False (\<lambda>_. 20) ''b'' demoKeys demoStore))))) 20 = Inr kp \<and> \<not> Retired kp"
proof -
  let ?R = "Retire sqliteKeyStore False (\<lambda>_. 20) ''b'' demoKeys demoStore"
  have wf: "wf_keypairs demoStore" "list_ex (\<lambda>r. \<not> Retired r) (keypairs demoStore)" by code_simp+
  have "fst (Reload sqliteKeyStore (fst (snd ?R)) (snd (snd ?R))) = None" by code_simp
  then have rl: "Reload sqliteKeyStore (fst (snd ?R)) (snd (snd ?R)) = (None, snd (Reload sqliteKeyStore (fst (snd ?R)) (snd (snd ?R))))"
    by (metis prod.collapse)
  show ?thesis using signer_survives[OF _ wf demo_retire_step rl] by blast
qed



text \<open>C37. Boot: when \<^verbatim>\<open>Init\<close> succeeds, on either backend, the store has an active keypair and the process
  can sign, at any time, whatever the store held before (nothing, or only retired keys).\<close>

theorem init_can_sign:
  assumes "ops \<in> {sqliteKeyStore, postgresKeyStore}" "wf_keypairs s"
    and "init ops clk material rnd k s = (None, k', s')"
  shows "wf_keypairs s' \<and> list_ex (\<lambda>r. \<not> Retired r) (keypairs s') \<and> (\<exists>kp. Latest k' now = Inr kp)"
proof -
  have "wf_keypairs s' \<and> hasActive (abs_keypairs s') \<and> (\<exists>kp. Latest k' now = Inr kp)"
    using assms sqlite_keys.init_active[of s clk material rnd k k' s' now]
      postgres_keys.init_active[of s clk material rnd k k' s' now] by auto
  then show ?thesis by (auto simp: abs_active_iff)
qed

theorem init_can_sign_witness:
  "\<exists>k' s'. init sqliteKeyStore (\<lambda>_. 7) (Some (''kid'', ''priv'', ''pub'')) None demoKeys emptyStore = (None, k', s')
     \<and> list_ex (\<lambda>r. \<not> Retired r) (keypairs s')"
proof -
  let ?I = "init sqliteKeyStore (\<lambda>_. 7) (Some (''kid'', ''priv'', ''pub'')) None demoKeys emptyStore"
  have "fst ?I = None" by code_simp
  then have i: "?I = (None, fst (snd ?I), snd (snd ?I))" by (metis prod.collapse)
  have "wf_keypairs emptyStore" by code_simp
  then show ?thesis using i init_can_sign[OF _ _ i, of 0] by blast
qed

text \<open>C32. \<^verbatim>\<open>keys encrypt\<close>: when it reports no error every stored private key is encrypted, each still opens to
  the private key it was (and no other column changed), and running it again rewrites nothing.\<close>

theorem EncryptStored_correct:
  assumes "wf_keypairs s" "k_kek k = Some kek"
    and "\<forall>r\<in>set rnds. \<forall>x. r = Some x \<longrightarrow> length x = gcmNonceSize"
    and "EncryptStored sqliteKeyStore UpdateKeypairPrivatePEM k rnds s = (n, None, s')"
  shows "(\<forall>r\<in>set (keypairs s'). isEncrypted (kp_PrivatePEM r))
    \<and> map meta (keypairs s') = map meta (keypairs s) \<and> map (plain kek) (keypairs s') = map (plain kek) (keypairs s)
    \<and> EncryptStored sqliteKeyStore UpdateKeypairPrivatePEM k rnds' s' = (0, None, s')"
proof -
  let ?stored = "sort_key keyOrder (keypairs s)"
  have c: "cipher k = Inr (Some kek)"
    using assms(2,4) by (auto simp: EncryptStored_def cipher_def split: if_splits)
  then have l: "EncryptStored_loop UpdateKeypairPrivatePEM kek rnds ?stored s 0 = (n, None, s')"
    using assms(4) by (simp add: EncryptStored_def LoadKeypairs_def)
  have d: "distinct (map kp_Kid ?stored)" using LoadKeypairs_spec[OF assms(1)] by blast
  note R = EncryptStored_loop_correct[OF l assms(1) _ d assms(3)]
  then have m: "map meta (keypairs s') = map meta (keypairs s)"
    and p: "map (plain kek) (keypairs s') = map (plain kek) (keypairs s)" by simp_all
  have "kp_Kid r \<in> kp_Kid ` set ?stored" if "r \<in> set (keypairs s')" for r
    using meta_in[OF m that] meta_eqD(1) by (metis image_eqI set_sort)
  then have all: "\<forall>r\<in>set (keypairs s'). isEncrypted (kp_PrivatePEM r) \<and> (\<exists>p. openPEM kek r = Inr p)"
    using R by simp
  then have "EncryptStored sqliteKeyStore UpdateKeypairPrivatePEM k rnds' s' = (0, None, s')"
    using c by (simp add: EncryptStored_def LoadKeypairs_def EncryptStored_again)
  then show ?thesis using all m p by blast
qed

theorem EncryptStored_correct_witness:
  "\<exists>n s'. EncryptStored sqliteKeyStore UpdateKeypairPrivatePEM (newKeys\<lparr>k_kek := Some (replicate 32 CHR ''k'')\<rparr>)
       [Some (replicate 12 CHR ''n'')] (emptyStore\<lparr>keypairs := [demoKey ''a'' 0]\<rparr>) = (n, None, s')
     \<and> n = 1 \<and> (\<forall>r\<in>set (keypairs s'). isEncrypted (kp_PrivatePEM r))"
proof -
  let ?kek = "replicate 32 CHR ''k''" and ?nonce = "replicate 12 CHR ''n''"
  let ?k = "newKeys\<lparr>k_kek := Some ?kek\<rparr>" and ?s = "emptyStore\<lparr>keypairs := [demoKey ''a'' 0]\<rparr>"
  let ?sealed = "encryptedPEMPrefix @ RawStdEncode (?nonce @ gcmSeal ?kek ?nonce ''p'' (kidAAD ''a''))"
  let ?s' = "?s\<lparr>keypairs := [(demoKey ''a'' 0)\<lparr>kp_PrivatePEM := ?sealed\<rparr>]\<rparr>"
  have ne: "\<not> isEncrypted ''p''" by code_simp
  have e: "EncryptStored sqliteKeyStore UpdateKeypairPrivatePEM ?k [Some ?nonce] ?s = (1, None, ?s')"
    using ne by (simp add: EncryptStored_def cipher_def newKeys_def kekBytes_def LoadKeypairs_def demoKey_def
        sealPEM_def UpdateKeypairPrivatePEM_def count_where_def update_where_def)
  have wf: "wf_keypairs ?s" by code_simp
  have "\<forall>r\<in>set (keypairs ?s'). isEncrypted (kp_PrivatePEM r)"
    using EncryptStored_correct[OF wf _ _ e] by (simp add: newKeys_def gcmNonceSize_def)
  then show ?thesis using e by blast
qed

end
