(* ===== verification/Signer.thy ===== *)
theory Signer
  imports Keyring
begin

text \<open>
  Minting and verifying tokens (src/keys/signer.go, src/keys/verifier.go). The JOSE library
  (github.com/lestrrat-go/jwx) is the parameter \<^verbatim>\<open>jx\<close>, a record of the functions the code calls, and
  the compact serialization is its type of tokens. Times are NumericDate values, whole seconds, as the
  library writes them. A fresh jti (\<^verbatim>\<open>uuid.NewV7\<close>) is an argument that may be missing.
\<close>

section \<open>Claims and the JOSE library\<close>

record Claims =
  cl_sub :: string
  cl_iss :: "string option"
  cl_aud :: "string list"
  cl_iat :: int
  cl_nbf :: int
  cl_exp :: "int option"
  cl_jti :: "string option"
  cl_permissions :: "string list option"
  cl_email :: "string option"
  cl_email_verified :: "bool option"
  cl_idp :: "string option"
  cl_client_id :: "string option"
  cl_nonce :: "string option"
  cl_auth_time :: "int option"

record JwsHeader =
  jh_kid :: string
  jh_typ :: string

record ('key, 'pub, 'set, 'tok) Jwx =
  jx_ParsePrivate :: "string \<Rightarrow> 'key option"
  jx_Sign :: "'key \<Rightarrow> JwsHeader \<Rightarrow> Claims \<Rightarrow> 'tok option"
  jx_ParsePublic :: "string \<Rightarrow> 'pub option"
  jx_NewSet :: 'set
  jx_AddKey :: "'set \<Rightarrow> string \<Rightarrow> 'pub \<Rightarrow> 'set option"
  jx_Len :: "'set \<Rightarrow> nat"
  jx_LookupKeyID :: "'set \<Rightarrow> string \<Rightarrow> 'pub option"
  jx_Parse :: "'set \<Rightarrow> string option \<Rightarrow> string option \<Rightarrow> Time \<Rightarrow> 'tok \<Rightarrow> Claims option"
  jx_Header :: "'tok \<Rightarrow> JwsHeader option"

datatype TokenError = ErrNoSigningKeys | ErrNewJTI | ErrLatestKey KeyError | ErrParsePrivateKey string
  | ErrSignToken | ErrIDTokenAudience
  | ErrNoVerificationKeys | ErrParsePublicKey string | ErrAddKey string | ErrVerifyToken | ErrTokenHeader
  | ErrNotAccessToken | ErrCheckDenylist | ErrTokenRevoked

definition AccessTokenType :: string where "AccessTokenType = ''at+jwt''"
definition idTokenType :: string where "idTokenType = ''JWT''"

section \<open>Signer\<close>

record 'key Signer =
  sg_keys :: "Keys option"
  sg_issuer :: string
  sg_audience :: string
  sg_parsed :: "(string \<times> 'key) option"

definition NewSigner :: "Keys option \<Rightarrow> string \<Rightarrow> string \<Rightarrow> 'key Signer" where
  "NewSigner keys issuer audience = \<lparr>sg_keys = keys, sg_issuer = issuer, sg_audience = audience, sg_parsed = None\<rparr>"

record MintRequest =
  mr_Subject :: string
  mr_Permissions :: "string list"
  mr_TTL :: Duration
  mr_Email :: string
  mr_IDP :: string
  mr_ClientID :: string

record IDTokenRequest =
  it_Subject :: string
  it_Email :: string
  it_IDP :: string
  it_Audience :: string
  it_Nonce :: string
  it_AuthTime :: Time
  it_TTL :: Duration

text \<open>A string claim that is written only when it is not empty.\<close>

definition nonEmpty :: "string \<Rightarrow> string option" where
  "nonEmpty s = (if s = [] then None else Some s)"

definition builder :: "'key Signer \<Rightarrow> string option \<Rightarrow> Time \<Rightarrow> string \<Rightarrow> Duration \<Rightarrow> TokenError + Claims \<times> string" where
  "builder s uuid now subject ttl =
     (if sg_keys s = None then Inl ErrNoSigningKeys
      else case uuid of None \<Rightarrow> Inl ErrNewJTI
        | Some jti \<Rightarrow> Inr (\<lparr>cl_sub = subject, cl_iss = nonEmpty (sg_issuer s), cl_aud = [], cl_iat = Unix now,
            cl_nbf = Unix now, cl_exp = (if 0 < ttl then Some (Unix (now + ttl)) else None), cl_jti = Some jti,
            cl_permissions = None, cl_email = None, cl_email_verified = None, cl_idp = None, cl_client_id = None,
            cl_nonce = None, cl_auth_time = None\<rparr>, jti))"

definition signingKey :: "('key, 'pub, 'set, 'tok) Jwx \<Rightarrow> 'key Signer \<Rightarrow> Keypair \<Rightarrow> (TokenError + 'key) \<times> 'key Signer" where
  "signingKey jx s kp =
     (case sg_parsed s of
        Some (kid, key) \<Rightarrow> if kid = kp_Kid kp then (Inr key, s) else
          (case jx_ParsePrivate jx (kp_PrivatePEM kp) of None \<Rightarrow> (Inl (ErrParsePrivateKey (kp_Kid kp)), s)
           | Some raw \<Rightarrow> (Inr raw, s\<lparr>sg_parsed := Some (kp_Kid kp, raw)\<rparr>))
      | None \<Rightarrow>
          (case jx_ParsePrivate jx (kp_PrivatePEM kp) of None \<Rightarrow> (Inl (ErrParsePrivateKey (kp_Kid kp)), s)
           | Some raw \<Rightarrow> (Inr raw, s\<lparr>sg_parsed := Some (kp_Kid kp, raw)\<rparr>)))"

definition sign :: "('key, 'pub, 'set, 'tok) Jwx \<Rightarrow> 'key Signer \<Rightarrow> Time \<Rightarrow> Claims \<Rightarrow> string \<Rightarrow> (TokenError + 'tok) \<times> 'key Signer" where
  "sign jx s now claims typ = (case sg_keys s of
     None \<Rightarrow> (Inl ErrNoSigningKeys, s)
   | Some k \<Rightarrow> (case Latest k now of
       Inl e \<Rightarrow> (Inl (ErrLatestKey e), s)
     | Inr kp \<Rightarrow> (case signingKey jx s kp of
         (Inl e, s') \<Rightarrow> (Inl e, s')
       | (Inr priv, s') \<Rightarrow> (case jx_Sign jx priv \<lparr>jh_kid = kp_Kid kp, jh_typ = typ\<rparr> claims of
             None \<Rightarrow> (Inl ErrSignToken, s') | Some tok \<Rightarrow> (Inr tok, s')))))"

definition accessClaims :: "string \<Rightarrow> MintRequest \<Rightarrow> Claims \<Rightarrow> Claims" where
  "accessClaims audience req b =
     (let b = b\<lparr>cl_permissions := Some (mr_Permissions req)\<rparr>;
          b = (if audience \<noteq> [] then b\<lparr>cl_aud := [audience]\<rparr> else b)
      in b\<lparr>cl_email := nonEmpty (mr_Email req), cl_idp := nonEmpty (mr_IDP req),
           cl_client_id := nonEmpty (mr_ClientID req)\<rparr>)"

definition Mint :: "('key, 'pub, 'set, 'tok) Jwx \<Rightarrow> 'key Signer \<Rightarrow> string option \<Rightarrow> (nat \<Rightarrow> Time) \<Rightarrow> MintRequest
    \<Rightarrow> (TokenError + 'tok \<times> string) \<times> 'key Signer" where
  "Mint jx s uuid clk req = (case builder s uuid (clk 0) (mr_Subject req) (mr_TTL req) of
     Inl e \<Rightarrow> (Inl e, s)
   | Inr (b, jti) \<Rightarrow> (case sign jx s (clk 1) (accessClaims (sg_audience s) req b) AccessTokenType of
       (Inl e, s') \<Rightarrow> (Inl e, s') | (Inr tok, s') \<Rightarrow> (Inr (tok, jti), s')))"

definition idClaims :: "IDTokenRequest \<Rightarrow> Claims \<Rightarrow> Claims" where
  "idClaims req b =
     (let b = b\<lparr>cl_aud := [it_Audience req]\<rparr>;
          b = (if it_Email req \<noteq> [] then b\<lparr>cl_email := Some (it_Email req), cl_email_verified := Some True\<rparr> else b);
          b = b\<lparr>cl_idp := nonEmpty (it_IDP req), cl_nonce := nonEmpty (it_Nonce req)\<rparr>
      in if it_AuthTime req \<noteq> zeroTime then b\<lparr>cl_auth_time := Some (Unix (it_AuthTime req))\<rparr> else b)"

definition MintIDToken :: "('key, 'pub, 'set, 'tok) Jwx \<Rightarrow> 'key Signer \<Rightarrow> string option \<Rightarrow> (nat \<Rightarrow> Time) \<Rightarrow> IDTokenRequest
    \<Rightarrow> (TokenError + 'tok) \<times> 'key Signer" where
  "MintIDToken jx s uuid clk req =
     (if it_Audience req = [] then (Inl ErrIDTokenAudience, s)
      else case builder s uuid (clk 0) (it_Subject req) (it_TTL req) of
          Inl e \<Rightarrow> (Inl e, s)
        | Inr (b, _) \<Rightarrow> sign jx s (clk 1) (idClaims req b) idTokenType)"

section \<open>Verifier\<close>

record 'set Verifier =
  vf_keys :: "Keys option"
  vf_issuer :: string
  vf_audience :: string
  vf_parsed :: "(string list \<times> 'set) option"

definition NewVerifier :: "Keys option \<Rightarrow> string \<Rightarrow> string \<Rightarrow> 'set Verifier" where
  "NewVerifier keys issuer audience = \<lparr>vf_keys = keys, vf_issuer = issuer, vf_audience = audience, vf_parsed = None\<rparr>"

text \<open>The \<^verbatim>\<open>DenylistChecker\<close> interface: \<^verbatim>\<open>IsRevoked\<close> on the checker's own state.\<close>

type_synonym 'd DenylistChecker = "'d \<Rightarrow> string \<Rightarrow> (StoreError + bool) \<times> 'd"

definition sameKids :: "string list \<Rightarrow> Keypair list \<Rightarrow> bool" where
  "sameKids kids kps = (kids = map kp_Kid kps)"

definition publicKey :: "('key, 'pub, 'set, 'tok) Jwx \<Rightarrow> (string list \<times> 'set) option \<Rightarrow> Keypair \<Rightarrow> TokenError + 'pub" where
  "publicKey jx prev kp =
     (case (case prev of None \<Rightarrow> None | Some (_, ks) \<Rightarrow> jx_LookupKeyID jx ks (kp_Kid kp)) of
        Some pub \<Rightarrow> Inr pub
      | None \<Rightarrow> (case jx_ParsePublic jx (kp_PublicPEM kp) of
          None \<Rightarrow> Inl (ErrParsePublicKey (kp_Kid kp)) | Some pub \<Rightarrow> Inr pub))"

fun keySet_loop :: "('key, 'pub, 'set, 'tok) Jwx \<Rightarrow> (string list \<times> 'set) option \<Rightarrow> Keypair list \<Rightarrow> 'set \<Rightarrow> TokenError + 'set" where
  "keySet_loop jx prev [] ks = Inr ks"
| "keySet_loop jx prev (kp # kps) ks = (case publicKey jx prev kp of
     Inl e \<Rightarrow> Inl e
   | Inr pub \<Rightarrow> (case jx_AddKey jx ks (kp_Kid kp) pub of
       None \<Rightarrow> Inl (ErrAddKey (kp_Kid kp)) | Some ks' \<Rightarrow> keySet_loop jx prev kps ks'))"

definition keySet :: "('key, 'pub, 'set, 'tok) Jwx \<Rightarrow> 'set Verifier \<Rightarrow> Keypair list \<Rightarrow> (TokenError + 'set) \<times> 'set Verifier" where
  "keySet jx v kps =
     (case vf_parsed v of
        Some (kids, ks) \<Rightarrow> if sameKids kids kps
          then (if jx_Len jx ks = 0 then Inl ErrNoVerificationKeys else Inr ks, v)
          else (case keySet_loop jx (vf_parsed v) kps (jx_NewSet jx) of
              Inl e \<Rightarrow> (Inl e, v)
            | Inr ks' \<Rightarrow> (if jx_Len jx ks' = 0 then Inl ErrNoVerificationKeys else Inr ks',
                v\<lparr>vf_parsed := Some (map kp_Kid kps, ks')\<rparr>))
      | None \<Rightarrow> (case keySet_loop jx None kps (jx_NewSet jx) of
              Inl e \<Rightarrow> (Inl e, v)
            | Inr ks' \<Rightarrow> (if jx_Len jx ks' = 0 then Inl ErrNoVerificationKeys else Inr ks',
                v\<lparr>vf_parsed := Some (map kp_Kid kps, ks')\<rparr>)))"

definition checkDenylist :: "'d DenylistChecker option \<Rightarrow> 'd \<Rightarrow> Claims \<Rightarrow> (TokenError + Claims) \<times> 'd" where
  "checkDenylist denylist d tok =
     (case denylist of None \<Rightarrow> (Inr tok, d)
      | Some isRevoked \<Rightarrow> (case cl_jti tok of None \<Rightarrow> (Inr tok, d)
         | Some jti \<Rightarrow> if jti = [] then (Inr tok, d)
             else (case isRevoked d jti of
                 (Inl e, d') \<Rightarrow> (Inl ErrCheckDenylist, d')
               | (Inr revoked, d') \<Rightarrow> (if revoked then Inl ErrTokenRevoked else Inr tok, d'))))"

definition Verify :: "('key, 'pub, 'set, 'tok) Jwx \<Rightarrow> 'd DenylistChecker option \<Rightarrow> (nat \<Rightarrow> Time) \<Rightarrow> 'tok
    \<Rightarrow> 'set Verifier \<Rightarrow> 'd \<Rightarrow> (TokenError + Claims) \<times> 'set Verifier \<times> 'd" where
  "Verify jx denylist clk raw v d = (case vf_keys v of
     None \<Rightarrow> (Inl ErrNoVerificationKeys, v, d)
   | Some k \<Rightarrow> (case keySet jx v (Published k (clk 0)) of
       (Inl e, v') \<Rightarrow> (Inl e, v', d)
     | (Inr ks, v') \<Rightarrow>
         (case jx_Parse jx ks (nonEmpty (vf_issuer v)) (nonEmpty (vf_audience v)) (clk 1) raw of
            None \<Rightarrow> (Inl ErrVerifyToken, v', d)
          | Some tok \<Rightarrow> (case jx_Header jx raw of
              None \<Rightarrow> (Inl ErrTokenHeader, v', d)
            | Some h \<Rightarrow> if jh_typ h \<noteq> AccessTokenType then (Inl ErrNotAccessToken, v', d)
                else (case checkDenylist denylist d tok of (res, d') \<Rightarrow> (res, v', d'))))))"


section \<open>What is relied on\<close>

text \<open>
  The documented behaviour of the JOSE library that the properties rest on. A key set finds a key under
  the id it was added with; adding a key whose id is new succeeds. Signing keeps the header. A token
  signed with a private key verifies under its public key when the set holds that key under the token's
  kid and the claims are in force; and a token verifies only when the set has a key under its kid.
  A kid names key material (it is the thumbprint), so two keypairs with one kid hold the same keys.
\<close>

definition keySet_laws :: "('key, 'pub, 'set, 'tok) Jwx \<Rightarrow> bool" where
  "keySet_laws jx = ((\<forall>kid. jx_LookupKeyID jx (jx_NewSet jx) kid = None) \<and> jx_Len jx (jx_NewSet jx) = 0 \<and>
     (\<forall>S kid pub. jx_LookupKeyID jx S kid = None \<longrightarrow>
        (\<exists>S'. jx_AddKey jx S kid pub = Some S' \<and> jx_Len jx S' = Suc (jx_Len jx S) \<and>
          (\<forall>k. jx_LookupKeyID jx S' k = (if k = kid then Some pub else jx_LookupKeyID jx S k)))))"

definition header_law :: "('key, 'pub, 'set, 'tok) Jwx \<Rightarrow> bool" where
  "header_law jx = (\<forall>sk h c tok. jx_Sign jx sk h c = Some tok \<longrightarrow> jx_Header jx tok = Some h)"

definition kid_law :: "('key, 'pub, 'set, 'tok) Jwx \<Rightarrow> bool" where
  "kid_law jx = (\<forall>S iss aud now tok c. jx_Parse jx S iss aud now tok = Some c \<longrightarrow>
     (\<forall>h. jx_Header jx tok = Some h \<longrightarrow> jx_LookupKeyID jx S (jh_kid h) \<noteq> None))"

definition claimsInForce :: "Claims \<Rightarrow> string option \<Rightarrow> string option \<Rightarrow> Time \<Rightarrow> bool" where
  "claimsInForce c iss aud now =
     ((iss = None \<or> cl_iss c = iss) \<and> (case aud of None \<Rightarrow> True | Some a \<Rightarrow> a \<in> set (cl_aud c)) \<and>
      cl_nbf c \<le> Unix now \<and> cl_iat c \<le> Unix now \<and> (case cl_exp c of None \<Rightarrow> True | Some e \<Rightarrow> Unix now < e))"

definition signature_law :: "('key, 'pub, 'set, 'tok) Jwx \<Rightarrow> Keypair \<Rightarrow> bool" where
  "signature_law jx kp = (\<exists>sk pk. jx_ParsePrivate jx (kp_PrivatePEM kp) = Some sk \<and> jx_ParsePublic jx (kp_PublicPEM kp) = Some pk \<and>
     (\<forall>h c tok S iss aud now. jx_Sign jx sk h c = Some tok \<longrightarrow> jx_LookupKeyID jx S (jh_kid h) = Some pk \<longrightarrow>
        claimsInForce c iss aud now \<longrightarrow> jx_Parse jx S iss aud now tok = Some c))"

definition kid_names_key :: "Keypair set \<Rightarrow> bool" where
  "kid_names_key U = (\<forall>a\<in>U. \<forall>b\<in>U. kp_Kid a = kp_Kid b \<longrightarrow> kp_PrivatePEM a = kp_PrivatePEM b \<and> kp_PublicPEM a = kp_PublicPEM b)"

text \<open>A key ring drawn from \<^verbatim>\<open>U\<close>, as the store keeps it: one keypair per kid.\<close>

definition ringOf :: "Keypair set \<Rightarrow> Keys \<Rightarrow> bool" where
  "ringOf U k = (set (k_keypairs k) \<subseteq> U \<and> distinct (map kp_Kid (k_keypairs k)))"

section \<open>Lemmas\<close>

subsection \<open>The signer's cache\<close>

definition signer_ok :: "('key, 'pub, 'set, 'tok) Jwx \<Rightarrow> Keypair set \<Rightarrow> 'key Signer \<Rightarrow> bool" where
  "signer_ok jx U s = (case sg_parsed s of None \<Rightarrow> True
     | Some (kid, key) \<Rightarrow> \<exists>kp\<in>U. kp_Kid kp = kid \<and> jx_ParsePrivate jx (kp_PrivatePEM kp) = Some key)"

lemma Latest_in: "Latest k now = Inr kp \<Longrightarrow> kp \<in> set (k_keypairs k) \<and> \<not> Retired kp"
  by (auto simp: Latest_def dest: Signing_Some_in split: option.splits)

lemma signingKey_cached:
  assumes "signer_ok jx U s" "kid_names_key U" "kp \<in> U"
  shows "fst (signingKey jx s kp) = (case jx_ParsePrivate jx (kp_PrivatePEM kp) of
      None \<Rightarrow> Inl (ErrParsePrivateKey (kp_Kid kp)) | Some raw \<Rightarrow> Inr raw)"
proof (cases "\<exists>key. sg_parsed s = Some (kp_Kid kp, key)")
  case True
  then obtain key where key: "sg_parsed s = Some (kp_Kid kp, key)" by blast
  then obtain kp' where "kp' \<in> U" "kp_Kid kp' = kp_Kid kp" "jx_ParsePrivate jx (kp_PrivatePEM kp') = Some key"
    using assms(1) unfolding signer_ok_def by auto
  moreover from this have "kp_PrivatePEM kp' = kp_PrivatePEM kp" using assms(2,3) unfolding kid_names_key_def by blast
  ultimately show ?thesis using key by (simp add: signingKey_def)
next
  case False
  then show ?thesis by (auto simp: signingKey_def split: option.splits)
qed

lemma signingKey_ok: "signer_ok jx U s \<Longrightarrow> kp \<in> U \<Longrightarrow> signer_ok jx U (snd (signingKey jx s kp))"
  by (auto simp: signer_ok_def signingKey_def split: option.splits)

lemma signingKey_rest [simp]:
  "sg_keys (snd (signingKey jx s kp)) = sg_keys s" "sg_issuer (snd (signingKey jx s kp)) = sg_issuer s"
  "sg_audience (snd (signingKey jx s kp)) = sg_audience s"
  by (auto simp: signingKey_def split: option.splits)

text \<open>What \<^verbatim>\<open>sign\<close> computes, without the cache.\<close>

definition signed_by :: "('key, 'pub, 'set, 'tok) Jwx \<Rightarrow> Keys \<Rightarrow> Time \<Rightarrow> Claims \<Rightarrow> string \<Rightarrow> TokenError + 'tok" where
  "signed_by jx k now claims typ = (case Latest k now of Inl e \<Rightarrow> Inl (ErrLatestKey e)
     | Inr kp \<Rightarrow> (case jx_ParsePrivate jx (kp_PrivatePEM kp) of None \<Rightarrow> Inl (ErrParsePrivateKey (kp_Kid kp))
       | Some sk \<Rightarrow> (case jx_Sign jx sk \<lparr>jh_kid = kp_Kid kp, jh_typ = typ\<rparr> claims of None \<Rightarrow> Inl ErrSignToken | Some t \<Rightarrow> Inr t)))"

lemma sign_signed_by:
  assumes "signer_ok jx U s" "kid_names_key U" "sg_keys s = Some k" "ringOf U k"
  shows "fst (sign jx s now claims typ) = signed_by jx k now claims typ"
proof (cases "Latest k now")
  case (Inr kp)
  then have "kp \<in> U" using Latest_in assms(4) by (auto simp: ringOf_def)
  from signingKey_cached[OF assms(1,2) this] show ?thesis
    using Inr assms(3) unfolding sign_def signed_by_def
    by (cases "signingKey jx s kp") (auto split: option.splits sum.splits)
qed (simp add: sign_def signed_by_def assms(3))

lemma sign_ok:
  assumes "signer_ok jx U s" "sg_keys s = Some k" "ringOf U k"
  shows "signer_ok jx U (snd (sign jx s now claims typ))"
proof (cases "Latest k now")
  case (Inr kp)
  then have "kp \<in> U" using Latest_in assms(3) by (auto simp: ringOf_def)
  from signingKey_ok[OF assms(1) this] show ?thesis
    using Inr assms(2) unfolding sign_def
    by (cases "signingKey jx s kp") (auto split: option.splits sum.splits)
qed (simp add: sign_def assms)

lemma sign_rest [simp]:
  "sg_keys (snd (sign jx s now claims typ)) = sg_keys s" "sg_issuer (snd (sign jx s now claims typ)) = sg_issuer s"
  "sg_audience (snd (sign jx s now claims typ)) = sg_audience s"
proof -
  have *: "snd (sign jx s now claims typ) = s \<or> (\<exists>kp. snd (sign jx s now claims typ) = snd (signingKey jx s kp))"
    unfolding sign_def by (auto split: option.splits sum.splits prod.splits) (metis snd_conv)+
  then show "sg_keys (snd (sign jx s now claims typ)) = sg_keys s" "sg_issuer (snd (sign jx s now claims typ)) = sg_issuer s"
    "sg_audience (snd (sign jx s now claims typ)) = sg_audience s" by auto
qed

text \<open>A run of mints, access tokens and ID tokens mixed, each over the key ring of its moment.\<close>

fun mints :: "('key, 'pub, 'set, 'tok) Jwx \<Rightarrow> (Keys \<times> string option \<times> (nat \<Rightarrow> Time) \<times> (MintRequest + IDTokenRequest)) list
    \<Rightarrow> 'key Signer \<Rightarrow> 'key Signer" where
  "mints jx [] s = s"
| "mints jx ((k, uuid, clk, Inl req) # reqs) s = mints jx reqs (snd (Mint jx (s\<lparr>sg_keys := Some k\<rparr>) uuid clk req))"
| "mints jx ((k, uuid, clk, Inr req) # reqs) s = mints jx reqs (snd (MintIDToken jx (s\<lparr>sg_keys := Some k\<rparr>) uuid clk req))"

lemma Mint_spec:
  assumes "signer_ok jx U s" "kid_names_key U" "sg_keys s = Some k" "ringOf U k"
  shows "fst (Mint jx s uuid clk req) = (case builder s uuid (clk 0) (mr_Subject req) (mr_TTL req) of Inl e \<Rightarrow> Inl e
      | Inr (b, jti) \<Rightarrow> (case signed_by jx k (clk 1) (accessClaims (sg_audience s) req b) AccessTokenType of
          Inl e \<Rightarrow> Inl e | Inr tok \<Rightarrow> Inr (tok, jti)))"
proof -
  have "fst (sign jx s (clk 1) c AccessTokenType) = signed_by jx k (clk 1) c AccessTokenType" for c
    by (rule sign_signed_by[OF assms])
  from this[symmetric] show ?thesis
    by (auto simp: Mint_def split: sum.splits prod.splits)
qed

lemma MintIDToken_spec:
  assumes "signer_ok jx U s" "kid_names_key U" "sg_keys s = Some k" "ringOf U k"
  shows "fst (MintIDToken jx s uuid clk req) = (if it_Audience req = [] then Inl ErrIDTokenAudience
      else case builder s uuid (clk 0) (it_Subject req) (it_TTL req) of Inl e \<Rightarrow> Inl e
      | Inr (b, jti) \<Rightarrow> signed_by jx k (clk 1) (idClaims req b) idTokenType)"
proof -
  have "fst (sign jx s (clk 1) c idTokenType) = signed_by jx k (clk 1) c idTokenType" for c
    by (rule sign_signed_by[OF assms])
  from this[symmetric] show ?thesis
    by (auto simp: MintIDToken_def split: sum.splits prod.splits)
qed

lemma Mint_state: "snd (Mint jx s uuid clk req) = s \<or> (\<exists>now c t. snd (Mint jx s uuid clk req) = snd (sign jx s now c t))"
  unfolding Mint_def by (auto split: sum.splits prod.splits) (metis snd_conv)+

lemma MintIDToken_state:
  "snd (MintIDToken jx s uuid clk req) = s \<or> (\<exists>now c t. snd (MintIDToken jx s uuid clk req) = snd (sign jx s now c t))"
  unfolding MintIDToken_def by (auto split: sum.splits prod.splits)

lemma signer_ok_keys [simp]: "signer_ok jx U (s\<lparr>sg_keys := k\<rparr>) = signer_ok jx U s"
  by (simp add: signer_ok_def)

lemma mint_keeps:
  assumes "s' = snd (Mint jx (s\<lparr>sg_keys := Some k\<rparr>) uuid clk req) \<or> s' = snd (MintIDToken jx (s\<lparr>sg_keys := Some k\<rparr>) uuid clk ireq)"
    and "signer_ok jx U s" "ringOf U k"
  shows "signer_ok jx U s' \<and> sg_issuer s' = sg_issuer s \<and> sg_audience s' = sg_audience s"
proof -
  let ?s = "s\<lparr>sg_keys := Some k\<rparr>"
  from assms(1) consider "s' = ?s" | now c t where "s' = snd (sign jx ?s now c t)"
    using Mint_state[of jx ?s uuid clk req] MintIDToken_state[of jx ?s uuid clk ireq] by metis
  then show ?thesis
  proof cases
    case 2
    have "signer_ok jx U (snd (sign jx ?s now c t))" by (rule sign_ok[of jx U ?s k]) (simp_all add: assms)
    then show ?thesis using 2 by simp
  qed (simp add: assms)
qed

lemma mints_keep:
  assumes "signer_ok jx U s" "\<forall>k\<in>fst ` set reqs. ringOf U k"
  shows "signer_ok jx U (mints jx reqs s) \<and> sg_issuer (mints jx reqs s) = sg_issuer s \<and> sg_audience (mints jx reqs s) = sg_audience s"
  using assms
proof (induction jx reqs s rule: mints.induct)
  case (2 jx k uuid clk req reqs s)
  let ?s' = "snd (Mint jx (s\<lparr>sg_keys := Some k\<rparr>) uuid clk req)"
  have "signer_ok jx U ?s' \<and> sg_issuer ?s' = sg_issuer s \<and> sg_audience ?s' = sg_audience s"
    by (rule mint_keeps[OF disjI1[OF refl]]) (use 2 in simp_all)
  then show ?case using 2 by simp
next
  case (3 jx k uuid clk req reqs s)
  let ?s' = "snd (MintIDToken jx (s\<lparr>sg_keys := Some k\<rparr>) uuid clk req)"
  have "signer_ok jx U ?s' \<and> sg_issuer ?s' = sg_issuer s \<and> sg_audience ?s' = sg_audience s"
    by (rule mint_keeps[OF disjI2[OF refl]]) (use 3 in simp_all)
  then show ?case using 3 by simp
qed simp

lemma builder_keys: "sg_issuer s = sg_issuer s' \<Longrightarrow> sg_keys s \<noteq> None \<Longrightarrow> sg_keys s' \<noteq> None \<Longrightarrow> builder s = builder s'"
  by (intro ext) (auto simp: builder_def split: option.splits)

subsection \<open>The verifier's cache\<close>

lemma keySet_newD:
  assumes "keySet_laws jx"
  shows "jx_LookupKeyID jx (jx_NewSet jx) kid = None"
  using assms by (simp add: keySet_laws_def)

lemma keySet_addE:
  assumes "keySet_laws jx" "jx_LookupKeyID jx S kid = None"
  obtains S' where "jx_AddKey jx S kid pub = Some S'" "jx_Len jx S' = Suc (jx_Len jx S)"
    "\<And>k. jx_LookupKeyID jx S' k = (if k = kid then Some pub else jx_LookupKeyID jx S k)"
  using assms unfolding keySet_laws_def by blast

text \<open>The set a loop over distinct new kids builds holds exactly the keys of those keypairs.\<close>

lemma keySet_loop_lookup:
  assumes "keySet_laws jx" "distinct (map kp_Kid kps)" "\<forall>kp\<in>set kps. jx_LookupKeyID jx S (kp_Kid kp) = None"
    "keySet_loop jx None kps S = Inr S'"
  shows "(\<forall>kp\<in>set kps. jx_LookupKeyID jx S' (kp_Kid kp) = jx_ParsePublic jx (kp_PublicPEM kp) \<and> jx_ParsePublic jx (kp_PublicPEM kp) \<noteq> None)
       \<and> (\<forall>kid. kid \<notin> kp_Kid ` set kps \<longrightarrow> jx_LookupKeyID jx S' kid = jx_LookupKeyID jx S kid)
       \<and> jx_Len jx S' = jx_Len jx S + length kps"
  using assms(2-)
proof (induction kps arbitrary: S)
  case (Cons kp kps)
  obtain pub where pub: "jx_ParsePublic jx (kp_PublicPEM kp) = Some pub"
    using Cons.prems by (auto simp: publicKey_def split: option.splits)
  obtain S1 where S1: "jx_AddKey jx S (kp_Kid kp) pub = Some S1" "jx_Len jx S1 = Suc (jx_Len jx S)"
    "\<And>k. jx_LookupKeyID jx S1 k = (if k = kp_Kid kp then Some pub else jx_LookupKeyID jx S k)"
    using keySet_addE[OF assms(1), of S "kp_Kid kp" pub] Cons.prems by auto
  have rest: "keySet_loop jx None kps S1 = Inr S'" using Cons.prems pub S1(1) by (simp add: publicKey_def)
  have kid: "kp_Kid kp \<notin> kp_Kid ` set kps" using Cons.prems by auto
  then have "kp_Kid x \<noteq> kp_Kid kp" if "x \<in> set kps" for x using that by (metis imageI)
  then have new: "\<forall>x\<in>set kps. jx_LookupKeyID jx S1 (kp_Kid x) = None" using Cons.prems(2) by (simp add: S1(3))
  note IH = Cons.IH[OF _ new rest]
  have IH: "(\<forall>kp\<in>set kps. jx_LookupKeyID jx S' (kp_Kid kp) = jx_ParsePublic jx (kp_PublicPEM kp) \<and> jx_ParsePublic jx (kp_PublicPEM kp) \<noteq> None)
       \<and> (\<forall>kid. kid \<notin> kp_Kid ` set kps \<longrightarrow> jx_LookupKeyID jx S' kid = jx_LookupKeyID jx S1 kid)
       \<and> jx_Len jx S' = jx_Len jx S1 + length kps" by (rule IH) (use Cons.prems in simp)
  then have "jx_LookupKeyID jx S' (kp_Kid kp) = Some pub" using kid S1(3) by auto
  then show ?case using IH pub S1(2,3) by auto
qed simp

lemma keySet_loop_total:
  assumes "keySet_laws jx" "distinct (map kp_Kid kps)" "\<forall>kp\<in>set kps. jx_ParsePublic jx (kp_PublicPEM kp) \<noteq> None"
    "\<forall>kp\<in>set kps. jx_LookupKeyID jx S (kp_Kid kp) = None"
  shows "\<exists>S'. keySet_loop jx None kps S = Inr S'"
  using assms(2-)
proof (induction kps arbitrary: S)
  case (Cons kp kps)
  obtain pub where pub: "jx_ParsePublic jx (kp_PublicPEM kp) = Some pub" using Cons.prems by auto
  have "jx_LookupKeyID jx S (kp_Kid kp) = None" using Cons.prems by simp
  from keySet_addE[OF assms(1) this] obtain S1 where S1: "jx_AddKey jx S (kp_Kid kp) pub = Some S1"
    "\<And>k. jx_LookupKeyID jx S1 k = (if k = kp_Kid kp then Some pub else jx_LookupKeyID jx S k)" by metis
  have "kp_Kid x \<noteq> kp_Kid kp" if "x \<in> set kps" for x using Cons.prems(1) that by (metis distinct.simps(2) image_eqI list.set_map list.simps(9))
  then have "\<exists>S'. keySet_loop jx None kps S1 = Inr S'" using Cons.prems S1(2) by (intro Cons.IH) simp_all
  then show ?case using pub S1(1) by (simp add: publicKey_def)
qed simp

lemma keySet_loop_cong:
  assumes "\<And>kp. kp \<in> set kps \<Longrightarrow> publicKey jx prev kp = publicKey jx prev' kp"
  shows "keySet_loop jx prev kps S = keySet_loop jx prev' kps S"
  using assms by (induction kps arbitrary: S) (auto split: sum.splits option.splits)

text \<open>What is in the cache was built from keypairs of the universe.\<close>

definition verifier_ok :: "('key, 'pub, 'set, 'tok) Jwx \<Rightarrow> Keypair set \<Rightarrow> 'set Verifier \<Rightarrow> bool" where
  "verifier_ok jx U v = (case vf_parsed v of None \<Rightarrow> True
     | Some (kids, S) \<Rightarrow> \<exists>kps. set kps \<subseteq> U \<and> kids = map kp_Kid kps \<and> distinct kids \<and> keySet_loop jx None kps (jx_NewSet jx) = Inr S)"

lemma publicKey_cached:
  assumes "keySet_laws jx" "verifier_ok jx U v" "kid_names_key U" "kp \<in> U"
  shows "publicKey jx (vf_parsed v) kp = publicKey jx None kp"
proof (cases "vf_parsed v")
  case (Some c)
  obtain kids S where c: "c = (kids, S)" by (cases c)
  obtain kps where kps: "set kps \<subseteq> U" "kids = map kp_Kid kps" "distinct kids" "keySet_loop jx None kps (jx_NewSet jx) = Inr S"
    using assms(2) Some c unfolding verifier_ok_def by auto
  have look: "(\<forall>kp\<in>set kps. jx_LookupKeyID jx S (kp_Kid kp) = jx_ParsePublic jx (kp_PublicPEM kp) \<and> jx_ParsePublic jx (kp_PublicPEM kp) \<noteq> None)
       \<and> (\<forall>kid. kid \<notin> kp_Kid ` set kps \<longrightarrow> jx_LookupKeyID jx S kid = jx_LookupKeyID jx (jx_NewSet jx) kid)
       \<and> jx_Len jx S = jx_Len jx (jx_NewSet jx) + length kps"
    by (rule keySet_loop_lookup[OF assms(1) _ _ kps(4)]) (use kps keySet_newD[OF assms(1)] in simp_all)
  show ?thesis
  proof (cases "kp_Kid kp \<in> kp_Kid ` set kps")
    case True
    then obtain kp' where kp': "kp' \<in> set kps" "kp_Kid kp' = kp_Kid kp" by auto
    then have "kp_PublicPEM kp' = kp_PublicPEM kp" using assms(3,4) kps(1) unfolding kid_names_key_def by blast
    then show ?thesis using look kp' Some c by (auto simp: publicKey_def split: option.splits)
  next
    case False
    then have "jx_LookupKeyID jx S (kp_Kid kp) = None" using look keySet_newD[OF assms(1)] by metis
    then show ?thesis using Some c by (simp add: publicKey_def)
  qed
qed simp

lemma keySet_loop_kids:
  assumes "kid_names_key U" "set kps \<subseteq> U" "set kps' \<subseteq> U" "map kp_Kid kps = map kp_Kid kps'"
  shows "keySet_loop jx None kps S = keySet_loop jx None kps' S"
proof -
  have "list_all2 (\<lambda>a b. kp_Kid a = kp_Kid b) kps kps'"
    using assms(4) by (simp add: list_all2_conv_all_nth) (metis length_map nth_map)
  then show ?thesis using assms(2,3)
  proof (induction kps kps' arbitrary: S rule: list_all2_induct)
    case (Cons a as b bs)
    then have "kp_PublicPEM a = kp_PublicPEM b" using assms(1) unfolding kid_names_key_def by auto
    then have "publicKey jx None a = publicKey jx None b" using Cons.hyps by (simp add: publicKey_def split: option.splits)
    then show ?case using Cons by (auto split: sum.splits option.splits)
  qed simp
qed

lemma keySet_cached:
  assumes "keySet_laws jx" "verifier_ok jx U v" "kid_names_key U" "set kps \<subseteq> U" "distinct (map kp_Kid kps)"
  shows "fst (keySet jx v kps) = (case keySet_loop jx None kps (jx_NewSet jx) of Inl e \<Rightarrow> Inl e
           | Inr S \<Rightarrow> if kps = [] then Inl ErrNoVerificationKeys else Inr S) \<and>
         verifier_ok jx U (snd (keySet jx v kps))"
proof -
  have loop: "keySet_loop jx (vf_parsed v) kps S = keySet_loop jx None kps S" for S
    by (rule keySet_loop_cong, rule publicKey_cached[OF assms(1,2,3)]) (use assms(4) in blast)
  have len: "jx_Len jx S = length kps" if "keySet_loop jx None kps (jx_NewSet jx) = Inr S" for S
    using keySet_loop_lookup[OF assms(1,5) _ that] assms(1) by (simp add: keySet_laws_def)
  show ?thesis
  proof (cases "\<exists>S. vf_parsed v = Some (map kp_Kid kps, S)")
    case True
    then obtain S where S: "vf_parsed v = Some (map kp_Kid kps, S)" by blast
    then obtain kps' where "set kps' \<subseteq> U" "map kp_Kid kps = map kp_Kid kps'" "keySet_loop jx None kps' (jx_NewSet jx) = Inr S"
      using assms(2) unfolding verifier_ok_def by auto
    then have "keySet_loop jx None kps (jx_NewSet jx) = Inr S" using keySet_loop_kids[OF assms(3,4)] by metis
    then show ?thesis using S len assms(2) by (simp add: keySet_def sameKids_def)
  next
    case False
    have ok: "verifier_ok jx U (v\<lparr>vf_parsed := Some (map kp_Kid kps, S)\<rparr>)" if "keySet_loop jx None kps (jx_NewSet jx) = Inr S" for S
      using that assms(4,5) by (auto simp: verifier_ok_def)
    have "keySet jx v kps = (case keySet_loop jx None kps (jx_NewSet jx) of Inl e \<Rightarrow> (Inl e, v)
        | Inr S \<Rightarrow> (if jx_Len jx S = 0 then Inl ErrNoVerificationKeys else Inr S, v\<lparr>vf_parsed := Some (map kp_Kid kps, S)\<rparr>))"
      using False loop unfolding keySet_def by (auto simp: sameKids_def split: option.splits)
    then show ?thesis using ok len assms(2) by (auto split: sum.splits)
  qed
qed

text \<open>What \<^verbatim>\<open>Verify\<close> answers, without the cache.\<close>

definition verified :: "('key, 'pub, 'set, 'tok) Jwx \<Rightarrow> 'd DenylistChecker option \<Rightarrow> string \<Rightarrow> string \<Rightarrow> Keypair list \<Rightarrow> Time
    \<Rightarrow> 'tok \<Rightarrow> 'd \<Rightarrow> TokenError + Claims" where
  "verified jx denylist iss aud kps now raw d = (case keySet_loop jx None kps (jx_NewSet jx) of
     Inl e \<Rightarrow> Inl e
   | Inr S \<Rightarrow> if kps = [] then Inl ErrNoVerificationKeys
       else (case jx_Parse jx S (nonEmpty iss) (nonEmpty aud) now raw of None \<Rightarrow> Inl ErrVerifyToken
         | Some tok \<Rightarrow> (case jx_Header jx raw of None \<Rightarrow> Inl ErrTokenHeader
           | Some h \<Rightarrow> if jh_typ h \<noteq> AccessTokenType then Inl ErrNotAccessToken else fst (checkDenylist denylist d tok))))"

lemma published_ring:
  assumes "ringOf U k"
  shows "set (Published k now) \<subseteq> U" "distinct (map kp_Kid (Published k now))"
  using assms by (auto simp: ringOf_def Published_def distinct_map_filter)

lemma keySet_rest [simp]:
  "vf_issuer (snd (keySet jx v kps)) = vf_issuer v" "vf_audience (snd (keySet jx v kps)) = vf_audience v"
  by (auto simp: keySet_def split: option.splits sum.splits)

lemma Verify_state:
  "vf_keys v = Some k \<Longrightarrow> fst (snd (Verify jx denylist clk raw v d)) = snd (keySet jx v (Published k (clk 0)))"
  unfolding Verify_def by (auto split: sum.splits option.splits prod.splits)

lemma Verify_verified:
  assumes "keySet_laws jx" "verifier_ok jx U v" "kid_names_key U" "vf_keys v = Some k" "ringOf U k"
  shows "fst (Verify jx denylist clk raw v d) = verified jx denylist (vf_issuer v) (vf_audience v) (Published k (clk 0)) (clk 1) raw d"
proof -
  obtain r v' where ks: "keySet jx v (Published k (clk 0)) = (r, v')" by (cases "keySet jx v (Published k (clk 0))")
  have "r = (case keySet_loop jx None (Published k (clk 0)) (jx_NewSet jx) of Inl e \<Rightarrow> Inl e
           | Inr S \<Rightarrow> if Published k (clk 0) = [] then Inl ErrNoVerificationKeys else Inr S)"
    using keySet_cached[OF assms(1-3) published_ring[OF assms(5), of "clk 0"]] ks by simp
  then show ?thesis using ks assms(4)
    by (auto simp: Verify_def verified_def split: sum.splits option.splits if_splits prod.splits)
qed

text \<open>A run of verifications, each over the key ring of its moment.\<close>

fun verifies :: "('key, 'pub, 'set, 'tok) Jwx \<Rightarrow> 'd DenylistChecker option \<Rightarrow> (Keys \<times> (nat \<Rightarrow> Time) \<times> 'tok) list
    \<Rightarrow> 'set Verifier \<Rightarrow> 'd \<Rightarrow> 'set Verifier \<times> 'd" where
  "verifies jx denylist [] v d = (v, d)"
| "verifies jx denylist ((k, clk, raw) # reqs) v d =
     (case Verify jx denylist clk raw (v\<lparr>vf_keys := Some k\<rparr>) d of (_, v', d') \<Rightarrow> verifies jx denylist reqs v' d')"

lemma verifier_ok_keys [simp]: "verifier_ok jx U (v\<lparr>vf_keys := k\<rparr>) = verifier_ok jx U v"
  by (simp add: verifier_ok_def)

lemma verifies_keep:
  assumes "keySet_laws jx" "kid_names_key U" "verifier_ok jx U v" "\<forall>k\<in>fst ` set reqs. ringOf U k"
    "verifies jx denylist reqs v d = (v', d')"
  shows "verifier_ok jx U v' \<and> vf_issuer v' = vf_issuer v \<and> vf_audience v' = vf_audience v"
  using assms(3-)
proof (induction reqs arbitrary: v d)
  case (Cons q reqs)
  obtain k clk raw where q: "q = (k, clk, raw)" by (cases q)
  let ?v = "v\<lparr>vf_keys := Some k\<rparr>"
  obtain r v1 d1 where V: "Verify jx denylist clk raw ?v d = (r, v1, d1)" by (cases "Verify jx denylist clk raw ?v d")
  have v1: "v1 = snd (keySet jx ?v (Published k (clk 0)))" using Verify_state[of ?v k jx denylist clk raw d] V by simp
  have ring: "ringOf U k" using Cons.prems q by simp
  have "verifier_ok jx U v1"
    using keySet_cached[OF assms(1) _ assms(2) published_ring[OF ring], of ?v "clk 0"] Cons.prems(1) v1 by simp
  moreover have "verifies jx denylist reqs v1 d1 = (v', d')" using Cons.prems q V by simp
  ultimately show ?case using Cons.IH[of v1 d1] Cons.prems(2) v1 by simp
qed simp

subsection \<open>A JOSE library\<close>

text \<open>
  An instance of the library parameter that satisfies what is relied on: PEM blocks are keys, a signed
  token lists its key, header and claims, and a key set is an association list.
\<close>

definition plainJwx :: "(string, string, (string \<times> string) list, string \<times> JwsHeader \<times> Claims) Jwx" where
  "plainJwx = \<lparr>jx_ParsePrivate = Some, jx_Sign = (\<lambda>sk h c. Some (sk, h, c)), jx_ParsePublic = Some, jx_NewSet = [],
     jx_AddKey = (\<lambda>S kid pub. if kid \<in> fst ` set S then None else Some ((kid, pub) # S)), jx_Len = length,
     jx_LookupKeyID = map_of,
     jx_Parse = (\<lambda>S iss aud now (sk, h, c). if map_of S (jh_kid h) = Some sk \<and> claimsInForce c iss aud now then Some c else None),
     jx_Header = (\<lambda>(sk, h, c). Some h)\<rparr>"

lemma plainJwx_simps [simp]:
  "jx_ParsePrivate plainJwx p = Some p" "jx_Sign plainJwx p h c = Some (p, h, c)" "jx_ParsePublic plainJwx p = Some p"
  "jx_NewSet plainJwx = []" "jx_Len plainJwx = length" "jx_LookupKeyID plainJwx = map_of" "jx_Header plainJwx (p, h, c) = Some h"
  "jx_AddKey plainJwx S kid pub = (if kid \<in> fst ` set S then None else Some ((kid, pub) # S))"
  "jx_Parse plainJwx S iss aud now (p, h, c) = (if map_of S (jh_kid h) = Some p \<and> claimsInForce c iss aud now then Some c else None)"
  by (simp_all add: plainJwx_def)

lemma plainJwx_laws: "keySet_laws plainJwx" "header_law plainJwx" "kid_law plainJwx"
  "kp_PrivatePEM kp = kp_PublicPEM kp \<Longrightarrow> signature_law plainJwx kp"
  by (auto simp: keySet_laws_def header_law_def kid_law_def signature_law_def map_of_eq_None_iff
      dest: map_of_SomeD split: if_splits) (metis fst_conv image_eqI map_of_SomeD)

definition plainKey :: "string \<Rightarrow> Time \<Rightarrow> Keypair" where
  "plainKey kid t = \<lparr>kp_Kid = kid, kp_Alg = AlgRS256, kp_PrivatePEM = kid, kp_PublicPEM = kid, kp_CreatedAt = t, kp_RetiredAt = None\<rparr>"

definition plainRing :: Keys where
  "plainRing = newKeys\<lparr>k_keypairs := [plainKey ''k1'' 0, plainKey ''k2'' Second]\<rparr>"

definition plainReq :: MintRequest where
  "plainReq = \<lparr>mr_Subject = ''google:1'', mr_Permissions = [''orders:write''], mr_TTL = Hour, mr_Email = ''a@x'',
     mr_IDP = ''google'', mr_ClientID = ''ui''\<rparr>"

definition plainIDReq :: IDTokenRequest where
  "plainIDReq = \<lparr>it_Subject = ''google:1'', it_Email = ''a@x'', it_IDP = ''google'', it_Audience = ''ui'', it_Nonce = ''n'',
     it_AuthTime = Second, it_TTL = Minute\<rparr>"

definition plainClaims :: Claims where
  "plainClaims = \<lparr>cl_sub = ''google:1'', cl_iss = Some ''iss'', cl_aud = [''temporal''], cl_iat = 3600, cl_nbf = 3600,
     cl_exp = Some 7200, cl_jti = Some ''j1'', cl_permissions = Some [''orders:write''], cl_email = Some ''a@x'',
     cl_email_verified = None, cl_idp = Some ''google'', cl_client_id = Some ''ui'', cl_nonce = None, cl_auth_time = None\<rparr>"

definition plainTok :: "string \<times> JwsHeader \<times> Claims" where
  "plainTok = (''k2'', \<lparr>jh_kid = ''k2'', jh_typ = AccessTokenType\<rparr>, plainClaims)"

definition plainDenylist :: "string list DenylistChecker" where
  "plainDenylist d jti = (Inr (jti \<in> set d), d)"

lemma plain_accepts:
  "fst (Verify plainJwx (Some plainDenylist) (\<lambda>_. Hour + Minute) plainTok (NewVerifier (Some plainRing) ''iss'' ''temporal'') [''j0'']) = Inr plainClaims"
  by (simp add: Verify_def keySet_def NewVerifier_def Published_def plainRing_def newKeys_def plainKey_def publicKey_def
      plainTok_def plainClaims_def claimsInForce_def nonEmpty_def checkDenylist_def plainDenylist_def Unix_def Hour_def
      Minute_def Second_def)

lemma plainRing_ring: "kid_names_key (set (k_keypairs plainRing))" "ringOf (set (k_keypairs plainRing)) plainRing"
  by (auto simp: kid_names_key_def ringOf_def plainRing_def plainKey_def newKeys_def)

section \<open>Properties\<close>

text \<open>
  The signer's memo of the last parsed key is invisible. After any run of mints over any key rings
  (rotations, retirements and reloads between them), an access token and an ID token are exactly what a
  signer with an empty memo would mint, so a rotation takes effect on the next mint.
\<close>

theorem signer_cache_transparent:
  fixes jx :: "('key, 'pub, 'set, 'tok) Jwx"
  assumes "kid_names_key U" "ringOf U k" "\<forall>r\<in>fst ` set reqs. ringOf U r"
    "s = mints jx reqs (NewSigner k0 iss aud)"
  shows "fst (Mint jx (s\<lparr>sg_keys := Some k\<rparr>) uuid clk req) = fst (Mint jx (NewSigner (Some k) iss aud) uuid clk req) \<and>
    fst (MintIDToken jx (s\<lparr>sg_keys := Some k\<rparr>) uuid clk ireq) = fst (MintIDToken jx (NewSigner (Some k) iss aud) uuid clk ireq)"
proof -
  let ?s = "s\<lparr>sg_keys := Some k\<rparr>" and ?n = "NewSigner (Some k) iss aud :: 'key Signer"
  have new: "signer_ok jx U (NewSigner k' iss aud)" for k' by (simp add: signer_ok_def NewSigner_def)
  have ok: "signer_ok jx U ?s" "sg_issuer ?s = iss" "sg_audience ?s = aud"
    using mints_keep[OF new assms(3), of k0] assms(4) by (simp_all add: NewSigner_def)
  have b: "builder ?s = builder ?n" by (rule builder_keys) (simp_all add: ok[simplified] NewSigner_def)
  have k: "sg_keys ?s = Some k" "sg_keys ?n = Some k" and a: "sg_audience ?s = sg_audience ?n"
    using ok(3) by (simp_all add: NewSigner_def)
  show ?thesis
    unfolding Mint_spec[OF ok(1) assms(1) k(1) assms(2)] Mint_spec[OF new assms(1) k(2) assms(2)]
      MintIDToken_spec[OF ok(1) assms(1) k(1) assms(2)] MintIDToken_spec[OF new assms(1) k(2) assms(2)] a b
    by simp
qed

theorem signer_cache_transparent_witness:
  "fst (Mint plainJwx (mints plainJwx [(plainRing, Some ''j0'', \<lambda>_. Hour, Inl plainReq)] (NewSigner None ''iss'' ''temporal'')
      \<lparr>sg_keys := Some plainRing\<rparr>) (Some ''j1'') (\<lambda>_. 2 * Hour) plainReq)
     = fst (Mint plainJwx (NewSigner (Some plainRing) ''iss'' ''temporal'') (Some ''j1'') (\<lambda>_. 2 * Hour) plainReq) \<and>
   fst (MintIDToken plainJwx (mints plainJwx [(plainRing, Some ''j0'', \<lambda>_. Hour, Inl plainReq)] (NewSigner None ''iss'' ''temporal'')
      \<lparr>sg_keys := Some plainRing\<rparr>) (Some ''j1'') (\<lambda>_. 2 * Hour) plainIDReq)
     = fst (MintIDToken plainJwx (NewSigner (Some plainRing) ''iss'' ''temporal'') (Some ''j1'') (\<lambda>_. 2 * Hour) plainIDReq)"
  by (rule signer_cache_transparent[OF plainRing_ring _ refl]) (simp add: plainRing_ring)

text \<open>
  C10. What a verifier accepts, after any run of verifications over any key rings: the token carries the
  access-token type, its kid is one the key ring publishes now (not retired, or within its grace), the
  claims are those the library verified, and the denylist does not report its jti revoked. The answer is
  that of a verifier with an empty key-set memo, so a kid past its grace is never served from the memo.
\<close>

theorem Verify_accepts_only:
  assumes "keySet_laws jx" "kid_law jx" "kid_names_key U" "ringOf U k" "\<forall>r\<in>fst ` set reqs. ringOf U r"
    "verifies jx denylist reqs (NewVerifier k0 iss aud) d0 = (v, d)"
  shows "fst (Verify jx denylist clk raw (v\<lparr>vf_keys := Some k\<rparr>) d) = fst (Verify jx denylist clk raw (NewVerifier (Some k) iss aud) d) \<and>
    (\<forall>c. fst (Verify jx denylist clk raw (v\<lparr>vf_keys := Some k\<rparr>) d) = Inr c \<longrightarrow>
      (\<exists>h kp. jx_Header jx raw = Some h \<and> jh_typ h = AccessTokenType \<and> kp \<in> set (k_keypairs k) \<and> kp_Kid kp = jh_kid h \<and>
        (case kp_RetiredAt kp of None \<Rightarrow> True | Some t \<Rightarrow> clk 0 < t + k_grace k) \<and>
        (\<forall>isRevoked jti. denylist = Some isRevoked \<longrightarrow> cl_jti c = Some jti \<longrightarrow> jti \<noteq> [] \<longrightarrow> fst (isRevoked d jti) = Inr False)))"
proof -
  let ?v = "v\<lparr>vf_keys := Some k\<rparr>" and ?kps = "Published k (clk 0)"
  have new: "verifier_ok jx U (NewVerifier k' iss aud)" for k' by (simp add: verifier_ok_def NewVerifier_def)
  have ok: "verifier_ok jx U ?v" "vf_issuer ?v = iss" "vf_audience ?v = aud"
    using verifies_keep[OF assms(1,3) new assms(5,6)] by (simp_all add: NewVerifier_def)
  have V: "fst (Verify jx denylist clk raw ?v d) = verified jx denylist iss aud ?kps (clk 1) raw d"
    using Verify_verified[OF assms(1) ok(1) assms(3) _ assms(4), of denylist clk raw d] ok by simp
  have "fst (Verify jx denylist clk raw (NewVerifier (Some k) iss aud) d) = verified jx denylist iss aud ?kps (clk 1) raw d"
    using Verify_verified[OF assms(1) new assms(3) _ assms(4), of "Some k" denylist clk raw d] by (simp add: NewVerifier_def)
  moreover have "\<exists>h kp. jx_Header jx raw = Some h \<and> jh_typ h = AccessTokenType \<and> kp \<in> set ?kps \<and> kp_Kid kp = jh_kid h \<and>
      fst (checkDenylist denylist d c) = Inr c" if v: "verified jx denylist iss aud ?kps (clk 1) raw d = Inr c" for c
  proof -
    obtain S c' h where S: "keySet_loop jx None ?kps (jx_NewSet jx) = Inr S"
      and P: "jx_Parse jx S (nonEmpty iss) (nonEmpty aud) (clk 1) raw = Some c'" and h: "jx_Header jx raw = Some h"
      and t: "jh_typ h = AccessTokenType" and c: "fst (checkDenylist denylist d c') = Inr c"
      using v by (auto simp: verified_def split: sum.splits if_splits option.splits)
    have "c = c'" using c by (auto simp: checkDenylist_def split: option.splits if_splits sum.splits prod.splits)
    have "jx_LookupKeyID jx S (jh_kid h) \<noteq> None" using assms(2) P h unfolding kid_law_def by blast
    then have "jh_kid h \<in> kp_Kid ` set ?kps"
      using keySet_loop_lookup[OF assms(1) published_ring(2)[OF assms(4)] _ S] keySet_newD[OF assms(1)] by metis
    then show ?thesis using h t c \<open>c = c'\<close> by auto
  qed
  ultimately show ?thesis unfolding V
    by (fastforce simp: Published_def checkDenylist_def split: prod.splits sum.splits if_splits)
qed

theorem Verify_accepts_only_witness:
  "let v = fst (verifies plainJwx (Some plainDenylist) [(plainRing, \<lambda>_. Hour, plainTok)] (NewVerifier None ''iss'' ''temporal'') [''j0'']) in
   fst (Verify plainJwx (Some plainDenylist) (\<lambda>_. Hour + Minute) plainTok (v\<lparr>vf_keys := Some plainRing\<rparr>) [''j0'']) = Inr plainClaims \<and>
   jh_typ (fst (snd plainTok)) = AccessTokenType \<and> (\<exists>kp\<in>set (k_keypairs plainRing). kp_Kid kp = jh_kid (fst (snd plainTok))) \<and>
   fst (plainDenylist [''j0''] ''j1'') = Inr False"
proof -
  let ?r = "[(plainRing, \<lambda>_::nat. Hour, plainTok)]"
  obtain v d where v: "verifies plainJwx (Some plainDenylist) ?r (NewVerifier None ''iss'' ''temporal'') [''j0''] = (v, d)"
    by (cases "verifies plainJwx (Some plainDenylist) ?r (NewVerifier None ''iss'' ''temporal'') [''j0'']")
  have d: "d = [''j0'']"
    using v by (auto simp: Verify_def checkDenylist_def plainDenylist_def split: sum.splits option.splits prod.splits if_splits)
  have c: "cl_jti plainClaims = Some ''j1''" by (simp add: plainClaims_def)
  have h: "jx_Header plainJwx plainTok = Some (fst (snd plainTok))" by (simp add: plainTok_def)
  have "\<forall>r\<in>fst ` set ?r. ringOf (set (k_keypairs plainRing)) r" by (simp add: plainRing_ring)
  from Verify_accepts_only[OF plainJwx_laws(1,3) plainRing_ring this v, of "\<lambda>_. Hour + Minute" plainTok]
  show ?thesis using plain_accepts c h unfolding v d by (fastforce simp: Let_def)
qed

text \<open>
  C17. A minted access token verifies. If the key that signed it is published to a verifier with the
  signer's issuer and audience, then until the second its TTL ends, and unless the denylist reports its
  jti, the verifier returns a token with the requested subject, permissions and client and the jti
  \<^verbatim>\<open>Mint\<close> returned.
\<close>

theorem minted_token_verifies:
  fixes jx :: "('key, 'pub, 'set, 'tok) Jwx"
  assumes "keySet_laws jx" "header_law jx" "kid_names_key U" "ringOf U k" "ringOf U k'"
    and kp: "Latest k (clk 1) = Inr kp" "signature_law jx kp" "kp \<in> set (Published k' (clk' 0))"
    and pub: "\<forall>x\<in>set (Published k' (clk' 0)). jx_ParsePublic jx (kp_PublicPEM x) \<noteq> None"
    and mint: "fst (Mint jx (NewSigner (Some k) iss aud) uuid clk req) = Inr (tok, jti)"
    and time: "0 < mr_TTL req" "clk 0 \<le> clk' 1" "Unix (clk' 1) < Unix (clk 0 + mr_TTL req)"
    and den: "\<forall>isRevoked. denylist = Some isRevoked \<longrightarrow> fst (isRevoked d jti) = Inr False"
  shows "\<exists>c. fst (Verify jx denylist clk' tok (NewVerifier (Some k') iss aud) d) = Inr c \<and> cl_sub c = mr_Subject req \<and>
    cl_permissions c = Some (mr_Permissions req) \<and> cl_jti c = Some jti \<and> cl_client_id c = nonEmpty (mr_ClientID req)"
proof -
  let ?s = "NewSigner (Some k) iss aud :: 'key Signer" and ?v = "NewVerifier (Some k') iss aud :: 'set Verifier"
  let ?kps = "Published k' (clk' 0)"
  obtain sk pk where sk: "jx_ParsePrivate jx (kp_PrivatePEM kp) = Some sk" and pk: "jx_ParsePublic jx (kp_PublicPEM kp) = Some pk"
    and sig: "\<And>h c tok S iss aud now. jx_Sign jx sk h c = Some tok \<Longrightarrow> jx_LookupKeyID jx S (jh_kid h) = Some pk \<Longrightarrow>
        claimsInForce c iss aud now \<Longrightarrow> jx_Parse jx S iss aud now tok = Some c"
    using kp(2) unfolding signature_law_def by blast
  have ok: "signer_ok jx U ?s" "sg_keys ?s = Some k" "sg_audience ?s = aud" by (simp_all add: signer_ok_def NewSigner_def)
  obtain c0 where c0: "builder ?s uuid (clk 0) (mr_Subject req) (mr_TTL req) = Inr (c0, jti)"
    and signed: "signed_by jx k (clk 1) (accessClaims aud req c0) AccessTokenType = Inr tok"
    using mint unfolding Mint_spec[OF ok(1) assms(3) ok(2) assms(4)] ok(3) by (auto split: sum.splits)
  define c where "c = accessClaims aud req c0"
  define h where "h = \<lparr>jh_kid = kp_Kid kp, jh_typ = AccessTokenType\<rparr>"
  have tok: "jx_Sign jx sk h c = Some tok"
    using signed kp(1) sk unfolding signed_by_def c_def h_def by (auto split: option.splits)
  obtain S where S: "keySet_loop jx None ?kps (jx_NewSet jx) = Inr S"
    using keySet_loop_total[OF assms(1) published_ring(2)[OF assms(5)] pub] keySet_newD[OF assms(1)] by blast
  have "jx_LookupKeyID jx S (jh_kid h) = Some pk"
    using keySet_loop_lookup[OF assms(1) published_ring(2)[OF assms(5)] _ S] keySet_newD[OF assms(1)] kp(3) pk by (auto simp: h_def)
  moreover have "claimsInForce c (nonEmpty iss) (nonEmpty aud) (clk' 1)"
    using c0 time Unix_mono[OF time(2)]
    by (auto simp: c_def accessClaims_def builder_def NewSigner_def claimsInForce_def nonEmpty_def Let_def split: option.splits if_splits)
  ultimately have P: "jx_Parse jx S (nonEmpty iss) (nonEmpty aud) (clk' 1) tok = Some c" using sig tok by blast
  have H: "jx_Header jx tok = Some h" using assms(2) tok unfolding header_law_def by blast
  have c: "cl_sub c = mr_Subject req" "cl_permissions c = Some (mr_Permissions req)" "cl_jti c = Some jti" "cl_client_id c = nonEmpty (mr_ClientID req)"
    using c0 by (auto simp: c_def accessClaims_def builder_def NewSigner_def Let_def split: option.splits)
  have "fst (checkDenylist denylist d c) = Inr c"
    using den c(3) by (fastforce simp: checkDenylist_def split: option.splits sum.splits prod.splits)
  then have "verified jx denylist iss aud ?kps (clk' 1) tok d = Inr c"
    using S P H kp(3) by (auto simp: verified_def h_def)
  then show ?thesis
    using Verify_verified[OF assms(1) _ assms(3) _ assms(5), of ?v denylist clk' tok d] c
    by (simp add: verifier_ok_def NewVerifier_def)
qed

theorem minted_token_verifies_witness:
  "\<exists>c. fst (Verify plainJwx (Some plainDenylist) (\<lambda>_. Hour + Minute) plainTok (NewVerifier (Some plainRing) ''iss'' ''temporal'') [''j0'']) = Inr c \<and>
     cl_sub c = mr_Subject plainReq \<and> cl_permissions c = Some (mr_Permissions plainReq) \<and> cl_jti c = Some ''j1'' \<and>
     cl_client_id c = nonEmpty (mr_ClientID plainReq)"
proof (rule minted_token_verifies[OF plainJwx_laws(1,2) plainRing_ring(1) plainRing_ring(2) plainRing_ring(2)])
  show "Latest plainRing ((\<lambda>_. Hour) 1) = Inr (plainKey ''k2'' Second)"
    by (simp add: Latest_def Signing_def plainRing_def newKeys_def plainKey_def Retired_def DefaultPublishDelay_def Hour_def Minute_def Second_def)
  show "signature_law plainJwx (plainKey ''k2'' Second)" by (rule plainJwx_laws) (simp add: plainKey_def)
  show "fst (Mint plainJwx (NewSigner (Some plainRing) ''iss'' ''temporal'') (Some ''j1'') (\<lambda>_. Hour) plainReq) = Inr (plainTok, ''j1'')"
    by (simp add: Mint_def builder_def NewSigner_def sign_def Latest_def Signing_def signingKey_def plainRing_def newKeys_def plainKey_def
        Retired_def DefaultPublishDelay_def plainReq_def plainTok_def plainClaims_def accessClaims_def nonEmpty_def Unix_def
        Hour_def Minute_def Second_def)
qed (simp_all add: plainReq_def plainDenylist_def Published_def plainRing_def newKeys_def plainKey_def Unix_def Hour_def Minute_def Second_def)

text \<open>
  C18. An ID token is no credential. Whatever a signer mints as an ID token, no verifier accepts it, in
  any state, with any keys, issuer, audience and denylist, at any time: its type is not that of an access
  token. The claims it was signed with carry no permissions, and their audience is the client alone.
\<close>

theorem id_token_no_credential:
  assumes "header_law jx" "fst (MintIDToken jx s uuid clk req) = Inr tok"
  shows "(\<forall>denylist clk' v d c. fst (Verify jx denylist clk' tok v d) \<noteq> Inr c) \<and>
    (\<exists>sk h c. jx_Sign jx sk h c = Some tok \<and> cl_permissions c = None \<and> cl_aud c = [it_Audience req])"
proof -
  obtain b jti s' where b: "builder s uuid (clk 0) (it_Subject req) (it_TTL req) = Inr (b, jti)"
    and "sign jx s (clk 1) (idClaims req b) idTokenType = (Inr tok, s')"
    using assms(2) by (cases "sign jx s (clk 1) (idClaims req (fst (projr (builder s uuid (clk 0) (it_Subject req) (it_TTL req))))) idTokenType")
      (auto simp: MintIDToken_def split: if_splits sum.splits)
  then obtain sk kid where tok: "jx_Sign jx sk \<lparr>jh_kid = kid, jh_typ = idTokenType\<rparr> (idClaims req b) = Some tok"
    by (auto simp: sign_def split: option.splits sum.splits prod.splits)
  then have "jx_Header jx tok = Some \<lparr>jh_kid = kid, jh_typ = idTokenType\<rparr>" using assms(1) unfolding header_law_def by blast
  then have "fst (Verify jx denylist clk' tok v d) \<noteq> Inr c" for denylist clk' v d c
    by (auto simp: Verify_def idTokenType_def AccessTokenType_def split: option.splits sum.splits prod.splits)
  moreover have "cl_permissions (idClaims req b) = None" "cl_aud (idClaims req b) = [it_Audience req]"
    using b by (auto simp: builder_def idClaims_def Let_def split: if_splits option.splits)
  ultimately show ?thesis using tok by blast
qed

theorem id_token_no_credential_witness:
  "let tok = projr (fst (MintIDToken plainJwx (NewSigner (Some plainRing) ''iss'' ''temporal'') (Some ''j1'') (\<lambda>_. Hour) plainIDReq)) in
   fst (MintIDToken plainJwx (NewSigner (Some plainRing) ''iss'' ''temporal'') (Some ''j1'') (\<lambda>_. Hour) plainIDReq) = Inr tok \<and>
   fst (Verify plainJwx (Some plainDenylist) (\<lambda>_. Hour) tok (NewVerifier (Some plainRing) ''iss'' ''ui'') []) \<noteq> Inr (snd (snd tok))"
proof -
  define r where "r = fst (MintIDToken plainJwx (NewSigner (Some plainRing) ''iss'' ''temporal'') (Some ''j1'') (\<lambda>_. Hour) plainIDReq)"
  have r: "r = Inr (projr r)"
    unfolding r_def by (simp add: MintIDToken_def plainIDReq_def builder_def NewSigner_def sign_def Latest_def Signing_def signingKey_def
        plainRing_def newKeys_def plainKey_def Retired_def DefaultPublishDelay_def Hour_def Minute_def Second_def)
  then show ?thesis
    using id_token_no_credential[OF plainJwx_laws(2) r[unfolded r_def], THEN conjunct1, rule_format, of "Some plainDenylist"] unfolding r_def[symmetric] Let_def by blast
qed

end
