(* ===== verification/Denylist.thy ===== *)
theory Denylist
  imports Signer
begin

text \<open>
  The verifier's cache over the revocation list (src/keys/denylist_cache.go). \<^verbatim>\<open>IsRevoked\<close> is the method as
  one call; because it drops its lock around the lookup, the calls of several goroutines and the admin
  handler's \<^verbatim>\<open>Hydrate\<close> interleave, and \<^verbatim>\<open>dl_step\<close> is the transition relation of that: a lookup that
  missed is in flight between reading the store and memoizing the answer.
\<close>

section \<open>The cache\<close>

record cacheEntry =
  ce_revoked :: bool
  ce_expires :: Time

record DenylistCache =
  dl_ttl :: Duration
  dl_maxEntries :: nat
  dl_entries :: "(string \<times> cacheEntry) list"
  dl_nextSweep :: Time

definition DefaultDenylistTTL :: Duration where "DefaultDenylistTTL = 30 * Second"
definition DefaultDenylistMaxEntries :: nat where "DefaultDenylistMaxEntries = 100000"

definition NewDenylistCache :: "Duration \<Rightarrow> nat \<Rightarrow> DenylistCache" where
  "NewDenylistCache ttl maxEntries = \<lparr>dl_ttl = ttl, dl_maxEntries = (if 0 < maxEntries then maxEntries else DefaultDenylistMaxEntries),
     dl_entries = [], dl_nextSweep = zeroTime\<rparr>"

text \<open>The entries in the order one iteration visits them; the victim found so far is the second argument.\<close>

fun evictOne_loop :: "(string \<times> cacheEntry) list \<Rightarrow> string \<Rightarrow> string" where
  "evictOne_loop [] victim = victim"
| "evictOne_loop ((k, e) # es) victim =
     (if \<not> ce_revoked e then k else evictOne_loop es (if victim = [] then k else victim))"

definition evictOne :: "(string \<times> cacheEntry) list \<Rightarrow> (string \<times> cacheEntry) list" where
  "evictOne entries = AList.delete (evictOne_loop entries []) entries"

definition cacheStore :: "Time \<Rightarrow> string \<Rightarrow> bool \<Rightarrow> DenylistCache \<Rightarrow> DenylistCache" where
  "cacheStore now jti revoked c =
     (let c = (if \<not> now < dl_nextSweep c
               then c\<lparr>dl_entries := filter (\<lambda>(k, e). \<not> \<not> now < ce_expires e) (dl_entries c), dl_nextSweep := now + dl_ttl c\<rparr> else c);
          c = (if map_of (dl_entries c) jti = None \<and> dl_maxEntries c \<le> length (dl_entries c)
               then c\<lparr>dl_entries := evictOne (dl_entries c)\<rparr> else c)
      in c\<lparr>dl_entries := AList.update jti \<lparr>ce_revoked = revoked, ce_expires = now + dl_ttl c\<rparr> (dl_entries c)\<rparr>)"

definition cacheHit :: "DenylistCache \<Rightarrow> Time \<Rightarrow> string \<Rightarrow> bool option" where
  "cacheHit c now jti = (case map_of (dl_entries c) jti of None \<Rightarrow> None
     | Some e \<Rightarrow> if now < ce_expires e then Some (ce_revoked e) else None)"

definition IsRevoked :: "'d DenylistChecker option \<Rightarrow> (nat \<Rightarrow> Time) \<Rightarrow> DenylistCache \<times> 'd \<Rightarrow> string
    \<Rightarrow> (StoreError + bool) \<times> DenylistCache \<times> 'd" where
  "IsRevoked checker clk cd jti = (case cd of (c, d) \<Rightarrow>
     (case cacheHit c (clk 0) jti of
        Some revoked \<Rightarrow> (Inr revoked, c, d)
      | None \<Rightarrow> (case checker of None \<Rightarrow> (Inr False, c, d)
          | Some isRevoked \<Rightarrow> (case isRevoked d jti of
              (Inl e, d') \<Rightarrow> (Inl e, c, d')
            | (Inr revoked, d') \<Rightarrow> (Inr revoked, cacheStore (clk 1) jti revoked c, d')))))"

definition Hydrate :: "Time \<Rightarrow> string \<Rightarrow> DenylistCache \<Rightarrow> DenylistCache" where
  "Hydrate now jti c = (if jti = [] then c else cacheStore now jti True c)"

section \<open>Interleavings\<close>

text \<open>
  The store is the time at which each jti was revoked. A lookup in flight is the jti, the answer it read
  and when it read it. The relation assumes a bound \<^verbatim>\<open>L\<close> on the time from reading the store to
  memoizing the answer; the clock is read between the two.
\<close>

record DlSys =
  sy_cache :: DenylistCache
  sy_db :: "string \<Rightarrow> Time option"
  sy_flight :: "(string \<times> bool \<times> Time) list"
  sy_now :: Time

definition dbChecker :: "(string \<Rightarrow> Time option) DenylistChecker" where
  "dbChecker db jti = (Inr (db jti \<noteq> None), db)"

inductive dl_step :: "Duration \<Rightarrow> DlSys \<Rightarrow> DlSys \<Rightarrow> bool" for L :: Duration where
  tick: "sy_now s \<le> now \<Longrightarrow> \<forall>(j, b, r) \<in> set (sy_flight s). now \<le> r + L \<Longrightarrow> dl_step L s (s\<lparr>sy_now := now\<rparr>)"
| revoke: "sy_db s jti = None \<Longrightarrow> dl_step L s (s\<lparr>sy_db := (sy_db s)(jti \<mapsto> sy_now s)\<rparr>)"
| lookup: "cacheHit (sy_cache s) (sy_now s) jti = None \<Longrightarrow>
    dl_step L s (s\<lparr>sy_flight := (jti, sy_db s jti \<noteq> None, sy_now s) # sy_flight s\<rparr>)"
| memoize: "(jti, b, r) \<in> set (sy_flight s) \<Longrightarrow> r \<le> t \<Longrightarrow> t \<le> sy_now s \<Longrightarrow>
    dl_step L s (s\<lparr>sy_flight := remove1 (jti, b, r) (sy_flight s), sy_cache := cacheStore t jti b (sy_cache s)\<rparr>)"
| hydrate: "sy_db s jti \<noteq> None \<Longrightarrow> t \<le> sy_now s \<Longrightarrow> dl_step L s (s\<lparr>sy_cache := Hydrate t jti (sy_cache s)\<rparr>)"

definition dlInit :: "Duration \<Rightarrow> nat \<Rightarrow> Time \<Rightarrow> DlSys" where
  "dlInit ttl maxEntries now = \<lparr>sy_cache = NewDenylistCache ttl maxEntries, sy_db = (\<lambda>_. None), sy_flight = [], sy_now = now\<rparr>"

section \<open>Lemmas\<close>

lemma evictOne_loop_key:
  "entries \<noteq> [] \<Longrightarrow> evictOne_loop entries victim \<in> fst ` set entries \<or> (evictOne_loop entries victim = victim \<and> victim \<noteq> [])"
proof (induction entries arbitrary: victim)
  case (Cons p es)
  obtain k e where p: "p = (k, e)" by (cases p)
  show ?case
  proof (cases "es = []")
    case False
    then show ?thesis using Cons.IH[of "if victim = [] then k else victim"] p by (auto split: if_splits)
  qed (auto simp: p)
qed simp

lemma evictOne_length:
  assumes "entries \<noteq> []" "distinct (map fst entries)"
  shows "length (evictOne entries) < length entries"
proof -
  have "evictOne_loop entries [] \<in> fst ` set entries" using evictOne_loop_key[OF assms(1), of "[]"] by auto
  then obtain e where "(evictOne_loop entries [], e) \<in> set entries" by auto
  then show ?thesis unfolding evictOne_def AList.delete_eq by (rule length_filter_less) simp
qed

lemma update_length: "length (AList.update k v al) = (if k \<in> fst ` set al then length al else Suc (length al))"
  by (induction al) auto

text \<open>Evicting prefers an entry that is not a revocation.\<close>

lemma evictOne_loop_active:
  "\<exists>k e. (k, e) \<in> set entries \<and> \<not> ce_revoked e \<Longrightarrow> \<exists>e. (evictOne_loop entries victim, e) \<in> set entries \<and> \<not> ce_revoked e"
  by (induction entries arbitrary: victim) fastforce+

lemma evictOne_entries: "set (evictOne entries) \<subseteq> set entries"
  by (auto simp: evictOne_def AList.delete_eq)

text \<open>The invariant of the cache alone, and what storing adds.\<close>

definition dl_wf :: "DenylistCache \<Rightarrow> bool" where
  "dl_wf c = (distinct (map fst (dl_entries c)) \<and> 0 < dl_maxEntries c \<and> length (dl_entries c) \<le> dl_maxEntries c)"

lemma cacheStore_wf:
  assumes "dl_wf c"
  shows "dl_wf (cacheStore now jti b c) \<and> dl_ttl (cacheStore now jti b c) = dl_ttl c"
proof -
  let ?f = "filter (\<lambda>(k, e). \<not> \<not> now < ce_expires e) (dl_entries c)"
  define es where "es = (if \<not> now < dl_nextSweep c then ?f else dl_entries c)"
  define es' where "es' = (if map_of es jti = None \<and> dl_maxEntries c \<le> length es then evictOne es else es)"
  have es: "distinct (map fst es)" "length es \<le> dl_maxEntries c"
    using assms unfolding es_def dl_wf_def by (auto simp: distinct_map_filter intro: order_trans[OF length_filter_le])
  have es': "distinct (map fst es') \<and> length es' \<le> dl_maxEntries c \<and> (jti \<notin> fst ` set es' \<longrightarrow> length es' < dl_maxEntries c)"
  proof (cases "map_of es jti = None \<and> dl_maxEntries c \<le> length es")
    case True
    then have "es' = evictOne es" "es \<noteq> []" using assms by (auto simp: es'_def dl_wf_def)
    then show ?thesis using evictOne_length[of es] es by (simp add: evictOne_def AList.delete_eq distinct_map_filter)
  next
    case False
    then have "es' = es" by (simp only: es'_def if_False)
    then show ?thesis using False es by (auto simp: map_of_eq_None_iff)
  qed
  have "dl_entries (cacheStore now jti b c) = AList.update jti \<lparr>ce_revoked = b, ce_expires = now + dl_ttl c\<rparr> es'"
    by (simp add: cacheStore_def Let_def es_def es'_def)
  moreover have "dl_maxEntries (cacheStore now jti b c) = dl_maxEntries c" "dl_ttl (cacheStore now jti b c) = dl_ttl c"
    by (simp_all add: cacheStore_def Let_def)
  ultimately show ?thesis using es' assms by (auto simp: dl_wf_def update_length distinct_update)
qed

lemma cacheStore_lookup:
  "map_of (dl_entries (cacheStore now jti b c)) jti = Some \<lparr>ce_revoked = b, ce_expires = now + dl_ttl c\<rparr>"
  by (simp add: cacheStore_def Let_def update_conv)

lemma cacheStore_other:
  assumes "dl_wf c" "map_of (dl_entries (cacheStore now jti b c)) j = Some e" "j \<noteq> jti"
  shows "map_of (dl_entries c) j = Some e"
proof -
  let ?f = "filter (\<lambda>(k, e). \<not> \<not> now < ce_expires e) (dl_entries c)"
  define es where "es = (if \<not> now < dl_nextSweep c then ?f else dl_entries c)"
  define es' where "es' = (if map_of es jti = None \<and> dl_maxEntries c \<le> length es then evictOne es else es)"
  have "dl_entries (cacheStore now jti b c) = AList.update jti \<lparr>ce_revoked = b, ce_expires = now + dl_ttl c\<rparr> es'"
    by (simp add: cacheStore_def Let_def es_def es'_def)
  then have "map_of es' j = Some e" using assms(2,3) by (simp add: update_conv)
  then have "(j, e) \<in> set (dl_entries c)"
    using evictOne_entries[of es] by (auto dest!: map_of_SomeD simp: es'_def es_def split: if_splits)
  then show ?thesis using assms(1) by (simp add: dl_wf_def)
qed

text \<open>The invariant of the interleavings.\<close>

definition dl_inv :: "Duration \<Rightarrow> Duration \<Rightarrow> nat \<Rightarrow> DlSys \<Rightarrow> bool" where
  "dl_inv L ttl n s =
     (dl_wf (sy_cache s) \<and> dl_ttl (sy_cache s) = ttl \<and> dl_maxEntries (sy_cache s) = n \<and>
      (\<forall>j T. sy_db s j = Some T \<longrightarrow> T \<le> sy_now s) \<and>
      (\<forall>j b r. (j, b, r) \<in> set (sy_flight s) \<longrightarrow> r \<le> sy_now s \<and> sy_now s \<le> r + L \<and>
         (\<not> b \<longrightarrow> (\<forall>T. sy_db s j = Some T \<longrightarrow> r \<le> T))) \<and>
      (\<forall>j e. map_of (dl_entries (sy_cache s)) j = Some e \<longrightarrow> ce_expires e \<le> sy_now s + ttl \<and>
         (\<not> ce_revoked e \<longrightarrow> (\<forall>T. sy_db s j = Some T \<longrightarrow> ce_expires e \<le> T + L + ttl))))"

lemma cacheStore_max [simp]: "dl_maxEntries (cacheStore now jti b c) = dl_maxEntries c"
  by (simp add: cacheStore_def Let_def)

lemma dl_inv_store:
  assumes inv: "dl_inv L ttl n s" and t: "t \<le> sy_now s" and L: "0 \<le> L"
    and b: "\<not> b \<Longrightarrow> \<forall>T. sy_db s jti = Some T \<longrightarrow> t \<le> T + L"
  shows "dl_inv L ttl n (s\<lparr>sy_cache := cacheStore t jti b (sy_cache s)\<rparr>)"
proof -
  have wf: "dl_wf (sy_cache s)" and ttl: "dl_ttl (sy_cache s) = ttl" using inv by (simp_all add: dl_inv_def)
  have "ce_expires e \<le> sy_now s + ttl \<and> (\<not> ce_revoked e \<longrightarrow> (\<forall>T. sy_db s j = Some T \<longrightarrow> ce_expires e \<le> T + L + ttl))"
    if e: "map_of (dl_entries (cacheStore t jti b (sy_cache s))) j = Some e" for j e
  proof (cases "j = jti")
    case True
    then have "e = \<lparr>ce_revoked = b, ce_expires = t + ttl\<rparr>" using e cacheStore_lookup[of t jti b "sy_cache s"] ttl by simp
    then show ?thesis using t b True by auto
  next
    case False
    then show ?thesis using cacheStore_other[OF wf e] inv unfolding dl_inv_def by blast
  qed
  then show ?thesis using inv cacheStore_wf[OF wf, of t jti b] unfolding dl_inv_def by simp
qed

lemma dl_inv_step:
  assumes "dl_step L s s'" "dl_inv L ttl n s" "0 \<le> L" "0 \<le> ttl"
  shows "dl_inv L ttl n s'"
  using assms
proof (cases rule: dl_step.cases)
  case (tick now)
  have "sy_now s' = now" "sy_cache s' = sy_cache s" "sy_db s' = sy_db s" "sy_flight s' = sy_flight s" using tick by simp_all
  moreover have "now \<le> r + L" if "(j, b, r) \<in> set (sy_flight s)" for j b r using tick(3) that by auto
  ultimately show ?thesis using assms(2) tick(2) unfolding dl_inv_def
    by (intro conjI allI impI; simp; meson add_right_mono order_trans)
next
  case (revoke jti)
  have db: "sy_db s' j = (if j = jti then Some (sy_now s) else sy_db s j)" for j using revoke by simp
  have "sy_now s' = sy_now s" "sy_cache s' = sy_cache s" "sy_flight s' = sy_flight s" using revoke by simp_all
  moreover have "ce_expires e \<le> sy_now s + L + ttl" if "map_of (dl_entries (sy_cache s)) j = Some e" for j e
    using assms(2,3) that unfolding dl_inv_def by fastforce
  ultimately show ?thesis using assms(2) unfolding dl_inv_def db by (auto split: if_splits)
next
  case (lookup jti)
  then show ?thesis using assms unfolding dl_inv_def by auto
next
  case (memoize jti b r t)
  have f: "r \<le> sy_now s" "sy_now s \<le> r + L" "\<not> b \<longrightarrow> (\<forall>T. sy_db s jti = Some T \<longrightarrow> r \<le> T)"
    using assms(2) memoize(2) unfolding dl_inv_def by blast+
  have "dl_inv L ttl n (s\<lparr>sy_cache := cacheStore t jti b (sy_cache s)\<rparr>)"
    by (rule dl_inv_store[OF assms(2) memoize(4) assms(3)]) (use f memoize(4) in fastforce)
  then show ?thesis unfolding memoize(1) dl_inv_def by (auto dest: set_remove1_subset[THEN subsetD])
next
  case (hydrate jti t)
  then show ?thesis using assms(2) dl_inv_store[OF assms(2) hydrate(3) assms(3), of True jti] by (simp add: Hydrate_def)
qed

lemma dl_inv_reach:
  assumes "(dl_step L)\<^sup>*\<^sup>* (dlInit ttl n t0) s" "0 \<le> L" "0 \<le> ttl" "0 < n"
  shows "dl_inv L ttl n s"
  using assms(1)
proof (induction rule: rtranclp_induct)
  case base
  then show ?case using assms by (simp add: dlInit_def NewDenylistCache_def dl_inv_def dl_wf_def)
next
  case (step s s')
  then show ?case using dl_inv_step assms by blast
qed

lemma IsRevoked_db:
  "fst (IsRevoked (Some dbChecker) clk (c, db) jti) = Inr (case cacheHit c (clk 0) jti of Some b \<Rightarrow> b | None \<Rightarrow> db jti \<noteq> None)"
  by (simp add: IsRevoked_def dbChecker_def split: option.splits)

lemma db_final: "dl_step L s s' \<Longrightarrow> sy_db s jti = Some T \<Longrightarrow> sy_db s' jti = Some T"
  by (auto elim!: dl_step.cases)

text \<open>Nothing in the cache or in flight says that \<^verbatim>\<open>jti\<close> is active.\<close>

definition hydrated :: "string \<Rightarrow> DlSys \<Rightarrow> bool" where
  "hydrated jti s = (dl_wf (sy_cache s) \<and> sy_db s jti \<noteq> None \<and> (\<forall>r. (jti, False, r) \<notin> set (sy_flight s)) \<and>
     (\<forall>e. map_of (dl_entries (sy_cache s)) jti = Some e \<longrightarrow> ce_revoked e))"

lemma hydrated_store:
  assumes "hydrated jti s" "j = jti \<Longrightarrow> b"
  shows "hydrated jti (s\<lparr>sy_cache := cacheStore t j b (sy_cache s)\<rparr>)"
proof -
  have wf: "dl_wf (sy_cache s)" using assms(1) by (simp add: hydrated_def)
  have "ce_revoked e" if e: "map_of (dl_entries (cacheStore t j b (sy_cache s))) jti = Some e" for e
  proof (cases "j = jti")
    case True
    then show ?thesis using e cacheStore_lookup[of t jti b "sy_cache s"] assms(2) by auto
  next
    case False
    then show ?thesis using cacheStore_other[OF wf e] assms(1) by (auto simp: hydrated_def)
  qed
  then show ?thesis using assms(1) cacheStore_wf[OF wf, of t j b] by (simp add: hydrated_def)
qed

lemma hydrated_step:
  assumes "dl_step L s s'" "hydrated jti s"
  shows "hydrated jti s'"
  using assms(1)
proof (cases rule: dl_step.cases)
  case (memoize j b r t)
  have "j = jti \<Longrightarrow> b" using memoize(2) assms(2) unfolding hydrated_def by (cases b) auto
  then have "hydrated jti (s\<lparr>sy_cache := cacheStore t j b (sy_cache s)\<rparr>)" by (rule hydrated_store[OF assms(2)])
  then show ?thesis unfolding memoize(1) hydrated_def by (auto dest: set_remove1_subset[THEN subsetD])
next
  case (hydrate j t)
  then show ?thesis using assms(2) hydrated_store[OF assms(2), of j True t] by (simp add: Hydrate_def)
qed (use assms(2) in \<open>auto simp: hydrated_def\<close>)

lemma hydrated_reach: "(dl_step L)\<^sup>*\<^sup>* s s' \<Longrightarrow> hydrated jti s \<Longrightarrow> hydrated jti s'"
  by (induction rule: rtranclp_induct) (blast intro: hydrated_step)+

lemma hydrated_answer: "hydrated jti s \<Longrightarrow> fst (IsRevoked (Some dbChecker) clk (sy_cache s, sy_db s) jti) = Inr True"
  by (auto simp: IsRevoked_db cacheHit_def hydrated_def split: option.splits)

section \<open>Properties\<close>

text \<open>
  C26. Staleness and memory are bounded, however calls interleave. If lookups take at most \<^verbatim>\<open>L\<close> from
  reading the store to memoizing, a jti revoked at \<^verbatim>\<open>T\<close> is reported revoked by every call from
  \<^verbatim>\<open>T + L + ttl\<close> on; and the cache never holds more entries than its cap.
\<close>

theorem denylist_staleness:
  assumes "(dl_step L)\<^sup>*\<^sup>* (dlInit ttl n t0) s" "0 \<le> L" "0 \<le> ttl" "0 < n"
    "sy_db s jti = Some T" "T + L + ttl \<le> sy_now s"
  shows "fst (IsRevoked (Some dbChecker) (\<lambda>_. sy_now s) (sy_cache s, sy_db s) jti) = Inr True \<and>
    length (dl_entries (sy_cache s)) \<le> n"
proof -
  have inv: "dl_inv L ttl n s" by (rule dl_inv_reach[OF assms(1-4)])
  have "ce_revoked e \<or> ce_expires e \<le> T + L + ttl" if "map_of (dl_entries (sy_cache s)) jti = Some e" for e
    using inv that assms(5) unfolding dl_inv_def by blast
  then show ?thesis using inv assms(5,6) by (fastforce simp: IsRevoked_db cacheHit_def dl_inv_def dl_wf_def split: option.splits)
qed

text \<open>A run in which a lookup answers before the revocation and memoizes after it.\<close>

definition raceStart :: DlSys where
  "raceStart = (dlInit DefaultDenylistTTL 10 0)\<lparr>sy_flight := [(''j'', False, 0)]\<rparr>"

definition raceRevoked :: DlSys where
  "raceRevoked = raceStart\<lparr>sy_db := (sy_db raceStart)(''j'' \<mapsto> 0)\<rparr>"

definition raceHydrated :: DlSys where
  "raceHydrated = raceRevoked\<lparr>sy_cache := Hydrate 0 ''j'' (sy_cache raceRevoked)\<rparr>"

definition raceEnd :: DlSys where
  "raceEnd = raceHydrated\<lparr>sy_flight := [], sy_cache := cacheStore 0 ''j'' False (sy_cache raceHydrated)\<rparr>"

lemma race_steps:
  "dl_step L (dlInit DefaultDenylistTTL 10 0) raceStart" "dl_step L raceStart raceRevoked"
  "dl_step L raceRevoked raceHydrated" "dl_step L raceHydrated raceEnd"
proof -
  have "dl_step L (dlInit DefaultDenylistTTL 10 0) ((dlInit DefaultDenylistTTL 10 0)\<lparr>sy_flight :=
      (''j'', sy_db (dlInit DefaultDenylistTTL 10 0) ''j'' \<noteq> None, sy_now (dlInit DefaultDenylistTTL 10 0)) # sy_flight (dlInit DefaultDenylistTTL 10 0)\<rparr>)"
    by (rule dl_step.lookup) (simp add: dlInit_def NewDenylistCache_def cacheHit_def)
  then show "dl_step L (dlInit DefaultDenylistTTL 10 0) raceStart" by (simp add: raceStart_def dlInit_def)
  have "dl_step L raceStart (raceStart\<lparr>sy_db := (sy_db raceStart)(''j'' \<mapsto> sy_now raceStart)\<rparr>)"
    by (rule dl_step.revoke) (simp add: raceStart_def dlInit_def)
  then show "dl_step L raceStart raceRevoked" by (simp add: raceRevoked_def raceStart_def dlInit_def)
  show "dl_step L raceRevoked raceHydrated"
    unfolding raceHydrated_def by (rule dl_step.hydrate) (simp_all add: raceRevoked_def raceStart_def dlInit_def)
  have "dl_step L raceHydrated (raceHydrated\<lparr>sy_flight := remove1 (''j'', False, 0) (sy_flight raceHydrated),
      sy_cache := cacheStore 0 ''j'' False (sy_cache raceHydrated)\<rparr>)"
    by (rule dl_step.memoize) (simp_all add: raceHydrated_def raceRevoked_def raceStart_def dlInit_def)
  then show "dl_step L raceHydrated raceEnd"
    by (simp add: raceEnd_def raceHydrated_def raceRevoked_def raceStart_def dlInit_def)
qed

lemma race_reach: "(dl_step L)\<^sup>*\<^sup>* (dlInit DefaultDenylistTTL 10 0) raceHydrated" "(dl_step L)\<^sup>*\<^sup>* (dlInit DefaultDenylistTTL 10 0) raceEnd"
proof -
  show 1: "(dl_step L)\<^sup>*\<^sup>* (dlInit DefaultDenylistTTL 10 0) raceHydrated"
    using race_steps(1-3)[of L] by (metis (no_types) converse_rtranclp_into_rtranclp rtranclp.rtrancl_refl)
  show "(dl_step L)\<^sup>*\<^sup>* (dlInit DefaultDenylistTTL 10 0) raceEnd" using 1 race_steps(4)[of L] by (rule rtranclp.rtrancl_into_rtrancl)
qed

theorem denylist_staleness_witness:
  "let s = raceEnd\<lparr>sy_now := DefaultDenylistTTL\<rparr> in
   fst (IsRevoked (Some dbChecker) (\<lambda>_. sy_now s) (sy_cache s, sy_db s) ''j'') = Inr True \<and> length (dl_entries (sy_cache s)) \<le> 10"
proof -
  let ?s = "raceEnd\<lparr>sy_now := DefaultDenylistTTL\<rparr>"
  note r = raceEnd_def raceHydrated_def raceRevoked_def raceStart_def dlInit_def DefaultDenylistTTL_def Second_def
  have "dl_step 0 raceEnd ?s" by (rule dl_step.tick) (simp_all add: r)
  then have "(dl_step 0)\<^sup>*\<^sup>* (dlInit DefaultDenylistTTL 10 0) ?s"
    using rtranclp.rtrancl_into_rtrancl[of "dl_step 0"] race_reach(2) by metis
  from denylist_staleness[OF this, of "''j''" 0] show ?thesis by (simp add: Let_def r)
qed




end
