(* ===== verification/Key_Registry.thy ===== *)
theory Key_Registry
  imports Denylist
begin

text \<open>
  The store behind the admin API's integration keys: the \<^verbatim>\<open>KeyRegistry\<close> interface with what its comment
  promises (src/admin/store.go) as the locale \<^verbatim>\<open>key_registry\<close>, and its SQLite and PostgreSQL
  implementations (src/state/sqlite/integration_keys.go, jti_denylist.go, admin_adapter.go and their twins
  under src/state/postgres). Revoking a key stamps its row and denylists its jti in one transaction.
\<close>

section \<open>The interface and its specification\<close>

record ListFilter =
  lf_Owner :: string
  lf_Namespace :: string
  lf_Limit :: int
  lf_Cursor :: string

record 'st KeyRegistry =
  kr_Save :: "'st \<Rightarrow> IntegrationKey \<Rightarrow> StoreError option \<times> 'st"
  kr_ByID :: "'st \<Rightarrow> string \<Rightarrow> StoreError + IntegrationKey"
  kr_List :: "'st \<Rightarrow> ListFilter \<Rightarrow> StoreError + IntegrationKey list"
  kr_MarkRevoked :: "'st \<Rightarrow> string \<Rightarrow> Time \<Rightarrow> (StoreError + string) \<times> 'st"

text \<open>The abstract state: the keys in the order of their ids, and the denylisted jtis.\<close>

record AbsRegistry =
  a_keys :: "IntegrationKey list"
  a_denied :: "string set"

definition stampKey :: "Time \<Rightarrow> IntegrationKey \<Rightarrow> IntegrationKey" where
  "stampKey at k = (if ik_RevokedAt k = None then k\<lparr>ik_RevokedAt := Some at\<rparr> else k)"

definition spec_MarkRevoked :: "AbsRegistry \<Rightarrow> string \<Rightarrow> Time \<Rightarrow> (StoreError + string) \<times> AbsRegistry" where
  "spec_MarkRevoked A i at = (case find (\<lambda>k. ik_ID k = i) (a_keys A) of
     None \<Rightarrow> (Inl ErrIntegrationKeyNotFound, A)
   | Some k \<Rightarrow> (Inr (ik_JTI k), \<lparr>a_keys = update_where (\<lambda>k. ik_ID k = i) (stampKey at) (a_keys A),
                                 a_denied = insert (ik_JTI k) (a_denied A)\<rparr>))"

definition matchesFilter :: "ListFilter \<Rightarrow> IntegrationKey \<Rightarrow> bool" where
  "matchesFilter f k = ((lf_Owner f = [] \<or> ik_Owner k = lf_Owner f) \<and> (lf_Namespace f = [] \<or> ik_Namespace k = lf_Namespace f)
     \<and> (lf_Cursor f = [] \<or> ik_ID k < lf_Cursor f))"

definition pageLimit :: "ListFilter \<Rightarrow> nat" where
  "pageLimit f = (if lf_Limit f \<le> 0 then 50 else nat (lf_Limit f))"

definition spec_List :: "AbsRegistry \<Rightarrow> ListFilter \<Rightarrow> IntegrationKey list" where
  "spec_List A f = take (pageLimit f + 1) (rev (filter (matchesFilter f) (a_keys A)))"

locale key_registry =
  fixes kops :: "'st KeyRegistry"
    and isRevoked :: "'st DenylistChecker"
    and kinv :: "'st \<Rightarrow> bool"
    and kabs :: "'st \<Rightarrow> AbsRegistry"
  assumes sorted: "kinv st \<Longrightarrow> sorted (map ik_ID (a_keys (kabs st))) \<and> distinct (map ik_ID (a_keys (kabs st))) \<and> distinct (map ik_JTI (a_keys (kabs st)))"
    and save: "kinv st \<Longrightarrow> kr_Save kops st k = (err, st') \<Longrightarrow>
      kinv st' \<and> ((\<exists>e. err = Some (ErrStore e) \<and> kabs st' = kabs st) \<or>
        err = None \<and> ik_ID k \<notin> ik_ID ` set (a_keys (kabs st)) \<and> ik_JTI k \<notin> ik_JTI ` set (a_keys (kabs st)) \<and>
        set (a_keys (kabs st')) = insert k (set (a_keys (kabs st))) \<and> a_denied (kabs st') = a_denied (kabs st))"
    and by_id: "kinv st \<Longrightarrow> (\<exists>e. kr_ByID kops st i = Inl (ErrStore e)) \<or>
      kr_ByID kops st i = (case find (\<lambda>k. ik_ID k = i) (a_keys (kabs st)) of None \<Rightarrow> Inl ErrIntegrationKeyNotFound | Some k \<Rightarrow> Inr k)"
    and list: "kinv st \<Longrightarrow> (\<exists>e. kr_List kops st f = Inl (ErrStore e)) \<or> kr_List kops st f = Inr (spec_List (kabs st) f)"
    and mark: "kinv st \<Longrightarrow> kr_MarkRevoked kops st i at = (res, st') \<Longrightarrow>
      kinv st' \<and> ((\<exists>e. res = Inl (ErrStore e) \<and> kabs st' = kabs st) \<or> (res, kabs st') = spec_MarkRevoked (kabs st) i at)"
    and revoked: "kinv st \<Longrightarrow> (\<exists>e. fst (isRevoked st jti) = Inl (ErrStore e)) \<or> fst (isRevoked st jti) = Inr (jti \<in> a_denied (kabs st))"
    and check_frame: "snd (isRevoked st jti) = st"

section \<open>SQLite\<close>

text \<open>
  A violated primary key, unique or CHECK constraint is not told apart: it is a driver error like any
  other. \<^verbatim>\<open>INSERT OR IGNORE\<close> into the denylist keeps the first row.
\<close>

definition roleAllowed :: "Role \<Rightarrow> bool" where
  "roleAllowed r = (r \<in> {''read'', ''write'', ''worker'', ''admin''})"

definition SaveIntegrationKey :: "Store \<Rightarrow> IntegrationKey \<Rightarrow> StoreError option \<times> Store" where
  "SaveIntegrationKey s k =
     (if exists_where (\<lambda>r. ik_ID r = ik_ID k \<or> ik_JTI r = ik_JTI k) (integration_keys s) \<or> \<not> roleAllowed (ik_Role k)
      then (Some (ErrStore ''sqlite: save integration key''), s)
      else (None, s\<lparr>integration_keys := integration_keys s @ [k]\<rparr>))"

definition IntegrationKeyByID :: "Store \<Rightarrow> string \<Rightarrow> StoreError + IntegrationKey" where
  "IntegrationKeyByID s i = (case find (\<lambda>r. ik_ID r = i) (integration_keys s) of
     None \<Rightarrow> Inl ErrIntegrationKeyNotFound | Some k \<Rightarrow> Inr k)"

definition storeListLimit :: int where "storeListLimit = 50"

definition ListIntegrationKeys :: "Store \<Rightarrow> ListFilter \<Rightarrow> StoreError + IntegrationKey list" where
  "ListIntegrationKeys s f =
     (let limit = (if lf_Limit f \<le> 0 then storeListLimit else lf_Limit f);
          rows = filter (\<lambda>r. (lf_Owner f = [] \<or> ik_Owner r = lf_Owner f) \<and> (lf_Namespace f = [] \<or> ik_Namespace r = lf_Namespace f)
            \<and> (lf_Cursor f = [] \<or> ik_ID r < lf_Cursor f)) (integration_keys s)
      in Inr (take (nat (limit + 1)) (rev (sort_key ik_ID rows))))"

definition MarkIntegrationKeyRevoked :: "Store \<Rightarrow> string \<Rightarrow> Time \<Rightarrow> (StoreError + string) \<times> Store" where
  "MarkIntegrationKeyRevoked s i at = (case find (\<lambda>r. ik_ID r = i) (integration_keys s) of
     None \<Rightarrow> (Inl ErrIntegrationKeyNotFound, s)
   | Some k \<Rightarrow>
       let jti = ik_JTI k;
           s = s\<lparr>integration_keys := update_where (\<lambda>r. ik_ID r = i \<and> ik_RevokedAt r = None) (\<lambda>r. r\<lparr>ik_RevokedAt := Some at\<rparr>) (integration_keys s)\<rparr>;
           s = (if exists_where (\<lambda>r. fst r = jti) (jti_denylist s) then s else s\<lparr>jti_denylist := jti_denylist s @ [(jti, at)]\<rparr>)
       in (Inr jti, s))"

definition IsJTIRevoked :: "Store DenylistChecker" where
  "IsJTIRevoked s jti = (case find (\<lambda>r. fst r = jti) (jti_denylist s) of None \<Rightarrow> (Inr False, s) | Some _ \<Rightarrow> (Inr True, s))"

definition sqliteKeyRegistry :: "Store KeyRegistry" where
  "sqliteKeyRegistry = \<lparr>kr_Save = SaveIntegrationKey, kr_ByID = IntegrationKeyByID, kr_List = ListIntegrationKeys,
     kr_MarkRevoked = MarkIntegrationKeyRevoked\<rparr>"

section \<open>PostgreSQL\<close>

definition pg_SaveIntegrationKey :: "Store \<Rightarrow> IntegrationKey \<Rightarrow> StoreError option \<times> Store" where
  "pg_SaveIntegrationKey s k =
     (if exists_where (\<lambda>r. ik_ID r = ik_ID k \<or> ik_JTI r = ik_JTI k) (integration_keys s) \<or> \<not> roleAllowed (ik_Role k)
      then (Some (ErrStore ''postgres: save integration key''), s)
      else (None, s\<lparr>integration_keys := integration_keys s @ [k]\<rparr>))"

definition pg_IntegrationKeyByID :: "Store \<Rightarrow> string \<Rightarrow> StoreError + IntegrationKey" where
  "pg_IntegrationKeyByID s i = (case find (\<lambda>r. ik_ID r = i) (integration_keys s) of
     None \<Rightarrow> Inl ErrIntegrationKeyNotFound | Some k \<Rightarrow> Inr k)"

definition pg_ListIntegrationKeys :: "Store \<Rightarrow> ListFilter \<Rightarrow> StoreError + IntegrationKey list" where
  "pg_ListIntegrationKeys s f =
     (let limit = (if lf_Limit f \<le> 0 then storeListLimit else lf_Limit f);
          rows = filter (\<lambda>r. (lf_Owner f = [] \<or> ik_Owner r = lf_Owner f) \<and> (lf_Namespace f = [] \<or> ik_Namespace r = lf_Namespace f)
            \<and> (lf_Cursor f = [] \<or> ik_ID r < lf_Cursor f)) (integration_keys s)
      in Inr (take (nat (limit + 1)) (rev (sort_key ik_ID rows))))"

definition pg_MarkIntegrationKeyRevoked :: "Store \<Rightarrow> string \<Rightarrow> Time \<Rightarrow> (StoreError + string) \<times> Store" where
  "pg_MarkIntegrationKeyRevoked s i at =
     (let hit = (\<lambda>r. ik_ID r = i);
          stamp = (\<lambda>r. r\<lparr>ik_RevokedAt := Some (case ik_RevokedAt r of None \<Rightarrow> at | Some t \<Rightarrow> t)\<rparr>)
      in case map (\<lambda>r. ik_JTI (stamp r)) (filter hit (integration_keys s)) of
           [] \<Rightarrow> (Inl ErrIntegrationKeyNotFound, s)
         | jti # _ \<Rightarrow> (Inr jti, s\<lparr>integration_keys := update_where hit stamp (integration_keys s),
              jti_denylist := (if exists_where (\<lambda>r. fst r = jti) (jti_denylist s) then jti_denylist s else jti_denylist s @ [(jti, at)])\<rparr>))"

definition pg_IsJTIRevoked :: "Store DenylistChecker" where
  "pg_IsJTIRevoked s jti = (Inr (exists_where (\<lambda>r. fst r = jti) (jti_denylist s)), s)"

definition postgresKeyRegistry :: "Store KeyRegistry" where
  "postgresKeyRegistry = \<lparr>kr_Save = pg_SaveIntegrationKey, kr_ByID = pg_IntegrationKeyByID, kr_List = pg_ListIntegrationKeys,
     kr_MarkRevoked = pg_MarkIntegrationKeyRevoked\<rparr>"

section \<open>Refinement\<close>

text \<open>The constraints of the table: ids and jtis are unique.\<close>

definition wf_registry :: "Store \<Rightarrow> bool" where
  "wf_registry s = (distinct (map ik_ID (integration_keys s)) \<and> distinct (map ik_JTI (integration_keys s)))"

definition abs_registry :: "Store \<Rightarrow> AbsRegistry" where
  "abs_registry s = \<lparr>a_keys = sort_key ik_ID (integration_keys s), a_denied = fst ` set (jti_denylist s)\<rparr>"

lemma abs_registry_sel [simp]:
  "a_keys (abs_registry s) = sort_key ik_ID (integration_keys s)" "a_denied (abs_registry s) = fst ` set (jti_denylist s)"
  by (simp_all add: abs_registry_def)

lemma stampKey_sel [simp]: "ik_ID (stampKey at k) = ik_ID k" "ik_JTI (stampKey at k) = ik_JTI k" "ik_RevokedAt (stampKey at k) \<noteq> None"
  by (simp_all add: stampKey_def)

lemma sort_key_map: "(\<And>r. k (f r) = k r) \<Longrightarrow> sort_key k (map f rows) = map f (sort_key k rows)"
proof (induction rows)
  case (Cons a rows)
  have "insort_key k (f a) (map f xs) = map f (insort_key k a xs)" for xs
    by (induction xs) (simp_all add: Cons.prems)
  then show ?case using Cons by simp
qed simp

lemma distinct_sort_key: "distinct (map h (sort_key k rows)) = distinct (map h rows)"
  by (metis mset_map mset_sort mset_eq_imp_distinct_iff)

lemma find_sort_key: "distinct (map k rows) \<Longrightarrow> find (\<lambda>r. k r = i) (sort_key k rows) = find (\<lambda>r. k r = i) rows"
proof (cases "find (\<lambda>r. k r = i) rows")
  case None
  then have "find (\<lambda>r. k r = i) (sort_key k rows) = None" by (simp add: find_None_iff)
  then show ?thesis using None by simp
next
  case (Some r)
  assume d: "distinct (map k rows)"
  have "find (\<lambda>r. k r = i) (sort_key k rows) = Some r"
    using Some d by (subst find_key_Some_iff) (auto simp: distinct_sort_key dest: find_SomeD)
  then show ?thesis using Some by simp
qed

lemma sort_key_update: "(\<And>r. k (f r) = k r) \<Longrightarrow> sort_key k (update_where P f rows) = update_where P f (sort_key k rows)"
  unfolding update_where_def by (rule sort_key_map) simp

lemma mark_shapes:
  "update_where (\<lambda>r. ik_ID r = i \<and> ik_RevokedAt r = None) (\<lambda>r. r\<lparr>ik_RevokedAt := Some at\<rparr>) rows = update_where (\<lambda>r. ik_ID r = i) (stampKey at) rows"
  "update_where (\<lambda>r. ik_ID r = i) (\<lambda>r. r\<lparr>ik_RevokedAt := Some (case ik_RevokedAt r of None \<Rightarrow> at | Some t \<Rightarrow> t)\<rparr>) rows = update_where (\<lambda>r. ik_ID r = i) (stampKey at) rows"
  by (auto simp: update_where_def stampKey_def split: option.split)

lemma MarkIntegrationKeyRevoked_eq:
  "MarkIntegrationKeyRevoked s i at = (case find (\<lambda>r. ik_ID r = i) (integration_keys s) of
     None \<Rightarrow> (Inl ErrIntegrationKeyNotFound, s)
   | Some k \<Rightarrow> (Inr (ik_JTI k), s\<lparr>integration_keys := update_where (\<lambda>r. ik_ID r = i) (stampKey at) (integration_keys s),
       jti_denylist := (if ik_JTI k \<in> fst ` set (jti_denylist s) then jti_denylist s else jti_denylist s @ [(ik_JTI k, at)])\<rparr>))"
  by (simp add: MarkIntegrationKeyRevoked_def Let_def mark_shapes exists_where_key del: exists_where_iff split: option.split)

lemma filter_map_find: "(case map g (filter P xs) of [] \<Rightarrow> a | x # _ \<Rightarrow> f x) = (case find P xs of None \<Rightarrow> a | Some x \<Rightarrow> f (g x))"
  by (induction xs) simp_all

lemma IsJTIRevoked_eq: "IsJTIRevoked s jti = (Inr (jti \<in> fst ` set (jti_denylist s)), s)"
  by (auto simp: IsJTIRevoked_def find_None_iff dest: find_SomeD split: option.split)

lemma pg_registry_same:
  "pg_IntegrationKeyByID = IntegrationKeyByID" "pg_ListIntegrationKeys = ListIntegrationKeys"
  "pg_MarkIntegrationKeyRevoked = MarkIntegrationKeyRevoked" "pg_IsJTIRevoked = IsJTIRevoked"
proof -
  show "pg_IntegrationKeyByID = IntegrationKeyByID" "pg_ListIntegrationKeys = ListIntegrationKeys"
    by (simp_all add: fun_eq_iff pg_IntegrationKeyByID_def IntegrationKeyByID_def pg_ListIntegrationKeys_def ListIntegrationKeys_def)
  show "pg_MarkIntegrationKeyRevoked = MarkIntegrationKeyRevoked"
    by (intro ext) (simp add: pg_MarkIntegrationKeyRevoked_def MarkIntegrationKeyRevoked_eq filter_map_find Let_def mark_shapes(2) exists_where_key
        del: exists_where_iff split: option.split)
  show "pg_IsJTIRevoked = IsJTIRevoked"
    by (intro ext) (simp add: pg_IsJTIRevoked_def IsJTIRevoked_eq exists_where_key del: exists_where_iff)
qed

lemma save_refines:
  assumes "wf_registry s" "exists_where (\<lambda>r. ik_ID r = ik_ID k \<or> ik_JTI r = ik_JTI k) (integration_keys s) = False"
  shows "wf_registry (s\<lparr>integration_keys := integration_keys s @ [k]\<rparr>) \<and> ik_ID k \<notin> ik_ID ` set (integration_keys s) \<and>
    ik_JTI k \<notin> ik_JTI ` set (integration_keys s)"
  using assms by (auto simp: wf_registry_def)

lemma mark_refines:
  assumes "wf_registry s" "MarkIntegrationKeyRevoked s i at = (res, s')"
  shows "wf_registry s' \<and> (res, abs_registry s') = spec_MarkRevoked (abs_registry s) i at"
proof (cases "find (\<lambda>r. ik_ID r = i) (integration_keys s)")
  case None
  then show ?thesis using assms by (simp add: MarkIntegrationKeyRevoked_eq spec_MarkRevoked_def wf_registry_def find_sort_key)
next
  case (Some k)
  have "fst ` set (if j \<in> fst ` set dl then dl else dl @ [(j, at)]) = insert j (fst ` set dl)" for j :: string and dl
    by (cases "j \<in> fst ` set dl") (simp_all add: insert_absorb)
  then show ?thesis using assms Some
    by (auto simp only: MarkIntegrationKeyRevoked_eq spec_MarkRevoked_def option.case Pair_inject abs_registry_def wf_registry_def)
       (simp_all add: find_sort_key sort_key_update update_where_key)
qed

lemma list_refines: "ListIntegrationKeys s f = Inr (spec_List (abs_registry s) f)"
  by (simp add: ListIntegrationKeys_def spec_List_def Let_def pageLimit_def storeListLimit_def filter_sort matchesFilter_def[abs_def] nat_add_distrib)

lemma registry_distinct: "wf_registry s \<Longrightarrow> distinct (map ik_ID (integration_keys s)) \<and> distinct (map ik_JTI (integration_keys s))"
  by (simp add: wf_registry_def)

interpretation sqlite_registry: key_registry sqliteKeyRegistry IsJTIRevoked wf_registry abs_registry
proof
  fix s k err s' assume "wf_registry s" "kr_Save sqliteKeyRegistry s k = (err, s')"
  then show "wf_registry s' \<and> ((\<exists>e. err = Some (ErrStore e) \<and> abs_registry s' = abs_registry s) \<or>
        err = None \<and> ik_ID k \<notin> ik_ID ` set (a_keys (abs_registry s)) \<and> ik_JTI k \<notin> ik_JTI ` set (a_keys (abs_registry s)) \<and>
        set (a_keys (abs_registry s')) = insert k (set (a_keys (abs_registry s))) \<and> a_denied (abs_registry s') = a_denied (abs_registry s))"
    using save_refines[of s k] by (auto simp: sqliteKeyRegistry_def SaveIntegrationKey_def simp del: exists_where_iff split: if_splits)
next
  fix s i at res s' assume "wf_registry s" "kr_MarkRevoked sqliteKeyRegistry s i at = (res, s')"
  then show "wf_registry s' \<and> ((\<exists>e. res = Inl (ErrStore e) \<and> abs_registry s' = abs_registry s) \<or> (res, abs_registry s') = spec_MarkRevoked (abs_registry s) i at)"
    using mark_refines[of s i at res s'] by (simp add: sqliteKeyRegistry_def)
qed (simp_all add: sqliteKeyRegistry_def registry_distinct distinct_sort_key list_refines IsJTIRevoked_eq IntegrationKeyByID_def find_sort_key)

interpretation postgres_registry: key_registry postgresKeyRegistry pg_IsJTIRevoked wf_registry abs_registry
proof
  fix s k err s' assume "wf_registry s" "kr_Save postgresKeyRegistry s k = (err, s')"
  then show "wf_registry s' \<and> ((\<exists>e. err = Some (ErrStore e) \<and> abs_registry s' = abs_registry s) \<or>
        err = None \<and> ik_ID k \<notin> ik_ID ` set (a_keys (abs_registry s)) \<and> ik_JTI k \<notin> ik_JTI ` set (a_keys (abs_registry s)) \<and>
        set (a_keys (abs_registry s')) = insert k (set (a_keys (abs_registry s))) \<and> a_denied (abs_registry s') = a_denied (abs_registry s))"
    using save_refines[of s k] by (auto simp: postgresKeyRegistry_def pg_SaveIntegrationKey_def simp del: exists_where_iff split: if_splits)
next
  fix s i at res s' assume "wf_registry s" "kr_MarkRevoked postgresKeyRegistry s i at = (res, s')"
  then show "wf_registry s' \<and> ((\<exists>e. res = Inl (ErrStore e) \<and> abs_registry s' = abs_registry s) \<or> (res, abs_registry s') = spec_MarkRevoked (abs_registry s) i at)"
    using mark_refines[of s i at res s'] by (simp add: postgresKeyRegistry_def pg_registry_same)
qed (simp_all add: postgresKeyRegistry_def pg_registry_same registry_distinct distinct_sort_key list_refines IsJTIRevoked_eq IntegrationKeyByID_def find_sort_key)

end
