(* ===== verification/Token_Contract.thy ===== *)
theory Token_Contract
  imports State_Types
begin

text \<open>
  The \<^verbatim>\<open>TokenStore\<close> interface of the token endpoint (src/oidc/token.go, lines 115-142) and what its
  comments promise. The Go interface value is a record of operations over a state; the promise is an
  abstract state, a partial map from the hash of a code or token to what is known of it, one
  specification function per operation, and the locale \<^verbatim>\<open>token_store\<close> that says an implementation
  follows them. An operation may also fail with a driver error, and then changes nothing.
\<close>

section \<open>The interface\<close>

record 'st TokenStore =
  ts_ConsumeAuthCode :: "'st \<Rightarrow> string \<Rightarrow> string \<Rightarrow> Time \<Rightarrow> AuthCode Consumed \<times> 'st"
  ts_SaveRefresh :: "'st \<Rightarrow> Refresh \<Rightarrow> StoreError option \<times> 'st"
  ts_ConsumeRefresh :: "'st \<Rightarrow> string \<Rightarrow> string \<Rightarrow> Time \<Rightarrow> Refresh Consumed \<times> 'st"
  ts_RevokeRefreshFamily :: "'st \<Rightarrow> string \<Rightarrow> Time \<Rightarrow> (StoreError + nat) \<times> 'st"

section \<open>Abstract state\<close>

record AbsCode =
  acd_data :: AuthCode
  acd_consumed :: bool

record AbsRefresh =
  ab_data :: Refresh
  ab_consumed :: bool
  ab_revoked :: bool

record AbsTokens =
  a_codes :: "string \<rightharpoonup> AbsCode"
  a_refresh :: "string \<rightharpoonup> AbsRefresh"

definition a_family :: "AbsTokens \<Rightarrow> string \<Rightarrow> string set" where
  "a_family A F = {h. \<exists>x. a_refresh A h = Some x \<and> rt_FamilyID (ab_data x) = F}"

definition a_live :: "AbsTokens \<Rightarrow> string set" where
  "a_live A = {h. \<exists>x. a_refresh A h = Some x \<and> \<not> ab_consumed x \<and> \<not> ab_revoked x}"

definition fam_revoked :: "AbsTokens \<Rightarrow> string \<Rightarrow> bool" where
  "fam_revoked A F = (\<exists>h x. a_refresh A h = Some x \<and> rt_FamilyID (ab_data x) = F \<and> ab_revoked x)"

section \<open>Specification of the operations\<close>

text \<open>The columns the lookup of a tombstone selects; the rest of the struct stays zero.\<close>

definition tombstoneCode :: "string \<Rightarrow> AuthCode \<Rightarrow> AuthCode" where
  "tombstoneCode code ac = ac\<lparr>ac_Code := code, ac_Scope := [], ac_CodeChallenge := [], ac_CodeChallengeMethod := [], ac_Nonce := []\<rparr>"

definition spec_ConsumeAuthCode :: "AbsTokens \<Rightarrow> string \<Rightarrow> string \<Rightarrow> AuthCode Consumed \<times> AbsTokens" where
  "spec_ConsumeAuthCode A code familyID =
     (case a_codes A (Hash code) of
        None \<Rightarrow> (Miss ErrAuthCodeNotFound, A)
      | Some c \<Rightarrow> if acd_consumed c then (Reused (tombstoneCode code (acd_data c)), A)
          else (let d = (acd_data c)\<lparr>ac_FamilyID := familyID\<rparr> in
                (Live (d\<lparr>ac_Code := code\<rparr>),
                 A\<lparr>a_codes := (a_codes A)(Hash code \<mapsto> \<lparr>acd_data = d, acd_consumed = True\<rparr>)\<rparr>)))"

definition spec_SaveRefresh :: "AbsTokens \<Rightarrow> Refresh \<Rightarrow> StoreError option \<times> AbsTokens" where
  "spec_SaveRefresh A r =
     (if fam_revoked A (rt_FamilyID r) then (Some ErrRefreshFamilyRevoked, A)
      else if a_refresh A (Hash (rt_Token r)) \<noteq> None then (Some ErrDuplicateRefreshToken, A)
      else (None, A\<lparr>a_refresh := (a_refresh A)(Hash (rt_Token r) \<mapsto>
              \<lparr>ab_data = r\<lparr>rt_Token := []\<rparr>, ab_consumed = False, ab_revoked = False\<rparr>)\<rparr>))"

definition spec_ConsumeRefresh :: "AbsTokens \<Rightarrow> string \<Rightarrow> string \<Rightarrow> Refresh Consumed \<times> AbsTokens" where
  "spec_ConsumeRefresh A token clientID =
     (case a_refresh A (Hash token) of
        None \<Rightarrow> (Miss ErrRefreshNotFound, A)
      | Some x \<Rightarrow>
          if rt_ClientID (ab_data x) \<noteq> clientID then (Miss ErrRefreshNotFound, A)
          else if \<not> ab_consumed x \<and> \<not> ab_revoked x
          then (Live ((ab_data x)\<lparr>rt_Token := token\<rparr>),
                A\<lparr>a_refresh := (a_refresh A)(Hash token \<mapsto> x\<lparr>ab_consumed := True\<rparr>)\<rparr>)
          else if ab_consumed x then (Reused ((ab_data x)\<lparr>rt_Token := token\<rparr>), A)
          else (Miss ErrRefreshNotFound, A))"

definition revokeAll :: "AbsTokens \<Rightarrow> string \<Rightarrow> AbsTokens" where
  "revokeAll A F = A\<lparr>a_refresh := (\<lambda>h. map_option
      (\<lambda>x. if rt_FamilyID (ab_data x) = F then x\<lparr>ab_revoked := True\<rparr> else x) (a_refresh A h))\<rparr>"

definition spec_RevokeRefreshFamily :: "AbsTokens \<Rightarrow> string \<Rightarrow> (StoreError + nat) \<times> AbsTokens" where
  "spec_RevokeRefreshFamily A F =
     (if a_family A F = {} then (Inl ErrSessionNotFound, A)
      else (Inr (card (a_family A F \<inter> a_live A)), revokeAll A F))"

section \<open>The contract\<close>

locale token_store =
  fixes ops :: "'st TokenStore"
    and inv :: "'st \<Rightarrow> bool"
    and abs :: "'st \<Rightarrow> AbsTokens"
  assumes consume_code: "inv st \<Longrightarrow> ts_ConsumeAuthCode ops st code familyID at = (res, st') \<Longrightarrow>
      inv st' \<and> ((\<exists>e. res = Miss (ErrStore e) \<and> abs st' = abs st)
                 \<or> (res, abs st') = spec_ConsumeAuthCode (abs st) code familyID)"
    and save_refresh: "inv st \<Longrightarrow> ts_SaveRefresh ops st r = (err, st') \<Longrightarrow>
      inv st' \<and> ((\<exists>e. err = Some (ErrStore e) \<and> abs st' = abs st)
                 \<or> (err, abs st') = spec_SaveRefresh (abs st) r)"
    and consume_refresh: "inv st \<Longrightarrow> ts_ConsumeRefresh ops st token clientID at = (res2, st') \<Longrightarrow>
      inv st' \<and> ((\<exists>e. res2 = Miss (ErrStore e) \<and> abs st' = abs st)
                 \<or> (res2, abs st') = spec_ConsumeRefresh (abs st) token clientID)"
    and revoke_family: "inv st \<Longrightarrow> ts_RevokeRefreshFamily ops st F at = (res3, st') \<Longrightarrow>
      inv st' \<and> ((\<exists>e. res3 = Inl (ErrStore e) \<and> abs st' = abs st)
                 \<or> (res3, abs st') = spec_RevokeRefreshFamily (abs st) F)"

section \<open>Laws of the specification\<close>

lemmas spec_defs = spec_ConsumeAuthCode_def spec_SaveRefresh_def spec_ConsumeRefresh_def
  spec_RevokeRefreshFamily_def revokeAll_def

text \<open>
  How the tokens of a store may change: a token keeps its data and never becomes unused or unrevoked
  again, and a new token never joins a revoked family. Every operation is such a change, and so is
  every sequence of them, whoever issues them and however they interleave.
\<close>

definition evolves :: "AbsTokens \<Rightarrow> AbsTokens \<Rightarrow> bool" where
  "evolves A A' =
     ((\<forall>h x. a_refresh A h = Some x \<longrightarrow> (\<exists>x'. a_refresh A' h = Some x' \<and> ab_data x' = ab_data x
         \<and> (ab_consumed x \<longrightarrow> ab_consumed x') \<and> (ab_revoked x \<longrightarrow> ab_revoked x'))) \<and>
      (\<forall>h x'. a_refresh A h = None \<longrightarrow> a_refresh A' h = Some x' \<longrightarrow> \<not> fam_revoked A (rt_FamilyID (ab_data x'))))"

lemma evolves_refl [simp]: "evolves A A"
  by (simp add: evolves_def)

lemma evolves_keep:
  "evolves A A' \<Longrightarrow> a_refresh A h = Some x \<Longrightarrow> \<exists>x'. a_refresh A' h = Some x' \<and> ab_data x' = ab_data x
     \<and> (ab_consumed x \<longrightarrow> ab_consumed x') \<and> (ab_revoked x \<longrightarrow> ab_revoked x')"
  by (simp add: evolves_def)

lemma evolves_fam_revoked: "evolves A A' \<Longrightarrow> fam_revoked A F \<Longrightarrow> fam_revoked A' F"
  unfolding fam_revoked_def by (metis evolves_keep)

lemma evolves_trans:
  assumes "evolves A B" "evolves B C"
  shows "evolves A C"
  unfolding evolves_def
proof (intro conjI allI impI)
  fix h x assume "a_refresh A h = Some x"
  then show "\<exists>x'. a_refresh C h = Some x' \<and> ab_data x' = ab_data x
      \<and> (ab_consumed x \<longrightarrow> ab_consumed x') \<and> (ab_revoked x \<longrightarrow> ab_revoked x')"
    using evolves_keep[OF assms(1)] evolves_keep[OF assms(2)] by metis
next
  fix h z assume h: "a_refresh A h = None" "a_refresh C h = Some z"
  show "\<not> fam_revoked A (rt_FamilyID (ab_data z))"
  proof (cases "a_refresh B h")
    case None
    then show ?thesis using assms h evolves_fam_revoked by (metis evolves_def)
  next
    case (Some y)
    then have "ab_data z = ab_data y" using evolves_keep[OF assms(2) Some] h by auto
    then show ?thesis using assms(1) h Some by (simp add: evolves_def)
  qed
qed

lemma spec_ConsumeRefresh_evolves: "spec_ConsumeRefresh A token c = (res, A') \<Longrightarrow> evolves A A'"
  by (auto simp: spec_ConsumeRefresh_def evolves_def split: option.splits if_splits)

lemma spec_SaveRefresh_evolves: "spec_SaveRefresh A r = (err, A') \<Longrightarrow> evolves A A'"
  by (auto simp: spec_SaveRefresh_def evolves_def split: if_splits)

lemma spec_RevokeRefreshFamily_evolves: "spec_RevokeRefreshFamily A F = (res, A') \<Longrightarrow> evolves A A'"
  by (auto simp: spec_RevokeRefreshFamily_def revokeAll_def evolves_def split: if_splits)

lemma spec_ConsumeAuthCode_evolves: "spec_ConsumeAuthCode A code f = (res, A') \<Longrightarrow> evolves A A'"
  by (auto simp: spec_ConsumeAuthCode_def Let_def evolves_def split: option.splits if_splits)

lemmas spec_evolves = spec_ConsumeRefresh_evolves spec_SaveRefresh_evolves
  spec_RevokeRefreshFamily_evolves spec_ConsumeAuthCode_evolves

subsection \<open>Single use\<close>

definition spent :: "AbsTokens \<Rightarrow> string \<Rightarrow> bool" where
  "spent A h = (\<exists>x. a_refresh A h = Some x \<and> (ab_consumed x \<or> ab_revoked x))"

lemma spent_evolves: "evolves A A' \<Longrightarrow> spent A h \<Longrightarrow> spent A' h"
  unfolding spent_def by (metis evolves_keep)

lemma consume_spends: "spec_ConsumeRefresh A token c = (Live r, A') \<Longrightarrow> spent A' (Hash token)"
  by (auto simp: spec_ConsumeRefresh_def spent_def split: option.splits if_splits)

lemma spent_not_live: "spent A (Hash token) \<Longrightarrow> spec_ConsumeRefresh A token c \<noteq> (Live r, A')"
  by (auto simp: spec_ConsumeRefresh_def spent_def split: if_splits)

subsection \<open>Revocation is final\<close>

text \<open>A family is dead when it has tokens and all of them are revoked.\<close>

definition fam_dead :: "AbsTokens \<Rightarrow> string \<Rightarrow> bool" where
  "fam_dead A F = (fam_revoked A F \<and>
     (\<forall>h x. a_refresh A h = Some x \<longrightarrow> rt_FamilyID (ab_data x) = F \<longrightarrow> ab_revoked x))"

lemma fam_dead_evolves:
  assumes "evolves A A'" "fam_dead A F"
  shows "fam_dead A' F"
  unfolding fam_dead_def
proof (intro conjI allI impI)
  show "fam_revoked A' F" using assms evolves_fam_revoked by (simp add: fam_dead_def)
  fix h x assume h: "a_refresh A' h = Some x" "rt_FamilyID (ab_data x) = F"
  show "ab_revoked x"
  proof (cases "a_refresh A h")
    case None
    then show ?thesis using assms h unfolding evolves_def fam_dead_def by blast
  next
    case (Some y)
    then show ?thesis using assms h evolves_keep[OF assms(1) Some] by (auto simp: fam_dead_def)
  qed
qed

lemma revokeAll_lookup:
  "a_refresh (revokeAll A F) h = map_option
     (\<lambda>x. if rt_FamilyID (ab_data x) = F then x\<lparr>ab_revoked := True\<rparr> else x) (a_refresh A h)"
  by (simp add: revokeAll_def)

lemma revokeAll_none:
  assumes "a_family A F = {}"
  shows "revokeAll A F = A"
proof -
  have "a_refresh (revokeAll A F) h = a_refresh A h" for h
    using assms by (cases "a_refresh A h") (auto simp: revokeAll_lookup a_family_def)
  then have "a_refresh (revokeAll A F) = a_refresh A" by (rule ext)
  moreover have "a_codes (revokeAll A F) = a_codes A" by (simp add: revokeAll_def)
  ultimately show ?thesis by (intro AbsTokens.equality) simp_all
qed

lemma revokeAll_revoked:
  assumes "a_refresh (revokeAll A F) h = Some z" "rt_FamilyID (ab_data z) = F"
  shows "ab_revoked z"
proof -
  obtain y where "a_refresh A h = Some y"
    and z: "z = (if rt_FamilyID (ab_data y) = F then y\<lparr>ab_revoked := True\<rparr> else y)"
    using assms(1) unfolding revokeAll_lookup by blast
  then show ?thesis using assms(2) by (cases "rt_FamilyID (ab_data y) = F") simp_all
qed

lemma revoke_fam_dead:
  assumes "spec_RevokeRefreshFamily A F = (Inr n, A')"
  shows "fam_dead A' F"
proof -
  have A': "A' = revokeAll A F" and "a_family A F \<noteq> {}"
    using assms by (auto simp: spec_RevokeRefreshFamily_def split: if_splits)
  then obtain h x where x: "a_refresh A h = Some x" "rt_FamilyID (ab_data x) = F"
    by (auto simp: a_family_def)
  then have "a_refresh A' h = Some (x\<lparr>ab_revoked := True\<rparr>)"
    unfolding A' revokeAll_lookup by simp
  moreover have "rt_FamilyID (ab_data (x\<lparr>ab_revoked := True\<rparr>)) = F" "ab_revoked (x\<lparr>ab_revoked := True\<rparr>)"
    using x by simp_all
  ultimately have "fam_revoked A' F" unfolding fam_revoked_def by blast
  then show ?thesis unfolding fam_dead_def A' using revokeAll_revoked by blast
qed

lemma fam_dead_no_consume:
  "fam_dead A F \<Longrightarrow> spec_ConsumeRefresh A token c = (Live r, A') \<Longrightarrow> rt_FamilyID r \<noteq> F"
  by (auto simp: spec_ConsumeRefresh_def fam_dead_def split: option.splits if_splits)

lemma fam_dead_no_save:
  "fam_dead A (rt_FamilyID r) \<Longrightarrow> spec_SaveRefresh A r = (Some ErrRefreshFamilyRevoked, A)"
  by (simp add: spec_SaveRefresh_def fam_dead_def)

end
