(* ===== verification/Sqlite_Tokens.thy ===== *)
theory Sqlite_Tokens
  imports Token_Contract
begin

text \<open>
  The token tables of the SQLite store: authorization codes (src/state/sqlite/authcode.go), pending
  authorization requests (src/state/sqlite/authrequest.go) and refresh tokens
  (src/state/sqlite/refresh.go), one definition per method, each of which is one statement or a
  statement followed by a read. The \<^verbatim>\<open>TokenStore\<close> interface of src/oidc/token.go is a record of
  operations; \<^verbatim>\<open>sqliteTokenStore\<close> is the store's implementation of it.
\<close>

section \<open>Authorization requests\<close>

definition SaveAuthRequest :: "Store \<Rightarrow> AuthRequest \<Rightarrow> StoreError option \<times> Store" where
  "SaveAuthRequest s ar =
     (if exists_where (\<lambda>r. ar_InternalState r = ar_InternalState ar) (auth_requests s)
      then (Some ErrDuplicateInternalState, s)
      else (None, s\<lparr>auth_requests := auth_requests s @ [ar]\<rparr>))"

definition ConsumeAuthRequest :: "Store \<Rightarrow> string \<Rightarrow> (StoreError + AuthRequest) \<times> Store" where
  "ConsumeAuthRequest s internalState =
     (case find (\<lambda>r. ar_InternalState r = internalState) (auth_requests s) of
        None \<Rightarrow> (Inl ErrAuthRequestNotFound, s)
      | Some ar \<Rightarrow> (Inr ar, s\<lparr>auth_requests := filter (\<lambda>r. ar_InternalState r \<noteq> internalState) (auth_requests s)\<rparr>))"

section \<open>Authorization codes\<close>

definition SaveAuthCode :: "Store \<Rightarrow> AuthCode \<Rightarrow> StoreError option \<times> Store" where
  "SaveAuthCode s ac =
     (if exists_where (\<lambda>r. acr_code_hash r = Hash (ac_Code ac)) (auth_codes s)
      then (Some ErrDuplicateAuthCode, s)
      else (None, s\<lparr>auth_codes := auth_codes s @
        [\<lparr>acr_code_hash = Hash (ac_Code ac), acr_data = ac\<lparr>ac_Code := [], ac_FamilyID := []\<rparr>, acr_consumed_at = None\<rparr>]\<rparr>))"

definition ConsumeAuthCode :: "Store \<Rightarrow> string \<Rightarrow> string \<Rightarrow> Time \<Rightarrow> AuthCode Consumed \<times> Store" where
  "ConsumeAuthCode s code familyID at =
     (let live = (\<lambda>r. acr_code_hash r = Hash code \<and> acr_consumed_at r = None);
          mark = (\<lambda>r. r\<lparr>acr_consumed_at := Some at, acr_data := (acr_data r)\<lparr>ac_FamilyID := familyID\<rparr>\<rparr>)
      in case find live (auth_codes s) of
           Some r \<Rightarrow> (Live ((acr_data (mark r))\<lparr>ac_Code := code\<rparr>),
                     s\<lparr>auth_codes := update_where live mark (auth_codes s)\<rparr>)
         | None \<Rightarrow> (case find (\<lambda>r. acr_code_hash r = Hash code \<and> acr_consumed_at r \<noteq> None) (auth_codes s) of
               None \<Rightarrow> (Miss ErrAuthCodeNotFound, s)
             | Some r \<Rightarrow> (Reused (tombstoneCode code (acr_data r)), s)))"

section \<open>Refresh tokens\<close>

definition SaveRefresh :: "Store \<Rightarrow> Refresh \<Rightarrow> StoreError option \<times> Store" where
  "SaveRefresh s r =
     (if exists_where (\<lambda>row. rt_FamilyID (rr_data row) = rt_FamilyID r \<and> rr_revoked_at row \<noteq> None) (refresh_tokens s)
      then (Some ErrRefreshFamilyRevoked, s)
      else if exists_where (\<lambda>row. rr_token_hash row = Hash (rt_Token r)) (refresh_tokens s)
      then (Some ErrDuplicateRefreshToken, s)
      else (None, s\<lparr>refresh_tokens := refresh_tokens s @
        [\<lparr>rr_token_hash = Hash (rt_Token r), rr_data = r\<lparr>rt_Token := []\<rparr>, rr_consumed_at = None, rr_revoked_at = None\<rparr>]\<rparr>))"

definition scanRefresh :: "string \<Rightarrow> RefreshRow \<Rightarrow> Refresh" where
  "scanRefresh token row = (rr_data row)\<lparr>rt_Token := token\<rparr>"

definition ConsumeRefresh :: "Store \<Rightarrow> string \<Rightarrow> string \<Rightarrow> Time \<Rightarrow> Refresh Consumed \<times> Store" where
  "ConsumeRefresh s token clientID at =
     (let hash = Hash token;
          live = (\<lambda>row. rr_token_hash row = hash \<and> rt_ClientID (rr_data row) = clientID
                        \<and> rr_consumed_at row = None \<and> rr_revoked_at row = None)
      in case find live (refresh_tokens s) of
           Some row \<Rightarrow> (Live (scanRefresh token row),
              s\<lparr>refresh_tokens := update_where live (\<lambda>row. row\<lparr>rr_consumed_at := Some at\<rparr>) (refresh_tokens s)\<rparr>)
         | None \<Rightarrow> (case find (\<lambda>row. rr_token_hash row = hash \<and> rt_ClientID (rr_data row) = clientID
                                    \<and> rr_consumed_at row \<noteq> None) (refresh_tokens s) of
               None \<Rightarrow> (Miss ErrRefreshNotFound, s)
             | Some row \<Rightarrow> (Reused (scanRefresh token row), s)))"

text \<open>\<^verbatim>\<open>revokeRefresh\<close> stamps the unrevoked rows its predicate selects and counts the live ones.\<close>

definition revokeRefresh :: "(Refresh \<Rightarrow> bool) \<Rightarrow> Store \<Rightarrow> Time \<Rightarrow> nat \<times> Store" where
  "revokeRefresh sel s at =
     (let hit = (\<lambda>row. sel (rr_data row) \<and> rr_revoked_at row = None)
      in (count_where (\<lambda>row. hit row \<and> rr_consumed_at row = None) (refresh_tokens s),
          s\<lparr>refresh_tokens := update_where hit (\<lambda>row. row\<lparr>rr_revoked_at := Some at\<rparr>) (refresh_tokens s)\<rparr>))"

definition RevokeRefreshFamily :: "Store \<Rightarrow> string \<Rightarrow> Time \<Rightarrow> (StoreError + nat) \<times> Store" where
  "RevokeRefreshFamily s familyID at =
     (case revokeRefresh (\<lambda>r. rt_FamilyID r = familyID) s at of (n, s') \<Rightarrow>
        if 0 < n then (Inr n, s')
        else if \<not> exists_where (\<lambda>row. rt_FamilyID (rr_data row) = familyID) (refresh_tokens s')
        then (Inl ErrSessionNotFound, s')
        else (Inr 0, s'))"

definition RevokeRefreshByEmail :: "Store \<Rightarrow> string \<Rightarrow> Time \<Rightarrow> nat \<times> Store" where
  "RevokeRefreshByEmail s email at = revokeRefresh (\<lambda>r. ToLower (rt_Email r) = ToLower email) s at"

definition RevokeRefreshBySubject :: "Store \<Rightarrow> string \<Rightarrow> string \<Rightarrow> Time \<Rightarrow> nat \<times> Store" where
  "RevokeRefreshBySubject s connectorID subject at =
     revokeRefresh (\<lambda>r. rt_ConnectorID r = connectorID \<and> rt_Subject r = subject) s at"

record RefreshSession =
  rs_FamilyID :: string
  rs_ClientID :: string
  rs_ConnectorID :: string
  rs_Subject :: string
  rs_Email :: string
  rs_AuthTime :: Time
  rs_RotatedAt :: Time
  rs_ExpiresAt :: Time

record RefreshSessionFilter =
  rf_Email :: string
  rf_ConnectorID :: string
  rf_Subject :: string

definition refreshSession :: "RefreshRow \<Rightarrow> RefreshSession" where
  "refreshSession row = (let r = rr_data row in
     \<lparr>rs_FamilyID = rt_FamilyID r, rs_ClientID = rt_ClientID r, rs_ConnectorID = rt_ConnectorID r,
      rs_Subject = rt_Subject r, rs_Email = rt_Email r, rs_AuthTime = rt_AuthTime r,
      rs_RotatedAt = rt_CreatedAt r, rs_ExpiresAt = rt_ExpiresAt r\<rparr>)"

text \<open>\<^verbatim>\<open>ORDER BY email, auth_time\<close>: two stable sorts, the minor key first.\<close>

definition ListRefreshSessions :: "Store \<Rightarrow> RefreshSessionFilter \<Rightarrow> Time \<Rightarrow> RefreshSession list" where
  "ListRefreshSessions s f now =
     (let rows = filter (\<lambda>row. rr_consumed_at row = None \<and> rr_revoked_at row = None
          \<and> (rf_Email f = [] \<or> ToLower (rt_Email (rr_data row)) = ToLower (rf_Email f))
          \<and> (rf_ConnectorID f = [] \<or> rt_ConnectorID (rr_data row) = rf_ConnectorID f)
          \<and> (rf_Subject f = [] \<or> rt_Subject (rr_data row) = rf_Subject f)) (refresh_tokens s)
      in filter (\<lambda>rs. now < rs_ExpiresAt rs)
           (sort_key rs_Email (sort_key rs_AuthTime (map refreshSession rows))))"

section \<open>The store as a \<open>TokenStore\<close>\<close>

definition sqliteTokenStore :: "Store TokenStore" where
  "sqliteTokenStore = \<lparr>ts_ConsumeAuthCode = ConsumeAuthCode, ts_SaveRefresh = SaveRefresh,
     ts_ConsumeRefresh = ConsumeRefresh, ts_RevokeRefreshFamily = RevokeRefreshFamily\<rparr>"

text \<open>The primary keys, and the abstraction that forgets order and stamps.\<close>

definition wf_tokens :: "Store \<Rightarrow> bool" where
  "wf_tokens s = (distinct (map acr_code_hash (auth_codes s)) \<and> distinct (map rr_token_hash (refresh_tokens s)))"

definition abs_code :: "AuthCodeRow \<Rightarrow> AbsCode" where
  "abs_code r = \<lparr>acd_data = acr_data r, acd_consumed = (acr_consumed_at r \<noteq> None)\<rparr>"

definition abs_refresh :: "RefreshRow \<Rightarrow> AbsRefresh" where
  "abs_refresh r = \<lparr>ab_data = rr_data r, ab_consumed = (rr_consumed_at r \<noteq> None), ab_revoked = (rr_revoked_at r \<noteq> None)\<rparr>"

definition abs_tokens :: "Store \<Rightarrow> AbsTokens" where
  "abs_tokens s = \<lparr>
     a_codes = (\<lambda>h. map_option abs_code (find (\<lambda>r. acr_code_hash r = h) (auth_codes s))),
     a_refresh = (\<lambda>h. map_option abs_refresh (find (\<lambda>r. rr_token_hash r = h) (refresh_tokens s)))\<rparr>"

lemma abs_refresh_simps [simp]:
  "ab_data (abs_refresh r) = rr_data r"
  "ab_consumed (abs_refresh r) = (rr_consumed_at r \<noteq> None)"
  "ab_revoked (abs_refresh r) = (rr_revoked_at r \<noteq> None)"
  by (simp_all add: abs_refresh_def)

lemma abs_tokens_lookup [simp]:
  "a_codes (abs_tokens s) h = map_option abs_code (find (\<lambda>r. acr_code_hash r = h) (auth_codes s))"
  "a_refresh (abs_tokens s) h = map_option abs_refresh (find (\<lambda>r. rr_token_hash r = h) (refresh_tokens s))"
  by (simp_all add: abs_tokens_def)

lemma abs_tokens_eqI:
  assumes "\<And>h. a_codes A h = map_option abs_code (find (\<lambda>r. acr_code_hash r = h) (auth_codes s))"
    "\<And>h. a_refresh A h = map_option abs_refresh (find (\<lambda>r. rr_token_hash r = h) (refresh_tokens s))"
  shows "abs_tokens s = A"
  using assms by (cases A) (simp add: abs_tokens_def fun_eq_iff)

lemma wf_tokens_find:
  "wf_tokens s \<Longrightarrow> find (\<lambda>r. rr_token_hash r = h) (refresh_tokens s) = Some r \<longleftrightarrow>
     r \<in> set (refresh_tokens s) \<and> rr_token_hash r = h"
  by (simp add: wf_tokens_def find_key_Some_iff)

lemma abs_fam_revoked:
  "wf_tokens s \<Longrightarrow> fam_revoked (abs_tokens s) F \<longleftrightarrow>
     (\<exists>r\<in>set (refresh_tokens s). rt_FamilyID (rr_data r) = F \<and> rr_revoked_at r \<noteq> None)"
  by (force simp: fam_revoked_def wf_tokens_find)

lemma abs_family_empty:
  "wf_tokens s \<Longrightarrow> a_family (abs_tokens s) F = {} \<longleftrightarrow> \<not> (\<exists>r\<in>set (refresh_tokens s). rt_FamilyID (rr_data r) = F)"
  by (force simp: a_family_def wf_tokens_find)

lemma abs_live_count:
  assumes "wf_tokens s"
  shows "card (a_family (abs_tokens s) F \<inter> a_live (abs_tokens s)) =
    count_where (\<lambda>r. rt_FamilyID (rr_data r) = F \<and> rr_consumed_at r = None \<and> rr_revoked_at r = None) (refresh_tokens s)"
proof -
  have "a_family (abs_tokens s) F \<inter> a_live (abs_tokens s) =
     {h. \<exists>r. find (\<lambda>r. rr_token_hash r = h) (refresh_tokens s) = Some r \<and>
        (rt_FamilyID (rr_data r) = F \<and> rr_consumed_at r = None \<and> rr_revoked_at r = None)}"
    by (auto simp: a_family_def a_live_def)
  then show ?thesis
    using assms by (simp add: count_where_card[of rr_token_hash] wf_tokens_def)
qed

lemma ConsumeAuthCode_refines:
  assumes "wf_tokens s" "ConsumeAuthCode s code familyID at = (res, s')"
  shows "wf_tokens s' \<and> (res, abs_tokens s') = spec_ConsumeAuthCode (abs_tokens s) code familyID"
proof (cases "find (\<lambda>r. acr_code_hash r = Hash code) (auth_codes s)")
  case None
  then show ?thesis
    using assms by (simp add: ConsumeAuthCode_def spec_ConsumeAuthCode_def Let_def wf_tokens_def find_key_and)
next
  case (Some r)
  have d: "distinct (map acr_code_hash (auth_codes s))" using assms(1) by (simp add: wf_tokens_def)
  show ?thesis
  proof (cases "acr_consumed_at r")
    case None
    then have s': "res = Live ((acr_data r)\<lparr>ac_FamilyID := familyID, ac_Code := code\<rparr>)"
      "s' = s\<lparr>auth_codes := update_where (\<lambda>r. acr_code_hash r = Hash code \<and> acr_consumed_at r = None)
          (\<lambda>r. r\<lparr>acr_consumed_at := Some at, acr_data := (acr_data r)\<lparr>ac_FamilyID := familyID\<rparr>\<rparr>) (auth_codes s)\<rparr>"
      using assms(2) Some by (simp_all add: ConsumeAuthCode_def Let_def find_key_and[OF d])
    have "abs_tokens s' = (abs_tokens s)\<lparr>a_codes := (a_codes (abs_tokens s))(Hash code \<mapsto>
        \<lparr>acd_data = (acr_data r)\<lparr>ac_FamilyID := familyID\<rparr>, acd_consumed = True\<rparr>)\<rparr>"
      unfolding s' by (rule abs_tokens_eqI) (simp_all add: find_update_key Some None abs_code_def)
    then show ?thesis
      using assms(1) Some None s' 
      by (simp add: spec_ConsumeAuthCode_def Let_def abs_code_def wf_tokens_def update_where_key)
  next
    case (Some t)
    with \<open>find _ _ = Some r\<close> show ?thesis
      using assms by (simp add: ConsumeAuthCode_def spec_ConsumeAuthCode_def Let_def find_key_and[OF d] abs_code_def)
  qed
qed

lemma SaveRefresh_refines:
  assumes "wf_tokens s" "SaveRefresh s r = (err, s')"
  shows "wf_tokens s' \<and> (err, abs_tokens s') = spec_SaveRefresh (abs_tokens s) r"
proof (cases "err = None")
  case True
  let ?row = "\<lparr>rr_token_hash = Hash (rt_Token r), rr_data = r\<lparr>rt_Token := []\<rparr>, rr_consumed_at = None, rr_revoked_at = None\<rparr>"
  have s': "s' = s\<lparr>refresh_tokens := refresh_tokens s @ [?row]\<rparr>"
    and new: "Hash (rt_Token r) \<notin> rr_token_hash ` set (refresh_tokens s)"
    and ok: "\<not> fam_revoked (abs_tokens s) (rt_FamilyID r)"
    using assms True by (auto simp: SaveRefresh_def abs_fam_revoked split: if_splits)
  have none: "find (\<lambda>row. rr_token_hash row = Hash (rt_Token r)) (refresh_tokens s) = None"
    using new by (simp add: find_key_None_iff)
  have "abs_tokens s' = (abs_tokens s)\<lparr>a_refresh := (a_refresh (abs_tokens s))(Hash (rt_Token r) \<mapsto>
      \<lparr>ab_data = r\<lparr>rt_Token := []\<rparr>, ab_consumed = False, ab_revoked = False\<rparr>)\<rparr>"
    unfolding s' by (rule abs_tokens_eqI) (auto simp: find_append_new none abs_refresh_def split: option.splits)
  then show ?thesis
    using assms(1) new ok none True by (simp add: spec_SaveRefresh_def wf_tokens_def s')
next
  case False
  then show ?thesis
    using assms
    by (auto simp: SaveRefresh_def spec_SaveRefresh_def abs_fam_revoked find_key_None_iff split: if_splits
        intro: rev_image_eqI)
qed

lemma ConsumeRefresh_refines:
  assumes "wf_tokens s" "ConsumeRefresh s token c at = (res, s')"
  shows "wf_tokens s' \<and> (res, abs_tokens s') = spec_ConsumeRefresh (abs_tokens s) token c"
proof -
  have d: "distinct (map rr_token_hash (refresh_tokens s))" using assms(1) by (simp add: wf_tokens_def)
  let ?live = "\<lambda>row. rr_token_hash row = Hash token \<and> rt_ClientID (rr_data row) = c
      \<and> rr_consumed_at row = None \<and> rr_revoked_at row = None"
  show ?thesis
  proof (cases "\<exists>row. find (\<lambda>r. rr_token_hash r = Hash token) (refresh_tokens s) = Some row \<and> ?live row")
    case True
    then obtain row where row: "find (\<lambda>r. rr_token_hash r = Hash token) (refresh_tokens s) = Some row" "?live row"
      by blast
    then have s': "res = Live ((rr_data row)\<lparr>rt_Token := token\<rparr>)"
      "s' = s\<lparr>refresh_tokens := update_where ?live (\<lambda>row. row\<lparr>rr_consumed_at := Some at\<rparr>) (refresh_tokens s)\<rparr>"
      using assms(2) by (simp_all add: ConsumeRefresh_def Let_def find_key_and[OF d] scanRefresh_def)
    have "abs_tokens s' = (abs_tokens s)\<lparr>a_refresh := (a_refresh (abs_tokens s))(Hash token \<mapsto>
        (abs_refresh row)\<lparr>ab_consumed := True\<rparr>)\<rparr>"
      unfolding s' by (rule abs_tokens_eqI) (use row in \<open>simp_all add: find_update_key abs_refresh_def\<close>)
    then show ?thesis
      using assms(1) row s' by (simp add: spec_ConsumeRefresh_def wf_tokens_def update_where_key)
  next
    case False
    then show ?thesis
      using assms
      by (auto simp: ConsumeRefresh_def spec_ConsumeRefresh_def Let_def find_key_and[OF d] scanRefresh_def
          split: option.splits if_splits dest: find_SomeD)
  qed
qed

lemma RevokeRefreshFamily_refines:
  assumes "wf_tokens s" "RevokeRefreshFamily s F at = (res, s')"
  shows "wf_tokens s' \<and> (res, abs_tokens s') = spec_RevokeRefreshFamily (abs_tokens s) F"
proof -
  let ?hit = "\<lambda>row. rt_FamilyID (rr_data row) = F \<and> rr_revoked_at row = None"
  let ?s = "s\<lparr>refresh_tokens := update_where ?hit (\<lambda>row. row\<lparr>rr_revoked_at := Some at\<rparr>) (refresh_tokens s)\<rparr>"
  have wf: "wf_tokens ?s" using assms(1) by (simp add: wf_tokens_def update_where_key)
  have in_rows: "exists_where (\<lambda>row. rt_FamilyID (rr_data row) = F) rows \<longleftrightarrow> F \<in> (\<lambda>r. rt_FamilyID (rr_data r)) ` set rows"
    for rows by auto
  have ex: "exists_where (\<lambda>row. rt_FamilyID (rr_data row) = F) (refresh_tokens ?s) \<longleftrightarrow> a_family (abs_tokens s) F \<noteq> {}"
    using abs_family_empty[OF assms(1), of F] in_rows[of "refresh_tokens s"]
    unfolding in_rows by (auto simp: image_update_where)
  have n: "count_where (\<lambda>row. ?hit row \<and> rr_consumed_at row = None) (refresh_tokens s)
      = card (a_family (abs_tokens s) F \<inter> a_live (abs_tokens s))"
    using abs_live_count[OF assms(1)] by (simp add: conj_ac)
  have "a_refresh (revokeAll (abs_tokens s) F) h =
      map_option abs_refresh (find (\<lambda>r. rr_token_hash r = h) (refresh_tokens ?s))" for h
    by (cases "find (\<lambda>r. rr_token_hash r = h) (refresh_tokens s)")
       (auto simp: revokeAll_lookup find_update_where abs_refresh_def)
  then have a: "abs_tokens ?s = revokeAll (abs_tokens s) F"
    by (intro abs_tokens_eqI) (simp_all add: revokeAll_def)
  have none: "a_family (abs_tokens s) F = {} \<Longrightarrow> revokeAll (abs_tokens s) F = abs_tokens s"
    by (rule revokeAll_none)
  have "RevokeRefreshFamily s F at =
      (if 0 < card (a_family (abs_tokens s) F \<inter> a_live (abs_tokens s))
         then (Inr (card (a_family (abs_tokens s) F \<inter> a_live (abs_tokens s))), ?s)
       else if a_family (abs_tokens s) F = {} then (Inl ErrSessionNotFound, ?s) else (Inr 0, ?s))"
    unfolding RevokeRefreshFamily_def revokeRefresh_def Let_def prod.case n ex by simp
  then show ?thesis
    using assms(2) wf a none by (auto simp: spec_RevokeRefreshFamily_def split: if_splits)
qed

lemma sqliteTokenStore_simps [simp]:
  "ts_ConsumeAuthCode sqliteTokenStore = ConsumeAuthCode" "ts_SaveRefresh sqliteTokenStore = SaveRefresh"
  "ts_ConsumeRefresh sqliteTokenStore = ConsumeRefresh" "ts_RevokeRefreshFamily sqliteTokenStore = RevokeRefreshFamily"
  by (simp_all add: sqliteTokenStore_def)

interpretation sqlite: token_store sqliteTokenStore wf_tokens abs_tokens
  by unfold_locales
     (simp_all, blast dest: ConsumeAuthCode_refines, blast dest: SaveRefresh_refines,
      blast dest: ConsumeRefresh_refines, blast dest: RevokeRefreshFamily_refines)

end
