(* ===== verification/Device_Store.thy ===== *)
theory Device_Store
  imports State_Types
begin

text \<open>
  The device-code store of the RFC 8628 flow: the \<^verbatim>\<open>DeviceCodeStore\<close> interface with what its comments
  promise (src/oidc/devicecode.go), and its SQLite and PostgreSQL implementations
  (src/state/sqlite/device_codes.go, src/state/postgres/device_codes.go). SQLite runs a poll as up to
  three statements, so concurrent polls interleave; \<^verbatim>\<open>poll_step\<close> is that transition relation. PostgreSQL
  holds a row lock over the whole poll.
\<close>

section \<open>The interface and its specification\<close>

record 'st DeviceCodeStore =
  ds_SaveDeviceCode :: "'st \<Rightarrow> DeviceCode \<Rightarrow> StoreError option \<times> 'st"
  ds_LookupDeviceCodeByDeviceCode :: "'st \<Rightarrow> string \<Rightarrow> StoreError + DeviceCode"
  ds_LookupDeviceCodeByUserCode :: "'st \<Rightarrow> string \<Rightarrow> StoreError + DeviceCode"
  ds_PollDeviceCode :: "'st \<Rightarrow> string \<Rightarrow> Time \<Rightarrow> (StoreError + bool) \<times> 'st"
  ds_ApproveDeviceCode :: "'st \<Rightarrow> string \<Rightarrow> Identity \<Rightarrow> Time \<Rightarrow> StoreError option \<times> 'st"
  ds_DenyDeviceCode :: "'st \<Rightarrow> string \<Rightarrow> Time \<Rightarrow> StoreError option \<times> 'st"
  ds_ConsumeDeviceCode :: "'st \<Rightarrow> string \<Rightarrow> (StoreError + DeviceCode) \<times> 'st"

text \<open>The abstract state maps the hash of a device code to its row, with the code itself blanked.\<close>

type_synonym AbsDevices = "string \<rightharpoonup> DeviceCode"

definition pending :: "DeviceCode \<Rightarrow> bool" where
  "pending d = (dc_ApprovedAt d = None \<and> dc_DeniedAt d = None)"

text \<open>A poll inside the stored interval of the previous one.\<close>

definition tooFast :: "Time option \<Rightarrow> int \<Rightarrow> Time \<Rightarrow> bool" where
  "tooFast lastPolled interval now = (case lastPolled of None \<Rightarrow> False | Some t \<Rightarrow> now - t < interval * Second)"

definition approve :: "Identity \<Rightarrow> Time \<Rightarrow> DeviceCode \<Rightarrow> DeviceCode" where
  "approve who now d = d\<lparr>dc_ApprovedAt := Some now, dc_ConnectorID := id_ConnectorID who, dc_Subject := id_Subject who, dc_Email := id_Email who\<rparr>"

definition deny :: "Time \<Rightarrow> DeviceCode \<Rightarrow> DeviceCode" where
  "deny now d = d\<lparr>dc_DeniedAt := Some now\<rparr>"

definition polled :: "Time \<Rightarrow> DeviceCode \<Rightarrow> DeviceCode" where
  "polled now d = d\<lparr>dc_LastPolledAt := Some now,
     dc_IntervalSeconds := dc_IntervalSeconds d + (if tooFast (dc_LastPolledAt d) (dc_IntervalSeconds d) now then 5 else 0)\<rparr>"

definition spec_SaveDeviceCode :: "AbsDevices \<Rightarrow> DeviceCode \<Rightarrow> StoreError option \<times> AbsDevices" where
  "spec_SaveDeviceCode A d =
     (if A (Hash (dc_Code d)) \<noteq> None \<or> (\<exists>x\<in>ran A. dc_UserCode x = dc_UserCode d) then (Some ErrDuplicateDeviceCode, A)
      else (None, A(Hash (dc_Code d) \<mapsto> d\<lparr>dc_Code := []\<rparr>)))"

definition spec_LookupDeviceCode :: "AbsDevices \<Rightarrow> string \<Rightarrow> StoreError + DeviceCode" where
  "spec_LookupDeviceCode A code = (case A (Hash code) of None \<Rightarrow> Inl ErrDeviceCodeNotFound | Some d \<Rightarrow> Inr (d\<lparr>dc_Code := code\<rparr>))"

definition spec_PollDeviceCode :: "AbsDevices \<Rightarrow> string \<Rightarrow> Time \<Rightarrow> (StoreError + bool) \<times> AbsDevices" where
  "spec_PollDeviceCode A code now = (case A (Hash code) of None \<Rightarrow> (Inl ErrDeviceCodeNotFound, A)
     | Some d \<Rightarrow> (Inr (tooFast (dc_LastPolledAt d) (dc_IntervalSeconds d) now), A(Hash code \<mapsto> polled now d)))"

definition undecided :: "string \<Rightarrow> Time \<Rightarrow> DeviceCode \<Rightarrow> bool" where
  "undecided userCode now d = (dc_UserCode d = userCode \<and> pending d \<and> now < dc_ExpiresAt d)"

definition spec_decide :: "AbsDevices \<Rightarrow> string \<Rightarrow> Time \<Rightarrow> (DeviceCode \<Rightarrow> DeviceCode) \<Rightarrow> StoreError option \<times> AbsDevices" where
  "spec_decide A userCode now f =
     (if \<exists>d\<in>ran A. undecided userCode now d
      then (None, \<lambda>h. map_option (\<lambda>d. if undecided userCode now d then f d else d) (A h))
      else (Some ErrDeviceCodeNotPending, A))"

definition spec_ConsumeDeviceCode :: "AbsDevices \<Rightarrow> string \<Rightarrow> (StoreError + DeviceCode) \<times> AbsDevices" where
  "spec_ConsumeDeviceCode A code = (case A (Hash code) of None \<Rightarrow> (Inl ErrDeviceCodeNotFound, A)
     | Some d \<Rightarrow> (Inr (d\<lparr>dc_Code := code\<rparr>), A(Hash code := None)))"

definition user_codes_unique :: "AbsDevices \<Rightarrow> bool" where
  "user_codes_unique A = (\<forall>h h' d d'. A h = Some d \<longrightarrow> A h' = Some d' \<longrightarrow> dc_UserCode d = dc_UserCode d' \<longrightarrow> h = h')"

locale device_store =
  fixes dops :: "'st DeviceCodeStore"
    and dinv :: "'st \<Rightarrow> bool"
    and dabs :: "'st \<Rightarrow> AbsDevices"
  assumes unique: "dinv st \<Longrightarrow> user_codes_unique (dabs st)"
    and save: "dinv st \<Longrightarrow> ds_SaveDeviceCode dops st d = (err, st') \<Longrightarrow>
      dinv st' \<and> ((\<exists>e. err = Some (ErrStore e) \<and> dabs st' = dabs st) \<or> (err, dabs st') = spec_SaveDeviceCode (dabs st) d)"
    and lookup: "dinv st \<Longrightarrow> (\<exists>e. ds_LookupDeviceCodeByDeviceCode dops st code = Inl (ErrStore e))
      \<or> ds_LookupDeviceCodeByDeviceCode dops st code = spec_LookupDeviceCode (dabs st) code"
    and lookup_user: "dinv st \<Longrightarrow> ds_LookupDeviceCodeByUserCode dops st uc = Inr d \<Longrightarrow>
      \<exists>h. dabs st h = Some d \<and> dc_UserCode d = uc"
    and poll: "dinv st \<Longrightarrow> ds_PollDeviceCode dops st code now = (res, st') \<Longrightarrow>
      dinv st' \<and> ((\<exists>e. res = Inl (ErrStore e) \<and> dabs st' = dabs st) \<or> (res, dabs st') = spec_PollDeviceCode (dabs st) code now)"
    and approve: "dinv st \<Longrightarrow> ds_ApproveDeviceCode dops st uc who now = (err, st') \<Longrightarrow>
      dinv st' \<and> ((\<exists>e. err = Some (ErrStore e) \<and> dabs st' = dabs st) \<or> (err, dabs st') = spec_decide (dabs st) uc now (approve who now))"
    and deny: "dinv st \<Longrightarrow> ds_DenyDeviceCode dops st uc now = (err, st') \<Longrightarrow>
      dinv st' \<and> ((\<exists>e. err = Some (ErrStore e) \<and> dabs st' = dabs st) \<or> (err, dabs st') = spec_decide (dabs st) uc now (deny now))"
    and consume: "dinv st \<Longrightarrow> ds_ConsumeDeviceCode dops st code = (res2, st') \<Longrightarrow>
      dinv st' \<and> ((\<exists>e. res2 = Inl (ErrStore e) \<and> dabs st' = dabs st) \<or> (res2, dabs st') = spec_ConsumeDeviceCode (dabs st) code)"

section \<open>SQLite\<close>

definition SaveDeviceCode :: "Store \<Rightarrow> DeviceCode \<Rightarrow> StoreError option \<times> Store" where
  "SaveDeviceCode st dc =
     (if exists_where (\<lambda>r. dr_device_code_hash r = Hash (dc_Code dc) \<or> dc_UserCode (dr_data r) = dc_UserCode dc) (device_codes st)
      then (Some ErrDuplicateDeviceCode, st)
      else (None, st\<lparr>device_codes := device_codes st @ [\<lparr>dr_device_code_hash = Hash (dc_Code dc), dr_data = dc\<lparr>dc_Code := []\<rparr>\<rparr>]\<rparr>))"

definition lookupDeviceCode :: "Store \<Rightarrow> (DeviceRow \<Rightarrow> bool) \<Rightarrow> StoreError + DeviceCode" where
  "lookupDeviceCode st P = (case find P (device_codes st) of None \<Rightarrow> Inl ErrDeviceCodeNotFound | Some r \<Rightarrow> Inr (dr_data r))"

definition LookupDeviceCodeByDeviceCode :: "Store \<Rightarrow> string \<Rightarrow> StoreError + DeviceCode" where
  "LookupDeviceCodeByDeviceCode st deviceCode = (case lookupDeviceCode st (\<lambda>r. dr_device_code_hash r = Hash deviceCode) of
     Inl e \<Rightarrow> Inl e | Inr dc \<Rightarrow> Inr (dc\<lparr>dc_Code := deviceCode\<rparr>))"

definition LookupDeviceCodeByUserCode :: "Store \<Rightarrow> string \<Rightarrow> StoreError + DeviceCode" where
  "LookupDeviceCodeByUserCode st userCode = lookupDeviceCode st (\<lambda>r. dc_UserCode (dr_data r) = userCode)"

definition updateDevice :: "(DeviceRow \<Rightarrow> bool) \<Rightarrow> (DeviceCode \<Rightarrow> DeviceCode) \<Rightarrow> Store \<Rightarrow> nat \<times> Store" where
  "updateDevice P f st = (count_where P (device_codes st),
     st\<lparr>device_codes := update_where P (\<lambda>r. r\<lparr>dr_data := f (dr_data r)\<rparr>) (device_codes st)\<rparr>)"

text \<open>The three statements of a poll.\<close>

definition pollRead :: "Store \<Rightarrow> string \<Rightarrow> (Time option \<times> int) option" where
  "pollRead st hash = map_option (\<lambda>r. (dc_LastPolledAt (dr_data r), dc_IntervalSeconds (dr_data r)))
     (find (\<lambda>r. dr_device_code_hash r = hash) (device_codes st))"

definition pollSwap :: "string \<Rightarrow> Time \<Rightarrow> Time option \<Rightarrow> Store \<Rightarrow> nat \<times> Store" where
  "pollSwap hash now prev = updateDevice (\<lambda>r. dr_device_code_hash r = hash \<and> dc_LastPolledAt (dr_data r) = prev)
     (\<lambda>d. d\<lparr>dc_LastPolledAt := Some now\<rparr>)"

definition pollBump :: "string \<Rightarrow> Time \<Rightarrow> Store \<Rightarrow> Store" where
  "pollBump hash now st = snd (updateDevice (\<lambda>r. dr_device_code_hash r = hash)
     (\<lambda>d. d\<lparr>dc_LastPolledAt := Some now, dc_IntervalSeconds := dc_IntervalSeconds d + 5\<rparr>) st)"

definition PollDeviceCode :: "Store \<Rightarrow> string \<Rightarrow> Time \<Rightarrow> (StoreError + bool) \<times> Store" where
  "PollDeviceCode st deviceCode now = (let hash = Hash deviceCode in
     (case pollRead st hash of
        None \<Rightarrow> (Inl ErrDeviceCodeNotFound, st)
      | Some (lastPolled, interval) \<Rightarrow>
          if \<not> tooFast lastPolled interval now
          then (case pollSwap hash now lastPolled st of (n, st') \<Rightarrow>
              if n = 1 then (Inr False, st') else (Inr True, pollBump hash now st'))
          else (Inr True, pollBump hash now st)))"

definition decideDeviceCode :: "Store \<Rightarrow> Time \<Rightarrow> (DeviceCode \<Rightarrow> DeviceCode) \<Rightarrow> string \<Rightarrow> StoreError option \<times> Store" where
  "decideDeviceCode st now f userCode =
     (case find (\<lambda>r. dc_UserCode (dr_data r) = userCode) (device_codes st) of
        None \<Rightarrow> (Some ErrDeviceCodeNotPending, st)
      | Some r \<Rightarrow> if \<not> now < dc_ExpiresAt (dr_data r) then (Some ErrDeviceCodeNotPending, st)
          else (case updateDevice (\<lambda>r. dc_UserCode (dr_data r) = userCode \<and> dc_ApprovedAt (dr_data r) = None \<and> dc_DeniedAt (dr_data r) = None) f st of
              (n, st') \<Rightarrow> if n = 0 then (Some ErrDeviceCodeNotPending, st') else (None, st')))"

definition ApproveDeviceCode :: "Store \<Rightarrow> string \<Rightarrow> Identity \<Rightarrow> Time \<Rightarrow> StoreError option \<times> Store" where
  "ApproveDeviceCode st userCode who now = decideDeviceCode st now (approve who now) userCode"

definition DenyDeviceCode :: "Store \<Rightarrow> string \<Rightarrow> Time \<Rightarrow> StoreError option \<times> Store" where
  "DenyDeviceCode st userCode now = decideDeviceCode st now (deny now) userCode"

definition ConsumeDeviceCode :: "Store \<Rightarrow> string \<Rightarrow> (StoreError + DeviceCode) \<times> Store" where
  "ConsumeDeviceCode st deviceCode =
     (case find (\<lambda>r. dr_device_code_hash r = Hash deviceCode) (device_codes st) of
        None \<Rightarrow> (Inl ErrDeviceCodeNotFound, st)
      | Some r \<Rightarrow> (Inr ((dr_data r)\<lparr>dc_Code := deviceCode\<rparr>),
          st\<lparr>device_codes := filter (\<lambda>r. dr_device_code_hash r \<noteq> Hash deviceCode) (device_codes st)\<rparr>))"

definition sqliteDeviceStore :: "Store DeviceCodeStore" where
  "sqliteDeviceStore = \<lparr>ds_SaveDeviceCode = SaveDeviceCode, ds_LookupDeviceCodeByDeviceCode = LookupDeviceCodeByDeviceCode,
     ds_LookupDeviceCodeByUserCode = LookupDeviceCodeByUserCode, ds_PollDeviceCode = PollDeviceCode,
     ds_ApproveDeviceCode = ApproveDeviceCode, ds_DenyDeviceCode = DenyDeviceCode, ds_ConsumeDeviceCode = ConsumeDeviceCode\<rparr>"

section \<open>PostgreSQL\<close>

text \<open>The table is the same; a poll is one transaction and a decision one conditional update.\<close>

definition pg_PollDeviceCode :: "Store \<Rightarrow> string \<Rightarrow> Time \<Rightarrow> (StoreError + bool) \<times> Store" where
  "pg_PollDeviceCode st deviceCode now = (let hash = Hash deviceCode in
     (case find (\<lambda>r. dr_device_code_hash r = hash) (device_codes st) of
        None \<Rightarrow> (Inl ErrDeviceCodeNotFound, st)
      | Some r \<Rightarrow>
          let slowDown = tooFast (dc_LastPolledAt (dr_data r)) (dc_IntervalSeconds (dr_data r)) now;
              bump = (if slowDown then 5 else 0)
          in (Inr slowDown, snd (updateDevice (\<lambda>r. dr_device_code_hash r = hash)
                (\<lambda>d. d\<lparr>dc_LastPolledAt := Some now, dc_IntervalSeconds := dc_IntervalSeconds d + bump\<rparr>) st))))"

definition pg_decideDeviceCode :: "Store \<Rightarrow> Time \<Rightarrow> (DeviceCode \<Rightarrow> DeviceCode) \<Rightarrow> string \<Rightarrow> StoreError option \<times> Store" where
  "pg_decideDeviceCode st now f userCode =
     (case updateDevice (\<lambda>r. dc_UserCode (dr_data r) = userCode \<and> dc_ApprovedAt (dr_data r) = None \<and> dc_DeniedAt (dr_data r) = None
         \<and> now < dc_ExpiresAt (dr_data r)) f st of
        (n, st') \<Rightarrow> if n = 0 then (Some ErrDeviceCodeNotPending, st') else (None, st'))"

definition pg_ApproveDeviceCode :: "Store \<Rightarrow> string \<Rightarrow> Identity \<Rightarrow> Time \<Rightarrow> StoreError option \<times> Store" where
  "pg_ApproveDeviceCode st userCode who now = pg_decideDeviceCode st now (approve who now) userCode"

definition pg_DenyDeviceCode :: "Store \<Rightarrow> string \<Rightarrow> Time \<Rightarrow> StoreError option \<times> Store" where
  "pg_DenyDeviceCode st userCode now = pg_decideDeviceCode st now (deny now) userCode"

definition pg_SaveDeviceCode :: "Store \<Rightarrow> DeviceCode \<Rightarrow> StoreError option \<times> Store" where
  "pg_SaveDeviceCode st dc =
     (if exists_where (\<lambda>r. dr_device_code_hash r = Hash (dc_Code dc) \<or> dc_UserCode (dr_data r) = dc_UserCode dc) (device_codes st)
      then (Some ErrDuplicateDeviceCode, st)
      else (None, st\<lparr>device_codes := device_codes st @ [\<lparr>dr_device_code_hash = Hash (dc_Code dc), dr_data = dc\<lparr>dc_Code := []\<rparr>\<rparr>]\<rparr>))"

definition pg_ConsumeDeviceCode :: "Store \<Rightarrow> string \<Rightarrow> (StoreError + DeviceCode) \<times> Store" where
  "pg_ConsumeDeviceCode st deviceCode =
     (case find (\<lambda>r. dr_device_code_hash r = Hash deviceCode) (device_codes st) of
        None \<Rightarrow> (Inl ErrDeviceCodeNotFound, st)
      | Some r \<Rightarrow> (Inr ((dr_data r)\<lparr>dc_Code := deviceCode\<rparr>),
          st\<lparr>device_codes := filter (\<lambda>r. dr_device_code_hash r \<noteq> Hash deviceCode) (device_codes st)\<rparr>))"

definition pg_LookupDeviceCodeByDeviceCode :: "Store \<Rightarrow> string \<Rightarrow> StoreError + DeviceCode" where
  "pg_LookupDeviceCodeByDeviceCode st deviceCode = (case lookupDeviceCode st (\<lambda>r. dr_device_code_hash r = Hash deviceCode) of
     Inl e \<Rightarrow> Inl e | Inr dc \<Rightarrow> Inr (dc\<lparr>dc_Code := deviceCode\<rparr>))"

definition postgresDeviceStore :: "Store DeviceCodeStore" where
  "postgresDeviceStore = \<lparr>ds_SaveDeviceCode = pg_SaveDeviceCode, ds_LookupDeviceCodeByDeviceCode = pg_LookupDeviceCodeByDeviceCode,
     ds_LookupDeviceCodeByUserCode = LookupDeviceCodeByUserCode, ds_PollDeviceCode = pg_PollDeviceCode,
     ds_ApproveDeviceCode = pg_ApproveDeviceCode, ds_DenyDeviceCode = pg_DenyDeviceCode, ds_ConsumeDeviceCode = pg_ConsumeDeviceCode\<rparr>"

section \<open>Refinement\<close>

definition wf_devices :: "Store \<Rightarrow> bool" where
  "wf_devices st = (distinct (map dr_device_code_hash (device_codes st)) \<and> distinct (map (dc_UserCode \<circ> dr_data) (device_codes st)))"

definition abs_devices :: "Store \<Rightarrow> AbsDevices" where
  "abs_devices st h = map_option dr_data (find (\<lambda>r. dr_device_code_hash r = h) (device_codes st))"

lemma filter_key_and:
  "distinct (map k rows) \<Longrightarrow> filter (\<lambda>r. k r = h \<and> Q r) rows =
     (case find (\<lambda>r. k r = h) rows of None \<Rightarrow> [] | Some r \<Rightarrow> if Q r then [r] else [])"
proof (induction rows)
  case (Cons a rows)
  show ?case
  proof (cases "k a = h")
    case True
    then have "\<forall>r\<in>set rows. k r \<noteq> h" using Cons.prems by (metis distinct.simps(2) image_eqI list.set_map list.simps(9))
    then have "filter (\<lambda>r. k r = h \<and> Q r) rows = []" by (simp add: filter_empty_conv)
    then show ?thesis using True by simp
  qed (use Cons in simp)
qed simp

lemma abs_devices_Some:
  "wf_devices st \<Longrightarrow> abs_devices st h = Some d \<longleftrightarrow> (\<exists>r\<in>set (device_codes st). dr_device_code_hash r = h \<and> dr_data r = d)"
  unfolding abs_devices_def wf_devices_def by (auto simp: find_key_Some_iff)

lemma ran_abs_devices: "wf_devices st \<Longrightarrow> ran (abs_devices st) = dr_data ` set (device_codes st)"
  by (auto simp: ran_def abs_devices_Some)

lemma user_codes_unique_abs: "wf_devices st \<Longrightarrow> user_codes_unique (abs_devices st)"
  unfolding user_codes_unique_def
proof (intro allI impI)
  fix h h' d d' assume wf: "wf_devices st" and "abs_devices st h = Some d" "abs_devices st h' = Some d'" "dc_UserCode d = dc_UserCode d'"
  then obtain r r' where "r \<in> set (device_codes st)" "r' \<in> set (device_codes st)" "dr_device_code_hash r = h" "dr_device_code_hash r' = h'"
    "(dc_UserCode \<circ> dr_data) r = (dc_UserCode \<circ> dr_data) r'" by (auto simp: abs_devices_Some)
  moreover have "inj_on (dc_UserCode \<circ> dr_data) (set (device_codes st))" using wf unfolding wf_devices_def distinct_map by blast
  ultimately show "h = h'" by (metis inj_onD)
qed

lemma updateDevice_wf:
  assumes "wf_devices st" "\<And>d. dc_UserCode (f d) = dc_UserCode d"
  shows "wf_devices (snd (updateDevice P f st))"
proof -
  have "map dr_device_code_hash (update_where P (\<lambda>r. r\<lparr>dr_data := f (dr_data r)\<rparr>) (device_codes st)) = map dr_device_code_hash (device_codes st)"
    "map (dc_UserCode \<circ> dr_data) (update_where P (\<lambda>r. r\<lparr>dr_data := f (dr_data r)\<rparr>) (device_codes st)) = map (dc_UserCode \<circ> dr_data) (device_codes st)"
    by (rule update_where_key, simp add: assms)+
  then show ?thesis using assms(1) unfolding wf_devices_def updateDevice_def by simp
qed

lemma updateDevice_abs:
  "abs_devices (snd (updateDevice (\<lambda>r. Q (dr_data r)) f st)) h = map_option (\<lambda>d. if Q d then f d else d) (abs_devices st h)"
  by (simp add: abs_devices_def updateDevice_def find_update_where option.map_comp comp_def)
     (rule option.map_cong0, simp)

lemma updateDevice_abs_key:
  "abs_devices (snd (updateDevice (\<lambda>r. dr_device_code_hash r = hash \<and> Q (dr_data r)) f st)) =
     (case abs_devices st hash of None \<Rightarrow> abs_devices st
      | Some d \<Rightarrow> if Q d then (abs_devices st)(hash \<mapsto> f d) else abs_devices st)"
proof
  fix h
  show "abs_devices (snd (updateDevice (\<lambda>r. dr_device_code_hash r = hash \<and> Q (dr_data r)) f st)) h =
     (case abs_devices st hash of None \<Rightarrow> abs_devices st
      | Some d \<Rightarrow> if Q d then (abs_devices st)(hash \<mapsto> f d) else abs_devices st) h"
    unfolding abs_devices_def updateDevice_def
    by (cases "find (\<lambda>r. dr_device_code_hash r = hash) (device_codes st)") (auto simp: find_update_key[of dr_device_code_hash])
qed

lemmas updateDevice_abs_hash = updateDevice_abs_key[where Q = "\<lambda>_. True", simplified]

lemma updateDevice_count:
  assumes "wf_devices st"
  shows "fst (updateDevice (\<lambda>r. dr_device_code_hash r = hash \<and> Q (dr_data r)) f st) =
     (case abs_devices st hash of None \<Rightarrow> 0 | Some d \<Rightarrow> if Q d then 1 else 0)"
proof -
  have "filter (\<lambda>r. dr_device_code_hash r = hash \<and> Q (dr_data r)) (device_codes st) =
      (case find (\<lambda>r. dr_device_code_hash r = hash) (device_codes st) of None \<Rightarrow> [] | Some r \<Rightarrow> if Q (dr_data r) then [r] else [])"
    by (rule filter_key_and) (use assms in \<open>simp add: wf_devices_def\<close>)
  then show ?thesis unfolding updateDevice_def abs_devices_def count_where_def by (simp split: option.splits)
qed

lemma SaveDeviceCode_refines:
  assumes "wf_devices st" "SaveDeviceCode st d = (err, st')"
  shows "wf_devices st' \<and> (err, abs_devices st') = spec_SaveDeviceCode (abs_devices st) d"
proof -
  let ?dup = "exists_where (\<lambda>r. dr_device_code_hash r = Hash (dc_Code d) \<or> dc_UserCode (dr_data r) = dc_UserCode d) (device_codes st)"
  have dup: "?dup \<longleftrightarrow> abs_devices st (Hash (dc_Code d)) \<noteq> None \<or> (\<exists>x\<in>ran (abs_devices st). dc_UserCode x = dc_UserCode d)"
    unfolding ran_abs_devices[OF assms(1)] by (auto simp: abs_devices_def find_None_iff)
  show ?thesis
  proof (cases ?dup)
    case False
    then have st': "st' = st\<lparr>device_codes := device_codes st @ [\<lparr>dr_device_code_hash = Hash (dc_Code d), dr_data = d\<lparr>dc_Code := []\<rparr>\<rparr>]\<rparr>" "err = None"
      using assms(2) by (simp_all add: SaveDeviceCode_def del: exists_where_iff)
    have "wf_devices st'" using assms(1) False by (auto simp: st' wf_devices_def)
    moreover have "abs_devices st' = (abs_devices st)(Hash (dc_Code d) \<mapsto> d\<lparr>dc_Code := []\<rparr>)"
      using False by (auto simp: st' abs_devices_def find_append_new fun_eq_iff find_None_iff split: option.splits dest!: find_SomeD)
    ultimately show ?thesis using dup False st'(2) by (simp add: spec_SaveDeviceCode_def del: exists_where_iff)
  next
    case True
    then have "st' = st" "err = Some ErrDuplicateDeviceCode" using assms(2) by (simp_all add: SaveDeviceCode_def del: exists_where_iff)
    then show ?thesis using True assms(1) dup by (simp add: spec_SaveDeviceCode_def del: exists_where_iff)
  qed
qed

lemma LookupDeviceCode_refines: "LookupDeviceCodeByDeviceCode st code = spec_LookupDeviceCode (abs_devices st) code"
  by (simp add: LookupDeviceCodeByDeviceCode_def lookupDeviceCode_def spec_LookupDeviceCode_def abs_devices_def split: option.splits)

lemma LookupUserCode_refines:
  assumes "wf_devices st" "LookupDeviceCodeByUserCode st uc = Inr d"
  shows "\<exists>h. abs_devices st h = Some d \<and> dc_UserCode d = uc"
  using assms by (auto simp: LookupDeviceCodeByUserCode_def lookupDeviceCode_def abs_devices_Some dest!: find_SomeD split: option.splits)

lemma polled_simps [simp]: "dc_UserCode (polled now d) = dc_UserCode d" "dc_UserCode (approve who now d) = dc_UserCode d"
  "dc_UserCode (deny now d) = dc_UserCode d"
  by (simp_all add: polled_def approve_def deny_def)

lemma pollRead_abs: "pollRead st h = map_option (\<lambda>d. (dc_LastPolledAt d, dc_IntervalSeconds d)) (abs_devices st h)"
  by (simp add: pollRead_def abs_devices_def option.map_comp comp_def)

lemma pollSwap_abs:
  assumes "wf_devices st" "pollSwap h now prev st = (n, st')"
  shows "wf_devices st' \<and> (case abs_devices st h of None \<Rightarrow> n = 0 \<and> abs_devices st' = abs_devices st
     | Some d \<Rightarrow> if dc_LastPolledAt d = prev then n = 1 \<and> abs_devices st' = (abs_devices st)(h \<mapsto> d\<lparr>dc_LastPolledAt := Some now\<rparr>)
         else n = 0 \<and> abs_devices st' = abs_devices st)"
proof -
  let ?u = "updateDevice (\<lambda>r. dr_device_code_hash r = h \<and> dc_LastPolledAt (dr_data r) = prev) (\<lambda>d. d\<lparr>dc_LastPolledAt := Some now\<rparr>) st"
  have u: "?u = (n, st')" using assms(2) by (simp add: pollSwap_def)
  have "wf_devices (snd ?u)" by (rule updateDevice_wf[OF assms(1)]) simp
  then show ?thesis
    using u updateDevice_count[OF assms(1), of h "\<lambda>d. dc_LastPolledAt d = prev" "\<lambda>d. d\<lparr>dc_LastPolledAt := Some now\<rparr>"]
      updateDevice_abs_key[of h "\<lambda>d. dc_LastPolledAt d = prev" "\<lambda>d. d\<lparr>dc_LastPolledAt := Some now\<rparr>" st]
    by (auto split: option.splits)
qed

lemma pollBump_abs:
  assumes "wf_devices st"
  shows "wf_devices (pollBump h now st) \<and> abs_devices (pollBump h now st) = (case abs_devices st h of None \<Rightarrow> abs_devices st
     | Some d \<Rightarrow> (abs_devices st)(h \<mapsto> d\<lparr>dc_LastPolledAt := Some now, dc_IntervalSeconds := dc_IntervalSeconds d + 5\<rparr>))"
  unfolding pollBump_def updateDevice_abs_hash by (simp add: updateDevice_wf[OF assms] split: option.splits)

lemma PollDeviceCode_refines:
  assumes "wf_devices st" "PollDeviceCode st code now = (res, st')"
  shows "wf_devices st' \<and> (res, abs_devices st') = spec_PollDeviceCode (abs_devices st) code now"
proof (cases "abs_devices st (Hash code)")
  case None
  then show ?thesis using assms by (simp add: PollDeviceCode_def pollRead_abs spec_PollDeviceCode_def)
next
  case (Some d)
  show ?thesis
  proof (cases "tooFast (dc_LastPolledAt d) (dc_IntervalSeconds d) now")
    case True
    then have "st' = pollBump (Hash code) now st" "res = Inr True" using Some assms(2) by (simp_all add: PollDeviceCode_def pollRead_abs)
    then show ?thesis using Some True pollBump_abs[OF assms(1), of "Hash code" now] by (simp add: spec_PollDeviceCode_def polled_def)
  next
    case False
    obtain n st1 where sw: "pollSwap (Hash code) now (dc_LastPolledAt d) st = (n, st1)" by (cases "pollSwap (Hash code) now (dc_LastPolledAt d) st")
    then have "n = 1" "wf_devices st1" "abs_devices st1 = (abs_devices st)(Hash code \<mapsto> d\<lparr>dc_LastPolledAt := Some now\<rparr>)"
      using pollSwap_abs[OF assms(1) sw] Some by simp_all
    then show ?thesis using Some False sw assms(2) by (simp add: PollDeviceCode_def pollRead_abs spec_PollDeviceCode_def polled_def)
  qed
qed

lemma pg_PollDeviceCode_refines:
  assumes "wf_devices st" "pg_PollDeviceCode st code now = (res, st')"
  shows "wf_devices st' \<and> (res, abs_devices st') = spec_PollDeviceCode (abs_devices st) code now"
proof (cases "find (\<lambda>r. dr_device_code_hash r = Hash code) (device_codes st)")
  case None
  then show ?thesis using assms by (simp add: pg_PollDeviceCode_def spec_PollDeviceCode_def abs_devices_def)
next
  case (Some r)
  let ?slow = "tooFast (dc_LastPolledAt (dr_data r)) (dc_IntervalSeconds (dr_data r)) now"
  let ?f = "\<lambda>d. d\<lparr>dc_LastPolledAt := Some now, dc_IntervalSeconds := dc_IntervalSeconds d + (if ?slow then 5 else 0)\<rparr>"
  have st': "st' = snd (updateDevice (\<lambda>r. dr_device_code_hash r = Hash code) ?f st)" and res: "res = Inr ?slow"
    using assms(2) Some by (auto simp: pg_PollDeviceCode_def Let_def)
  have A: "abs_devices st (Hash code) = Some (dr_data r)" using Some by (simp add: abs_devices_def)
  have "wf_devices st'" unfolding st' by (rule updateDevice_wf[OF assms(1)]) simp
  moreover have "abs_devices st' = (abs_devices st)(Hash code \<mapsto> polled now (dr_data r))"
    unfolding st' updateDevice_abs_hash A by (simp add: polled_def)
  ultimately show ?thesis using A res by (simp add: spec_PollDeviceCode_def)
qed

lemma pg_decide_refines:
  assumes "wf_devices st" "\<And>d. dc_UserCode (f d) = dc_UserCode d" "pg_decideDeviceCode st now f uc = (err, st')"
  shows "wf_devices st' \<and> (err, abs_devices st') = spec_decide (abs_devices st) uc now f"
proof -
  let ?P = "\<lambda>r. dc_UserCode (dr_data r) = uc \<and> dc_ApprovedAt (dr_data r) = None \<and> dc_DeniedAt (dr_data r) = None \<and> now < dc_ExpiresAt (dr_data r)"
  let ?u = "updateDevice ?P f st"
  have P: "?P = (\<lambda>r. undecided uc now (dr_data r))" by (auto simp: undecided_def pending_def)
  have st': "st' = snd ?u" and err: "err = (if fst ?u = 0 then Some ErrDeviceCodeNotPending else None)"
    using assms(3) by (auto simp: pg_decideDeviceCode_def split: prod.splits if_splits)
  have n: "fst ?u = 0 \<longleftrightarrow> \<not> (\<exists>d\<in>ran (abs_devices st). undecided uc now d)"
    unfolding ran_abs_devices[OF assms(1)] P by (auto simp: updateDevice_def count_where_zero)
  have abs: "abs_devices st' = (\<lambda>h. map_option (\<lambda>d. if undecided uc now d then f d else d) (abs_devices st h))"
    unfolding st' P by (rule ext) (rule updateDevice_abs)
  have "abs_devices st' = abs_devices st" if "\<not> (\<exists>d\<in>ran (abs_devices st). undecided uc now d)"
  proof
    fix h show "abs_devices st' h = abs_devices st h"
      using that unfolding abs by (cases "abs_devices st h") (auto simp: ran_def)
  qed
  then show ?thesis using n err abs updateDevice_wf[OF assms(1,2), of ?P] st' unfolding spec_decide_def by auto
qed

text \<open>SQLite tests the expiry in a statement of its own; the code is unique, so the effect is the same.\<close>

lemma decideDeviceCode_pg:
  assumes "wf_devices st"
  shows "decideDeviceCode st now f uc = pg_decideDeviceCode st now f uc"
proof -
  have uniq: "r' = r" if "find (\<lambda>r. dc_UserCode (dr_data r) = uc) (device_codes st) = Some r" "r' \<in> set (device_codes st)" "dc_UserCode (dr_data r') = uc" for r r'
    using that assms find_key_Some_iff[of "dc_UserCode \<circ> dr_data" "device_codes st" uc] unfolding wf_devices_def
    by (metis (mono_tags, lifting) comp_apply distinct_key_unique find_SomeD)
  let ?P = "\<lambda>r. dc_UserCode (dr_data r) = uc \<and> dc_ApprovedAt (dr_data r) = None \<and> dc_DeniedAt (dr_data r) = None"
  let ?Q = "\<lambda>r. dc_UserCode (dr_data r) = uc \<and> dc_ApprovedAt (dr_data r) = None \<and> dc_DeniedAt (dr_data r) = None \<and> now < dc_ExpiresAt (dr_data r)"
  have none: "updateDevice ?Q f st = (0, st)" if "\<forall>r\<in>set (device_codes st). \<not> ?Q r"
    using that by (simp add: updateDevice_def count_where_zero update_where_none)
  show ?thesis
  proof (cases "find (\<lambda>r. dc_UserCode (dr_data r) = uc) (device_codes st)")
    case None
    then have "\<forall>r\<in>set (device_codes st). \<not> ?Q r" by (auto simp: find_None_iff)
    then show ?thesis using None none by (simp add: decideDeviceCode_def pg_decideDeviceCode_def)
  next
    case (Some r)
    show ?thesis
    proof (cases "now < dc_ExpiresAt (dr_data r)")
      case True
      have "\<forall>x\<in>set (device_codes st). ?P x \<longleftrightarrow> ?Q x" using uniq[OF Some] True by blast
      then have "updateDevice ?P f st = updateDevice ?Q f st"
        unfolding updateDevice_def count_where_def by (simp cong: filter_cong update_where_cong)
      then show ?thesis using Some True by (simp add: decideDeviceCode_def pg_decideDeviceCode_def)
    next
      case False
      then have "\<forall>x\<in>set (device_codes st). \<not> ?Q x" using uniq[OF Some] by blast
      then show ?thesis using Some False none by (simp add: decideDeviceCode_def pg_decideDeviceCode_def)
    qed
  qed
qed

lemma ConsumeDeviceCode_refines:
  assumes "wf_devices st" "ConsumeDeviceCode st code = (res, st')"
  shows "wf_devices st' \<and> (res, abs_devices st') = spec_ConsumeDeviceCode (abs_devices st) code"
proof (cases "find (\<lambda>r. dr_device_code_hash r = Hash code) (device_codes st)")
  case None
  then show ?thesis using assms by (simp add: ConsumeDeviceCode_def spec_ConsumeDeviceCode_def abs_devices_def)
next
  case (Some r)
  have st': "st' = st\<lparr>device_codes := filter (\<lambda>r. dr_device_code_hash r \<noteq> Hash code) (device_codes st)\<rparr>" and res: "res = Inr ((dr_data r)\<lparr>dc_Code := code\<rparr>)"
    using assms(2) Some by (simp_all add: ConsumeDeviceCode_def)
  have "abs_devices st' = (abs_devices st)(Hash code := None)"
    using assms(1) by (auto simp: st' abs_devices_def find_filter_key wf_devices_def fun_eq_iff split: option.splits dest: find_SomeD)
  moreover have "wf_devices st'" using assms(1) by (simp add: st' wf_devices_def distinct_map_filter)
  ultimately show ?thesis using Some res by (simp add: spec_ConsumeDeviceCode_def abs_devices_def)
qed

lemma pg_same:
  "pg_SaveDeviceCode = SaveDeviceCode" "pg_ConsumeDeviceCode = ConsumeDeviceCode"
  "pg_LookupDeviceCodeByDeviceCode = LookupDeviceCodeByDeviceCode"
  by (intro ext, simp add: pg_SaveDeviceCode_def SaveDeviceCode_def pg_ConsumeDeviceCode_def ConsumeDeviceCode_def
      pg_LookupDeviceCodeByDeviceCode_def LookupDeviceCodeByDeviceCode_def)+

interpretation sqlite_devices: device_store sqliteDeviceStore wf_devices abs_devices
  by unfold_locales (auto simp: sqliteDeviceStore_def user_codes_unique_abs LookupDeviceCode_refines ApproveDeviceCode_def DenyDeviceCode_def
      decideDeviceCode_pg dest: SaveDeviceCode_refines LookupUserCode_refines PollDeviceCode_refines ConsumeDeviceCode_refines pg_decide_refines[rotated 2])

interpretation postgres_devices: device_store postgresDeviceStore wf_devices abs_devices
  by unfold_locales (auto simp: postgresDeviceStore_def pg_same user_codes_unique_abs LookupDeviceCode_refines pg_ApproveDeviceCode_def pg_DenyDeviceCode_def
      dest: SaveDeviceCode_refines LookupUserCode_refines pg_PollDeviceCode_refines ConsumeDeviceCode_refines pg_decide_refines[rotated 2])

section \<open>Concurrent polls\<close>

text \<open>
  Where a poll of \<^verbatim>\<open>PollDeviceCode\<close> is: before its read, about to swap the stamp it read, about to
  bump, or done with its answer. Poll \<^verbatim>\<open>k\<close> carries the time \<^verbatim>\<open>nows k\<close> it was called with.
\<close>

datatype PollPC = PollStart | PollSwapping "Time option" | PollBumping | PollDone "StoreError + bool"

inductive poll_step :: "string \<Rightarrow> (nat \<Rightarrow> Time) \<Rightarrow> Store \<times> (nat \<Rightarrow> PollPC) \<Rightarrow> Store \<times> (nat \<Rightarrow> PollPC) \<Rightarrow> bool"
  for hash :: string and nows :: "nat \<Rightarrow> Time" where
  read_missing: "pc k = PollStart \<Longrightarrow> pollRead st hash = None \<Longrightarrow>
    poll_step hash nows (st, pc) (st, pc(k := PollDone (Inl ErrDeviceCodeNotFound)))"
| read_row: "pc k = PollStart \<Longrightarrow> pollRead st hash = Some (lastPolled, interval) \<Longrightarrow>
    poll_step hash nows (st, pc) (st, pc(k := if \<not> tooFast lastPolled interval (nows k) then PollSwapping lastPolled else PollBumping))"
| swap: "pc k = PollSwapping prev \<Longrightarrow> pollSwap hash (nows k) prev st = (n, st') \<Longrightarrow>
    poll_step hash nows (st, pc) (st', pc(k := if n = 1 then PollDone (Inr False) else PollBumping))"
| bump: "pc k = PollBumping \<Longrightarrow>
    poll_step hash nows (st, pc) (pollBump hash (nows k) st, pc(k := PollDone (Inr True)))"

text \<open>One poll run alone is \<^verbatim>\<open>PollDeviceCode\<close>.\<close>

lemma poll_alone:
  assumes "pc k = PollStart" "PollDeviceCode st code (nows k) = (res, st')"
  shows "(poll_step (Hash code) nows)\<^sup>*\<^sup>* (st, pc) (st', pc(k := PollDone res))"
proof (cases "pollRead st (Hash code)")
  case None
  then show ?thesis using assms poll_step.read_missing[of pc k st "Hash code" nows] by (auto simp: PollDeviceCode_def)
next
  case (Some li)
  obtain l i where li: "pollRead st (Hash code) = Some (l, i)" using Some by (cases li) simp
  have r: "poll_step (Hash code) nows (st, pc) (st, pc(k := if \<not> tooFast l i (nows k) then PollSwapping l else PollBumping))"
    using assms(1) li by (rule poll_step.read_row)
  show ?thesis
  proof (cases "tooFast l i (nows k)")
    case True
    let ?pc = "pc(k := PollBumping)"
    have "poll_step (Hash code) nows (st, ?pc) (pollBump (Hash code) (nows k) st, ?pc(k := PollDone (Inr True)))"
      by (rule poll_step.bump) simp
    then show ?thesis using r True li assms(2) by (auto simp: PollDeviceCode_def Let_def intro: converse_rtranclp_into_rtranclp)
  next
    case False
    let ?pc = "pc(k := PollSwapping l)"
    obtain n st1 where sw: "pollSwap (Hash code) (nows k) l st = (n, st1)" by (cases "pollSwap (Hash code) (nows k) l st")
    have s: "poll_step (Hash code) nows (st, ?pc) (st1, ?pc(k := if n = 1 then PollDone (Inr False) else PollBumping))"
      using sw poll_step.swap[of ?pc k l "Hash code" nows st n st1] by simp
    have b: "poll_step (Hash code) nows (st1, pc(k := PollBumping)) (pollBump (Hash code) (nows k) st1, (pc(k := PollBumping))(k := PollDone (Inr True)))"
      by (rule poll_step.bump) simp
    show ?thesis using r False li sw s b assms(2)
      by (cases "n = 1") (auto simp: PollDeviceCode_def Let_def intro: converse_rtranclp_into_rtranclp)
  qed
qed

text \<open>
  The invariant of polls that all fall inside one interval: after the first poll that passed, the stamp
  is the time of one of them, so a swap of the old stamp fails and a fresh read is too fast.
\<close>

definition poll_inv :: "string \<Rightarrow> (nat \<Rightarrow> Time) \<Rightarrow> Time option \<Rightarrow> int \<Rightarrow> Store \<times> (nat \<Rightarrow> PollPC) \<Rightarrow> bool" where
  "poll_inv hash nows prev iv s = (case s of (st, pc) \<Rightarrow> wf_devices st \<and>
     (\<forall>l i. pollRead st hash = Some (l, i) \<longrightarrow> iv \<le> i \<and> (l = prev \<or> l \<in> range (Some \<circ> nows))) \<and>
     (\<forall>k p. pc k = PollSwapping p \<longrightarrow> \<not> tooFast p iv (nows k) \<and> p = prev) \<and>
     (\<forall>j. pc j = PollDone (Inr False) \<longrightarrow> \<not> tooFast prev iv (nows j) \<and>
        (\<forall>l i. pollRead st hash = Some (l, i) \<longrightarrow> l \<noteq> prev) \<and> (\<forall>k. pc k = PollDone (Inr False) \<longrightarrow> k = j)))"

lemma tooFast_mono: "tooFast l i now \<Longrightarrow> i \<le> i' \<Longrightarrow> tooFast l i' now"
  by (auto simp: tooFast_def Second_def split: option.splits)

lemma poll_inv_step:
  assumes "poll_step hash nows s s'" "poll_inv hash nows prev iv s" "0 < iv" "\<forall>j k. nows k - nows j < iv * Second"
    "\<forall>k. prev \<noteq> Some (nows k) \<or> tooFast prev iv (nows k)"
  shows "poll_inv hash nows prev iv s'"
  using assms(1)
proof cases
  case (read_missing pc k st)
  then show ?thesis using assms(2) by (auto simp: poll_inv_def)
next
  case (read_row pc k st l i)
  have l: "iv \<le> i" "l = prev \<or> l \<in> range (Some \<circ> nows)" using assms(2) read_row by (auto simp: poll_inv_def)
  have "l = prev" if w: "\<not> tooFast l i (nows k)"
  proof (rule ccontr)
    assume "l \<noteq> prev"
    then obtain j where "l = Some (nows j)" using l by auto
    then have "tooFast l iv (nows k)" using assms(4) by (simp add: tooFast_def)
    then show False using tooFast_mono[OF _ l(1)] w by blast
  qed
  moreover have "\<not> tooFast l iv (nows k)" if "\<not> tooFast l i (nows k)" using that l(1) tooFast_mono by blast
  ultimately show ?thesis using assms(2) read_row by (auto simp: poll_inv_def split: if_splits)
next
  case (swap pc k p st n st')
  have inv: "wf_devices st" "\<not> tooFast p iv (nows k)" "p = prev" using assms(2) swap by (auto simp: poll_inv_def)
  note sw = pollSwap_abs[OF inv(1) swap(4)]
  show ?thesis
  proof (cases "n = 1")
    case True
    then obtain d where d: "abs_devices st hash = Some d" "dc_LastPolledAt d = prev"
      using sw inv(3) by (auto split: option.splits if_splits)
    have st': "wf_devices st'" "pollRead st' hash = Some (Some (nows k), dc_IntervalSeconds d)" "pollRead st hash = Some (prev, dc_IntervalSeconds d)"
      using sw d inv(3) by (auto simp: pollRead_abs)
    have ne: "Some (nows k) \<noteq> prev" using assms(5) inv by metis
    have none: "pc j \<noteq> PollDone (Inr False)" for j using assms(2) swap(1) st'(3) by (auto simp: poll_inv_def)
    have iv: "iv \<le> dc_IntervalSeconds d" using assms(2) swap(1) st'(3) by (auto simp: poll_inv_def)
    have sws: "\<not> tooFast q iv (nows m) \<and> q = prev" if "pc m = PollSwapping q" for m q
      using assms(2) swap(1) that by (auto simp: poll_inv_def)
    show ?thesis unfolding swap(2) poll_inv_def prod.case st'(2)
    proof (intro conjI allI impI)
      show "wf_devices st'" by (rule st'(1))
    qed (use True ne none iv sws inv(2,3) in \<open>auto split: if_splits\<close>)
  next
    case False
    then have st': "pollRead st' hash = pollRead st hash" "wf_devices st'" using sw by (auto simp: pollRead_abs split: option.splits if_splits)
    show ?thesis using assms(2) st'(2) False unfolding swap(1,2) poll_inv_def prod.case st'(1)
      by (intro conjI allI impI; simp split: if_splits)
  qed
next
  case (bump pc k st)
  have inv: "wf_devices st" using assms(2) bump by (auto simp: poll_inv_def)
  have r: "pollRead (pollBump hash (nows k) st) hash = map_option (\<lambda>(l, i). (Some (nows k), i + 5)) (pollRead st hash)"
    using pollBump_abs[OF inv, of hash "nows k"] by (auto simp: pollRead_abs split: option.splits)
  have ne: "Some (nows k) \<noteq> prev" if "\<not> tooFast prev iv (nows j)" for j
  proof
    assume "Some (nows k) = prev"
    then have "tooFast prev iv (nows j)" using assms(4) by (auto simp: tooFast_def)
    then show False using that by blast
  qed
  have read: "iv \<le> i \<and> l = Some (nows k)" if "pollRead (pollBump hash (nows k) st) hash = Some (l, i)" for l i
    using that assms(2) unfolding bump(1) poll_inv_def prod.case r by fastforce
  have old: "\<not> tooFast q iv (nows m) \<and> q = prev" if "pc m = PollSwapping q" for m q
    using assms(2) bump(1) that by (auto simp: poll_inv_def)
  have won: "\<not> tooFast prev iv (nows m) \<and> (\<forall>x. pc x = PollDone (Inr False) \<longrightarrow> x = m)" if "pc m = PollDone (Inr False)" for m
    using assms(2) bump(1) that by (auto simp: poll_inv_def)
  show ?thesis unfolding bump(2) poll_inv_def prod.case
  proof (intro conjI allI impI)
    show "wf_devices (pollBump hash (nows k) st)" using pollBump_abs[OF inv] by blast
  qed (use read old won ne in \<open>fastforce split: if_splits\<close>)+
qed

section \<open>Properties\<close>

text \<open>
  C25. Polls cannot slip past the interval together. However the statements of any number of polls of a
  code interleave, if their times all lie inside one stored interval, at most one of them is told that it
  is well-paced; every other one that has finished is told to slow down.
\<close>

theorem poll_at_most_one:
  assumes "wf_devices st" "pollRead st hash = Some (prev, iv)" "0 < iv" "\<forall>j k. nows k - nows j < iv * Second"
    "(poll_step hash nows)\<^sup>*\<^sup>* (st, \<lambda>_. PollStart) (st', pc)" "pc j = PollDone (Inr False)" "pc k = PollDone (Inr False)"
  shows "j = k"
proof -
  have p: "\<forall>k. prev \<noteq> Some (nows k) \<or> tooFast prev iv (nows k)" using assms(3) by (auto simp: tooFast_def Second_def)
  have "poll_inv hash nows prev iv (st', pc)"
    using assms(5)
  proof (induction rule: rtranclp_induct)
    case base
    then show ?case using assms(1,2) by (simp add: poll_inv_def)
  next
    case (step s s')
    then show ?case using poll_inv_step assms(3,4) p by blast
  qed
  then show ?thesis using assms(6,7) unfolding poll_inv_def by auto
qed

definition demoDevice :: DeviceCode where
  "demoDevice = \<lparr>dc_Code = [], dc_UserCode = ''BCDFGHJK'', dc_ClientID = ''cli'', dc_Scope = [], dc_ConnectorID = [], dc_Subject = [],
     dc_Email = [], dc_ApprovedAt = None, dc_DeniedAt = None, dc_LastPolledAt = None, dc_IntervalSeconds = 5, dc_CreatedAt = 0,
     dc_ExpiresAt = 600 * Second\<rparr>"

definition demoDeviceStore :: Store where
  "demoDeviceStore = emptyStore\<lparr>device_codes := [\<lparr>dr_device_code_hash = Hash ''dc'', dr_data = demoDevice\<rparr>]\<rparr>"

theorem poll_at_most_one_witness:
  "\<exists>st' pc. (poll_step (Hash ''dc'') (\<lambda>_. Second))\<^sup>*\<^sup>* (demoDeviceStore, \<lambda>_. PollStart) (st', pc) \<and>
     pc 0 = PollDone (Inr False) \<and> pc 1 \<noteq> PollDone (Inr False) \<and> pc 1 \<noteq> PollStart"
proof -
  let ?n = "\<lambda>_::nat. Second" and ?h = "Hash ''dc''" and ?p = "\<lambda>_::nat. PollStart"
  obtain r1 s1 where 1: "PollDeviceCode demoDeviceStore ''dc'' (?n 0) = (r1, s1)" by fastforce
  then have r1: "r1 = Inr False"
    by (auto simp: PollDeviceCode_def pollRead_def pollSwap_def updateDevice_def count_where_def demoDeviceStore_def demoDevice_def tooFast_def Let_def)
  obtain r2 s2 where 2: "PollDeviceCode s1 ''dc'' (?n 1) = (r2, s2)" by fastforce
  let ?q = "?p(0 := PollDone r1)" and ?q' = "(?p(0 := PollDone r1))(1 := PollDone r2)"
  have "(poll_step ?h ?n)\<^sup>*\<^sup>* (demoDeviceStore, ?p) (s1, ?q)" by (rule poll_alone[OF _ 1]) simp
  moreover have "(poll_step ?h ?n)\<^sup>*\<^sup>* (s1, ?q) (s2, ?q')" by (rule poll_alone[OF _ 2]) simp
  ultimately have run: "(poll_step ?h ?n)\<^sup>*\<^sup>* (demoDeviceStore, ?p) (s2, ?q')" by (rule rtranclp_trans)
  have "wf_devices demoDeviceStore" "pollRead demoDeviceStore ?h = Some (None, 5)"
    by (simp_all add: wf_devices_def demoDeviceStore_def pollRead_def demoDevice_def)
  from poll_at_most_one[OF this _ _ run, of 0 1] have "?q' 1 \<noteq> PollDone (Inr False)"
    using r1 by (auto simp: Second_def)
  then show ?thesis using run r1 by (intro exI[of _ s2] exI[of _ ?q']) auto
qed

end
