(* ===== verification/Oidc_Base.thy ===== *)
theory Oidc_Base
  imports State_Types Go_Http
begin

text \<open>
  What the OIDC handlers share: OAuth2 errors (src/oidc/authorize.go), parameter caps (src/oidc/params.go),
  the client registry (src/oidc/client.go), connector ids and token subjects (src/oidc/connector.go,
  src/oidc/authcode.go), the email-domain allowlist (src/oidc/callback.go), PKCE and HTTP Basic credentials
  (src/oidc/token.go). Constant-time comparison is equality.
\<close>

section \<open>Errors\<close>

text \<open>An error of a handler: an OAuth2 error response, the sentinel \<^verbatim>\<open>errNoPermissions\<close>, or anything else, a 500.\<close>

datatype HandlerError = OAuthErr (he_status: nat) (he_code: string) (he_desc: string) | ErrNoPermissions | ServerErr string

definition invalid_request :: string where "invalid_request = ''invalid_request''"
definition invalid_grant :: string where "invalid_grant = ''invalid_grant''"
definition invalid_client :: string where "invalid_client = ''invalid_client''"

fun digits :: "nat \<Rightarrow> string" where
  "digits n = (if n < 10 then [hexDigit n] else digits (n div 10) @ [hexDigit (n mod 10)])"

definition maxClientIDLen :: nat where "maxClientIDLen = 256"
definition maxRedirectURILen :: nat where "maxRedirectURILen = 2048"
definition maxScopeLen :: nat where "maxScopeLen = 1024"
definition maxStateLen :: nat where "maxStateLen = 512"
definition maxNonceLen :: nat where "maxNonceLen = 512"
definition maxCredentialLen :: nat where "maxCredentialLen = 1024"
definition pkceChallengeLen :: nat where "pkceChallengeLen = 43"

fun checkParamLengths :: "(string \<times> string \<times> nat) list \<Rightarrow> HandlerError option" where
  "checkParamLengths [] = None"
| "checkParamLengths ((name, v, mx) # caps) =
     (if mx < length v then Some (OAuthErr 400 invalid_request (name @ '' exceeds '' @ digits mx @ '' bytes''))
      else checkParamLengths caps)"

section \<open>Clients\<close>

type_synonym GrantType = string

definition grantAuthorizationCode :: string where "grantAuthorizationCode = ''authorization_code''"
definition grantRefreshToken :: string where "grantRefreshToken = ''refresh_token''"
definition grantDeviceCode :: string where "grantDeviceCode = ''urn:ietf:params:oauth:grant-type:device_code''"

record Client =
  ci_RedirectURIs :: "string list"
  ci_GrantTypes :: "GrantType list"
  ci_Secret :: string

type_synonym ClientRegistry = "(string \<times> Client) list"

definition Allows :: "Client \<Rightarrow> GrantType \<Rightarrow> bool" where
  "Allows c g = (g \<in> set (ci_GrantTypes c))"

definition Lookup :: "ClientRegistry \<Rightarrow> string \<Rightarrow> Client option" where
  "Lookup r clientID = map_of r clientID"

definition IsConfidential :: "ClientRegistry \<Rightarrow> string \<Rightarrow> bool" where
  "IsConfidential r clientID = (case map_of r clientID of None \<Rightarrow> False | Some c \<Rightarrow> ci_Secret c \<noteq> [])"

definition Authenticate :: "ClientRegistry \<Rightarrow> string \<Rightarrow> string \<Rightarrow> bool" where
  "Authenticate r clientID presented = (case map_of r clientID of None \<Rightarrow> False
     | Some c \<Rightarrow> if ci_Secret c = [] \<or> presented = [] then False else Sum256 (ci_Secret c) = Sum256 presented)"

datatype SecretError = MalformedSecret string | DuplicateSecret string | ErrUnknownClientSecret string

text \<open>\<^verbatim>\<open>WithSecrets\<close> writes into the registry as it goes; an error leaves what was written.\<close>

fun WithSecrets_loop :: "string list \<Rightarrow> string list \<Rightarrow> ClientRegistry \<Rightarrow> SecretError option \<times> ClientRegistry" where
  "WithSecrets_loop [] seen r = (None, r)"
| "WithSecrets_loop (e # es) seen r =
     (let entry = TrimSpace e in
      if entry = [] then WithSecrets_loop es seen r
      else case Cut entry (CHR '':'') of (cid, secret, ok) \<Rightarrow>
        if \<not> ok \<or> cid = [] \<or> secret = [] then (Some (MalformedSecret entry), r)
        else if cid \<in> set seen then (Some (DuplicateSecret cid), r)
        else case map_of r cid of None \<Rightarrow> (Some (ErrUnknownClientSecret cid), r)
          | Some c \<Rightarrow> WithSecrets_loop es (cid # seen) (AList.update cid (c\<lparr>ci_Secret := secret\<rparr>) r))"

definition WithSecrets :: "ClientRegistry \<Rightarrow> string \<Rightarrow> SecretError option \<times> ClientRegistry" where
  "WithSecrets r raw = WithSecrets_loop (Split raw (CHR '','')) [] r"

section \<open>Connectors, subjects and domains\<close>

definition isLowerAlpha :: "char \<Rightarrow> bool" where
  "isLowerAlpha c = (let n = of_char c :: nat in 97 \<le> n \<and> n \<le> 122)"

definition isDigit :: "char \<Rightarrow> bool" where
  "isDigit c = (let n = of_char c :: nat in 48 \<le> n \<and> n \<le> 57)"

definition isUpperAlpha :: "char \<Rightarrow> bool" where
  "isUpperAlpha c = (let n = of_char c :: nat in 65 \<le> n \<and> n \<le> 90)"

definition connectorIDPattern :: "string \<Rightarrow> bool" where
  "connectorIDPattern s = (case s of [] \<Rightarrow> False
     | c # r \<Rightarrow> isLowerAlpha c \<and> length r \<le> 31 \<and> list_all (\<lambda>d. isLowerAlpha d \<or> isDigit d) r)"

definition reservedConnectorIDs :: "string list" where
  "reservedConnectorIDs = [''key'', ''tempogate'', ''system'', ''local'']"

definition ValidateConnectorID :: "string \<Rightarrow> string option" where
  "ValidateConnectorID cid =
     (if \<not> connectorIDPattern cid then Some ''must match'' else if cid \<in> set reservedConnectorIDs then Some ''is reserved'' else None)"

definition TokenSubject :: "string \<Rightarrow> string \<Rightarrow> string" where
  "TokenSubject connectorID subject = connectorID @ '':'' @ subject"

definition ParseTokenSubject :: "string \<Rightarrow> (string \<times> string) option" where
  "ParseTokenSubject sub = (case Cut sub (CHR '':'') of (connectorID, subject, ok) \<Rightarrow>
     if \<not> ok \<or> subject = [] \<or> ValidateConnectorID connectorID \<noteq> None then None else Some (connectorID, subject))"

definition ParseDomains :: "string \<Rightarrow> string list" where
  "ParseDomains raw = filter (\<lambda>d. d \<noteq> []) (map (\<lambda>d. ToLower (TrimSpace d)) (Split raw (CHR '','')))"

definition emailDomainAllowed :: "string list \<Rightarrow> string \<Rightarrow> bool" where
  "emailDomainAllowed allowed email = (let at = LastIndex email (CHR ''@'') in
     if at < 0 \<or> at = int (length email) - 1 then False else ToLower (drop (nat at + 1) email) \<in> set allowed)"

section \<open>PKCE\<close>

definition verifyPKCE :: "string \<Rightarrow> string \<Rightarrow> bool" where
  "verifyPKCE verifier challenge = (RawURLEncode (Sum256 verifier) = challenge)"

definition validCodeVerifier :: "string \<Rightarrow> bool" where
  "validCodeVerifier v = (if length v < 43 \<or> 128 < length v then False
     else list_all (\<lambda>c. isUpperAlpha c \<or> isLowerAlpha c \<or> isDigit c \<or> c = CHR ''-'' \<or> c = CHR ''.'' \<or> c = CHR ''_'' \<or> c = CHR ''~'') v)"

definition validCodeChallenge :: "string \<Rightarrow> bool" where
  "validCodeChallenge v = (if length v \<noteq> pkceChallengeLen then False
     else list_all (\<lambda>c. isUpperAlpha c \<or> isLowerAlpha c \<or> isDigit c \<or> c = CHR ''-'' \<or> c = CHR ''_'') v)"

section \<open>HTTP Basic\<close>

definition hasBasicScheme :: "string \<Rightarrow> bool" where
  "hasBasicScheme header = (length ''Basic '' \<le> length header \<and> EqualFold (take (length ''Basic '') header) ''Basic '')"

definition parseBasicAuth :: "string \<Rightarrow> (string \<times> string) option" where
  "parseBasicAuth header =
     (if length header \<le> length ''Basic '' \<or> \<not> hasBasicScheme header then None
      else case StdDecode (TrimSpace (drop (length ''Basic '') header)) of None \<Rightarrow> None
        | Some raw \<Rightarrow> (case Cut raw (CHR '':'') of (u, p, found) \<Rightarrow>
            if \<not> found then None
            else Some (case QueryUnescape u of Some dec \<Rightarrow> dec | None \<Rightarrow> u, case QueryUnescape p of Some dec \<Rightarrow> dec | None \<Rightarrow> p)))"

definition clientCredentials :: "Values \<Rightarrow> string \<Rightarrow> string \<times> string" where
  "clientCredentials form authHeader = (case parseBasicAuth authHeader of
     Some (cid, secret) \<Rightarrow> (cid, secret) | None \<Rightarrow> (Get form ''client_id'', Get form ''client_secret''))"

text \<open>The challenge a 401 \<^verbatim>\<open>invalid_client\<close> carries when the client used HTTP Basic.\<close>

definition withBasicChallenge :: "HandlerError + 'a \<Rightarrow> string \<Rightarrow> string option" where
  "withBasicChallenge res authHeader = (case res of
     Inl (OAuthErr st code d) \<Rightarrow> if st \<noteq> 401 \<or> code \<noteq> invalid_client \<or> \<not> hasBasicScheme authHeader then None
       else Some (''Basic realm='' @ [char_of (34::nat)] @ ''tempogate'' @ [char_of (34::nat)])
   | _ \<Rightarrow> None)"

definition errLegacyGrant :: "string \<Rightarrow> HandlerError" where
  "errLegacyGrant kind = OAuthErr 400 invalid_grant (kind @ '' predates this tempogate version; sign in again'')"

section \<open>Lemmas\<close>

lemma Authenticate_eq:
  "Authenticate r cid presented \<longleftrightarrow> (\<exists>c. Lookup r cid = Some c \<and> ci_Secret c \<noteq> [] \<and> presented \<noteq> [] \<and> Sum256 (ci_Secret c) = Sum256 presented)"
  by (auto simp: Authenticate_def Lookup_def split: option.splits)

lemma Index_append: "c \<notin> set u \<Longrightarrow> Index (u @ c # v) c = int (length u)"
  by (induction u) auto

lemma Cut_append: "c \<notin> set u \<Longrightarrow> Cut (u @ c # v) c = (u, v, True)"
  by (simp add: Cut_def Index_append)

lemma Cut_SomeD: "Cut s c = (u, v, True) \<Longrightarrow> s = u @ c # v \<and> c \<notin> set u"
proof -
  assume a: "Cut s c = (u, v, True)"
  have "0 \<le> Index s c \<Longrightarrow> s = take (nat (Index s c)) s @ c # drop (nat (Index s c) + 1) s \<and> c \<notin> set (take (nat (Index s c)) s)"
    by (induction s) (auto simp: Let_def nat_add_distrib split: if_splits)
  then show ?thesis using a by (auto simp: Cut_def split: if_splits)
qed

lemma connectorIDPattern_no_colon: "connectorIDPattern cid \<Longrightarrow> CHR '':'' \<notin> set cid"
  by (auto simp: connectorIDPattern_def isLowerAlpha_def isDigit_def list_all_iff Let_def split: list.splits)

lemma TrimSpace_id: "(\<And>c. c \<in> set s \<Longrightarrow> \<not> isSpace c) \<Longrightarrow> TrimSpace s = s"
proof -
  assume a: "\<And>c. c \<in> set s \<Longrightarrow> \<not> isSpace c"
  then have "dropWhile isSpace t = t" if "set t \<subseteq> set s" for t using that by (auto simp: dropWhile_eq_self_iff hd_in_set subsetD)
  then show ?thesis by (simp add: TrimSpace_def)
qed

lemma StdEncode_no_space: "c \<in> set (StdEncode s) \<Longrightarrow> \<not> isSpace c"
  using RawStdEncode_chars(4) by (auto simp: StdEncode_def isSpace_def)

section \<open>Properties\<close>

text \<open>
  A token subject splits back. The subject composed for a valid connector id and a non-empty upstream
  subject parses to exactly that pair, whatever colons the upstream subject holds; and whatever parses was
  composed from what it parses to, so two identities never share a subject.
\<close>

theorem ParseTokenSubject_TokenSubject:
  "ParseTokenSubject sub = Some (cid, subject) \<longleftrightarrow> sub = TokenSubject cid subject \<and> ValidateConnectorID cid = None \<and> subject \<noteq> []"
proof
  assume "ParseTokenSubject sub = Some (cid, subject)"
  then have "Cut sub (CHR '':'') = (cid, subject, True)" "ValidateConnectorID cid = None" "subject \<noteq> []"
    by (auto simp: ParseTokenSubject_def split: prod.splits if_splits)
  then show "sub = TokenSubject cid subject \<and> ValidateConnectorID cid = None \<and> subject \<noteq> []"
    using Cut_SomeD by (auto simp: TokenSubject_def)
next
  assume a: "sub = TokenSubject cid subject \<and> ValidateConnectorID cid = None \<and> subject \<noteq> []"
  then have "CHR '':'' \<notin> set cid" using connectorIDPattern_no_colon by (auto simp: ValidateConnectorID_def split: if_splits)
  then show "ParseTokenSubject sub = Some (cid, subject)"
    using a Cut_append[of "CHR '':''" cid subject] by (simp add: ParseTokenSubject_def TokenSubject_def)
qed

text \<open>
  HTTP Basic credentials arrive intact. A client id and secret form-encoded and base64-encoded as
  RFC 6749 section 2.3.1 asks, under the scheme name in any letter case, are read back byte for byte,
  whatever bytes (colons, percent signs, spaces) they hold.
\<close>

theorem parseBasicAuth_encoded:
  assumes "ToLower scheme = ''basic''"
  shows "parseBasicAuth (scheme @ '' '' @ StdEncode (QueryEscape cid @ '':'' @ QueryEscape secret)) = Some (cid, secret)"
proof -
  let ?raw = "QueryEscape cid @ '':'' @ QueryEscape secret"
  let ?e = "StdEncode ?raw"
  have len: "length scheme = 5" using arg_cong[OF assms, of length] by (simp add: ToLower_def)
  have b: "ToLower ''Basic '' = ''basic ''" by code_simp
  have "?raw \<noteq> []" by simp
  then have "?e \<noteq> []" using StdDecode_StdEncode[of ?raw] by (auto simp: StdDecode_def RawStdDecode_def rawDecode_def HasSuffix_def)
  moreover have "hasBasicScheme (scheme @ '' '' @ ?e)"
    using assms len b by (simp add: hasBasicScheme_def EqualFold_def ToLower_def ToLowerByte_def)
  moreover have "TrimSpace ?e = ?e" by (rule TrimSpace_id) (rule StdEncode_no_space)
  moreover have "Cut ?raw (CHR '':'') = (QueryEscape cid, QueryEscape secret, True)"
    using Cut_append[OF QueryEscape_no_colon] by simp
  ultimately show ?thesis using len unfolding parseBasicAuth_def by simp
qed

theorem parseBasicAuth_encoded_witness:
  "parseBasicAuth (''bAsIc '' @ StdEncode (QueryEscape ''web ui'' @ '':'' @ QueryEscape ''p:%+'')) = Some (''web ui'', ''p:%+'')"
proof -
  have "ToLower ''bAsIc'' = ''basic''" by code_simp
  from parseBasicAuth_encoded[OF this, of "''web ui''" "''p:%+''"] show ?thesis by simp
qed

end
