(* ===== verification/Token.thy ===== *)
theory Token
  imports Sqlite_Tokens Device_Store Oidc_Base Signer
begin

text \<open>
  The token endpoint (src/oidc/token.go, src/oidc/device_token.go): the authorization-code, refresh-token
  and device-code grants over a \<^verbatim>\<open>TokenStore\<close>, a \<^verbatim>\<open>DeviceCodeStore\<close>, the client registry, the permission
  resolver and the signer. A handler takes the signer and the store and returns them with its result.
  Telemetry, logging and the declaration of secrets to the log redactor have no effect on the result and
  are left out. The clock readings of a request are \<^verbatim>\<open>ev_clk 0\<close>, \<^verbatim>\<open>ev_clk 1\<close>, ... in order; random
  bytes and jtis are inputs that may be missing.
\<close>

section \<open>Configuration and requests\<close>

record ('st, 'key, 'pub, 'set, 'tok) Token =
  tk_store :: "'st TokenStore"
  tk_devices :: "'st DeviceCodeStore option"
  tk_jwx :: "('key, 'pub, 'set, 'tok) Jwx"
  tk_clients :: ClientRegistry
  tk_connectors :: "string list option"
  tk_allowedDomains :: "string list"
  tk_authorizer :: PermissionResolver
  tk_accessTTL :: Duration
  tk_refreshTTL :: Duration
  tk_refreshMaxLifetime :: Duration

definition DefaultAccessTokenTTL :: Duration where "DefaultAccessTokenTTL = 4 * Hour"
definition IDTokenTTL :: Duration where "IDTokenTTL = 5 * Minute"
definition DefaultRefreshTokenTTL :: Duration where "DefaultRefreshTokenTTL = 7 * 24 * Hour"
definition DefaultRefreshMaxLifetime :: Duration where "DefaultRefreshMaxLifetime = 7 * 24 * Hour"

definition NewToken :: "'st TokenStore \<Rightarrow> ('key, 'pub, 'set, 'tok) Jwx \<Rightarrow> ClientRegistry \<Rightarrow> ('st, 'key, 'pub, 'set, 'tok) Token" where
  "NewToken store jx clients = \<lparr>tk_store = store, tk_devices = None, tk_jwx = jx, tk_clients = clients, tk_connectors = None,
     tk_allowedDomains = [], tk_authorizer = denyAll, tk_accessTTL = DefaultAccessTokenTTL, tk_refreshTTL = DefaultRefreshTokenTTL,
     tk_refreshMaxLifetime = DefaultRefreshMaxLifetime\<rparr>"

definition WithTokenLifetimes :: "Duration \<Rightarrow> Duration \<Rightarrow> Duration \<Rightarrow> ('st, 'key, 'pub, 'set, 'tok) Token \<Rightarrow> ('st, 'key, 'pub, 'set, 'tok) Token" where
  "WithTokenLifetimes access refreshIdle refreshMax t =
     (let t = (if 0 < access then t\<lparr>tk_accessTTL := access\<rparr> else t);
          t = (if 0 < refreshIdle then t\<lparr>tk_refreshTTL := refreshIdle\<rparr> else t)
      in if 0 < refreshMax then t\<lparr>tk_refreshMaxLifetime := refreshMax\<rparr> else t)"

definition ValidateTokenLifetimes :: "Duration \<Rightarrow> Duration \<Rightarrow> Duration \<Rightarrow> string option" where
  "ValidateTokenLifetimes access refreshIdle refreshMax =
     (if access \<le> 0 \<or> refreshIdle \<le> 0 \<or> refreshMax \<le> 0 then Some ''must all be positive''
      else if refreshIdle \<le> access then Some ''access must be shorter''
      else if refreshMax < refreshIdle then Some ''idle must not exceed max'' else None)"

record TokenEnv =
  ev_clk :: "nat \<Rightarrow> Time"
  ev_family :: "string option"
  ev_jti :: "string option"
  ev_idJti :: "string option"
  ev_refresh :: "string option"

record 'tok tokenOutput =
  to_CacheControl :: string
  to_Pragma :: string
  to_AccessToken :: 'tok
  to_TokenType :: string
  to_ExpiresIn :: int
  to_RefreshToken :: string
  to_IDToken :: 'tok

record AuthCodeRedemptionRequest =
  rq_Code :: string
  rq_ClientID :: string
  rq_RedirectURI :: string
  rq_CodeVerifier :: string
  rq_ClientSecret :: string

record AuthCodeRedemption =
  rd_Identity :: Identity
  rd_ClientID :: string
  rd_Nonce :: string
  rd_FamilyID :: string

record lineage =
  li_familyID :: string
  li_authTime :: Time

definition randomFamilyID :: "string option \<Rightarrow> string option" where
  "randomFamilyID rnd = map_option hexEncode rnd"

definition randomRefresh :: "string option \<Rightarrow> string option" where
  "randomRefresh rnd = map_option RawURLEncode rnd"

section \<open>Client authentication\<close>

definition authenticateClient :: "('st, 'key, 'pub, 'set, 'tok) Token \<Rightarrow> string \<Rightarrow> string \<Rightarrow> GrantType \<Rightarrow> HandlerError + Client" where
  "authenticateClient t clientID secret g = (case Lookup (tk_clients t) clientID of
     None \<Rightarrow> Inl (OAuthErr 401 invalid_client ''unknown client'')
   | Some c \<Rightarrow>
       if (ci_Secret c \<noteq> [] \<or> secret \<noteq> []) \<and> \<not> Authenticate (tk_clients t) clientID secret
       then Inl (OAuthErr 401 invalid_client ''client authentication failed'')
       else if \<not> Allows c g then Inl (OAuthErr 400 ''unauthorized_client'' ''client is not registered for this grant type'')
       else Inr c)"

section \<open>Revocation\<close>

definition revokeFamily :: "('st, 'key, 'pub, 'set, 'tok) Token \<Rightarrow> string \<Rightarrow> Time \<Rightarrow> 'st \<Rightarrow> HandlerError option \<times> 'st" where
  "revokeFamily t familyID now st = (case ts_RevokeRefreshFamily (tk_store t) st familyID now of
     (Inl e, st') \<Rightarrow> (Some (ServerErr ''oidc: revoke refresh token family''), st')
   | (Inr n, st') \<Rightarrow> (None, st'))"

section \<open>The authorization-code grant\<close>

definition RedeemAuthorizationCode :: "('st, 'key, 'pub, 'set, 'tok) Token \<Rightarrow> string option \<Rightarrow> Time \<Rightarrow> AuthCodeRedemptionRequest \<Rightarrow> 'st
    \<Rightarrow> (HandlerError + AuthCodeRedemption) \<times> 'st" where
  "RedeemAuthorizationCode t rnd now req st =
     (if rq_Code req = [] then (Inl (OAuthErr 400 invalid_request ''code is required''), st)
      else case authenticateClient t (rq_ClientID req) (rq_ClientSecret req) grantAuthorizationCode of
        Inl e \<Rightarrow> (Inl e, st)
      | Inr c \<Rightarrow>
          if ci_Secret c = [] \<and> rq_CodeVerifier req = [] then (Inl (OAuthErr 400 invalid_request ''code_verifier is required (PKCE)''), st)
          else if rq_CodeVerifier req \<noteq> [] \<and> \<not> validCodeVerifier (rq_CodeVerifier req)
          then (Inl (OAuthErr 400 invalid_request ''code_verifier must be 43-128 characters of [A-Za-z0-9-._~] (RFC 7636)''), st)
          else case randomFamilyID rnd of
            None \<Rightarrow> (Inl (ServerErr ''oidc: generate refresh token family''), st)
          | Some familyID \<Rightarrow>
            (case ts_ConsumeAuthCode (tk_store t) st (rq_Code req) familyID now of
               (Reused ac, st1) \<Rightarrow>
                 if ac_FamilyID ac \<noteq> [] then
                   (case revokeFamily t (ac_FamilyID ac) now st1 of
                      (Some e, st2) \<Rightarrow> (Inl e, st2)
                    | (None, st2) \<Rightarrow> (Inl (OAuthErr 400 invalid_grant ''unknown or already-redeemed authorization code''), st2))
                 else (Inl (OAuthErr 400 invalid_grant ''unknown or already-redeemed authorization code''), st1)
             | (Miss err, st1) \<Rightarrow>
                 if err = ErrAuthCodeNotFound then (Inl (OAuthErr 400 invalid_grant ''unknown or already-redeemed authorization code''), st1)
                 else (Inl (ServerErr ''oidc: consume auth code''), st1)
             | (Live ac, st1) \<Rightarrow>
                 if ac_ExpiresAt ac < now then (Inl (OAuthErr 400 invalid_grant ''authorization code expired''), st1)
                 else if ac_Subject ac = [] then (Inl (errLegacyGrant ''authorization code''), st1)
                 else if rq_ClientID req \<noteq> ac_ClientID ac then (Inl (OAuthErr 400 invalid_grant ''client_id does not match the authorization request''), st1)
                 else if rq_RedirectURI req \<noteq> ac_RedirectURI ac then (Inl (OAuthErr 400 invalid_grant ''redirect_uri does not match the authorization request''), st1)
                 else if ac_CodeChallenge ac \<noteq> [] \<and> rq_CodeVerifier req = []
                 then (Inl (OAuthErr 400 invalid_grant ''code_verifier is required (PKCE)''), st1)
                 else if ac_CodeChallenge ac \<noteq> [] \<and> \<not> verifyPKCE (rq_CodeVerifier req) (ac_CodeChallenge ac)
                 then (Inl (OAuthErr 400 invalid_grant ''PKCE verification failed''), st1)
                 else if ac_CodeChallenge ac = [] \<and> ci_Secret c = []
                 then (Inl (OAuthErr 400 invalid_grant ''authorization code is not bound to a PKCE challenge''), st1)
                 else (Inr \<lparr>rd_Identity = \<lparr>id_ConnectorID = ac_ConnectorID ac, id_Subject = ac_Subject ac, id_Email = ac_Email ac\<rparr>,
                          rd_ClientID = ac_ClientID ac, rd_Nonce = ac_Nonce ac, rd_FamilyID = familyID\<rparr>, st1)))"

section \<open>Issuing tokens\<close>

text \<open>\<^verbatim>\<open>issue\<close> reads the handler's clock as reading \<^verbatim>\<open>i\<close> and the signer's clocks after it.\<close>

definition issueExpiry :: "('st, 'key, 'pub, 'set, 'tok) Token \<Rightarrow> Time \<Rightarrow> Time \<Rightarrow> Time" where
  "issueExpiry t now authTime =
     (let expiresAt = now + tk_refreshTTL t; end' = authTime + tk_refreshMaxLifetime t in if end' < expiresAt then end' else expiresAt)"

definition accessRequest :: "('st, 'key, 'pub, 'set, 'tok) Token \<Rightarrow> Identity \<Rightarrow> string \<Rightarrow> Grant option \<Rightarrow> MintRequest" where
  "accessRequest t who clientID granted = \<lparr>mr_Subject = TokenSubject (id_ConnectorID who) (id_Subject who), mr_Permissions = ToClaim granted,
     mr_TTL = tk_accessTTL t, mr_Email = id_Email who, mr_IDP = id_ConnectorID who, mr_ClientID = clientID\<rparr>"

definition idRequest :: "Identity \<Rightarrow> string \<Rightarrow> string \<Rightarrow> lineage \<Rightarrow> IDTokenRequest" where
  "idRequest who clientID nonce l = \<lparr>it_Subject = TokenSubject (id_ConnectorID who) (id_Subject who), it_Email = id_Email who,
     it_IDP = id_ConnectorID who, it_Audience = clientID, it_Nonce = nonce, it_AuthTime = li_authTime l, it_TTL = IDTokenTTL\<rparr>"

definition issuedRefresh :: "('st, 'key, 'pub, 'set, 'tok) Token \<Rightarrow> Time \<Rightarrow> Identity \<Rightarrow> string \<Rightarrow> lineage \<Rightarrow> string \<Rightarrow> string \<Rightarrow> Refresh" where
  "issuedRefresh t now who clientID l jti refreshTok = \<lparr>rt_Token = refreshTok, rt_JTI = jti, rt_ClientID = clientID,
     rt_ConnectorID = id_ConnectorID who, rt_Subject = id_Subject who, rt_Email = id_Email who, rt_FamilyID = li_familyID l,
     rt_AuthTime = li_authTime l, rt_CreatedAt = now, rt_ExpiresAt = issueExpiry t now (li_authTime l)\<rparr>"

definition issue :: "('st, 'key, 'pub, 'set, 'tok) Token \<Rightarrow> TokenEnv \<Rightarrow> nat \<Rightarrow> Identity \<Rightarrow> string \<Rightarrow> string \<Rightarrow> lineage \<Rightarrow> 'key Signer \<Rightarrow> 'st
    \<Rightarrow> (HandlerError + 'tok tokenOutput) \<times> 'key Signer \<times> 'st" where
  "issue t env i who clientID nonce l0 sg st = (case permitted (tk_authorizer t) (id_Email who) of
     Inl e \<Rightarrow> (Inl (ServerErr ''oidc: resolve permissions''), sg, st)
   | Inr (grant, ok) \<Rightarrow>
       if \<not> ok then (Inl ErrNoPermissions, sg, st)
       else let now = ev_clk env i in
         (case (if li_familyID l0 = [] then map_option (\<lambda>f. \<lparr>li_familyID = f, li_authTime = now\<rparr>) (randomFamilyID (ev_family env)) else Some l0) of
            None \<Rightarrow> (Inl (ServerErr ''oidc: generate refresh token family''), sg, st)
          | Some l \<Rightarrow>
              (case Mint (tk_jwx t) sg (ev_jti env) (\<lambda>k. ev_clk env (i + 1 + k)) (accessRequest t who clientID grant) of
                 (Inl e, sg1) \<Rightarrow> (Inl (ServerErr ''oidc: mint access token''), sg1, st)
               | (Inr (access, jti), sg1) \<Rightarrow>
                   (case MintIDToken (tk_jwx t) sg1 (ev_idJti env) (\<lambda>k. ev_clk env (i + 3 + k)) (idRequest who clientID nonce l) of
                      (Inl e, sg2) \<Rightarrow> (Inl (ServerErr ''oidc: mint id token''), sg2, st)
                    | (Inr idToken, sg2) \<Rightarrow>
                        (case randomRefresh (ev_refresh env) of
                           None \<Rightarrow> (Inl (ServerErr ''oidc: generate refresh token''), sg2, st)
                         | Some refreshTok \<Rightarrow>
                             (case ts_SaveRefresh (tk_store t) st (issuedRefresh t now who clientID l jti refreshTok) of
                                (Some err, st') \<Rightarrow>
                                  (Inl (if err = ErrRefreshFamilyRevoked then OAuthErr 400 invalid_grant ''the session has been revoked''
                                        else ServerErr ''oidc: persist refresh token''), sg2, st')
                              | (None, st') \<Rightarrow>
                                  (Inr \<lparr>to_CacheControl = ''no-store'', to_Pragma = ''no-cache'', to_AccessToken = access, to_TokenType = ''Bearer'',
                                        to_ExpiresIn = tk_accessTTL t div Second, to_RefreshToken = refreshTok, to_IDToken = idToken\<rparr>, sg2, st')))))))"

definition msgNoAccess :: string where
  "msgNoAccess = ''no Temporal access is granted to this account; ask an administrator for access''"

definition refuseNoPermissions :: "string \<Rightarrow> HandlerError" where
  "refuseNoPermissions code = OAuthErr 400 code msgNoAccess"

definition codeRequest :: "Values \<Rightarrow> string \<Rightarrow> AuthCodeRedemptionRequest" where
  "codeRequest form authHeader = (case clientCredentials form authHeader of (clientID, presentedSecret) \<Rightarrow>
     \<lparr>rq_Code = Get form ''code'', rq_ClientID = clientID, rq_RedirectURI = Get form ''redirect_uri'',
      rq_CodeVerifier = Get form ''code_verifier'', rq_ClientSecret = presentedSecret\<rparr>)"

definition authorizationCodeGrant :: "('st, 'key, 'pub, 'set, 'tok) Token \<Rightarrow> TokenEnv \<Rightarrow> Values \<Rightarrow> string \<Rightarrow> 'key Signer \<Rightarrow> 'st
    \<Rightarrow> (HandlerError + 'tok tokenOutput) \<times> 'key Signer \<times> 'st" where
  "authorizationCodeGrant t env form authHeader sg st =
     (case RedeemAuthorizationCode t (ev_family env) (ev_clk env 0) (codeRequest form authHeader) st of
         (Inl e, st1) \<Rightarrow> (Inl e, sg, st1)
       | (Inr r, st1) \<Rightarrow>
           (case issue t env 2 (rd_Identity r) (rd_ClientID r) (rd_Nonce r) \<lparr>li_familyID = rd_FamilyID r, li_authTime = ev_clk env 1\<rparr> sg st1 of
              (Inl ErrNoPermissions, sg', st') \<Rightarrow> (Inl (refuseNoPermissions invalid_grant), sg', st')
            | out \<Rightarrow> out))"

section \<open>The refresh-token grant\<close>

definition connectorConfigured :: "('st, 'key, 'pub, 'set, 'tok) Token \<Rightarrow> string \<Rightarrow> bool" where
  "connectorConfigured t cid = (case tk_connectors t of None \<Rightarrow> False | Some cs \<Rightarrow> cid \<in> set cs)"

text \<open>Revoke the family and refuse with \<^verbatim>\<open>e\<close>; a failed revocation is a 500 instead.\<close>

definition revokeAndRefuse :: "('st, 'key, 'pub, 'set, 'tok) Token \<Rightarrow> string \<Rightarrow> Time \<Rightarrow> HandlerError \<Rightarrow> 'st \<Rightarrow> HandlerError \<times> 'st" where
  "revokeAndRefuse t familyID now e st = (case revokeFamily t familyID now st of (Some e', st') \<Rightarrow> (e', st') | (None, st') \<Rightarrow> (e, st'))"

definition refreshTokenGrant :: "('st, 'key, 'pub, 'set, 'tok) Token \<Rightarrow> TokenEnv \<Rightarrow> Values \<Rightarrow> string \<Rightarrow> 'key Signer \<Rightarrow> 'st
    \<Rightarrow> (HandlerError + 'tok tokenOutput) \<times> 'key Signer \<times> 'st" where
  "refreshTokenGrant t env form authHeader sg st =
     (let token = Get form ''refresh_token'' in
      if token = [] then (Inl (OAuthErr 400 invalid_request ''refresh_token is required''), sg, st)
      else case clientCredentials form authHeader of (clientID, secret) \<Rightarrow>
        (case authenticateClient t clientID secret grantRefreshToken of
           Inl e \<Rightarrow> (Inl e, sg, st)
         | Inr c \<Rightarrow>
             let now = ev_clk env 0 in
             (case ts_ConsumeRefresh (tk_store t) st token clientID now of
                (Reused rt, st1) \<Rightarrow>
                  (case revokeAndRefuse t (rt_FamilyID rt) now (OAuthErr 400 invalid_grant ''refresh token already used; the session has been revoked'') st1 of
                     (e, st2) \<Rightarrow> (Inl e, sg, st2))
              | (Miss err, st1) \<Rightarrow>
                  (Inl (if err = ErrRefreshNotFound then OAuthErr 400 invalid_grant ''unknown, revoked, or other client's refresh token''
                        else ServerErr ''oidc: consume refresh token''), sg, st1)
              | (Live rt, st1) \<Rightarrow>
                  if rt_ExpiresAt rt < now then (Inl (OAuthErr 400 invalid_grant ''refresh token expired''), sg, st1)
                  else if \<not> now < rt_AuthTime rt + tk_refreshMaxLifetime t
                  then (Inl (OAuthErr 400 invalid_grant ''session reached its maximum lifetime; sign in again''), sg, st1)
                  else if rt_Subject rt = [] then (Inl (errLegacyGrant ''refresh token''), sg, st1)
                  else if \<not> connectorConfigured t (rt_ConnectorID rt) then
                    (case revokeAndRefuse t (rt_FamilyID rt) now (OAuthErr 400 invalid_grant ''the sign-in method of this session is no longer available; sign in again'') st1 of
                       (e, st2) \<Rightarrow> (Inl e, sg, st2))
                  else if \<not> emailDomainAllowed (tk_allowedDomains t) (rt_Email rt) then
                    (case revokeAndRefuse t (rt_FamilyID rt) now (OAuthErr 400 invalid_grant ''email domain is no longer allowed'') st1 of
                       (e, st2) \<Rightarrow> (Inl e, sg, st2))
                  else
                    (case issue t env 1 \<lparr>id_ConnectorID = rt_ConnectorID rt, id_Subject = rt_Subject rt, id_Email = rt_Email rt\<rparr> (rt_ClientID rt) []
                        \<lparr>li_familyID = rt_FamilyID rt, li_authTime = rt_AuthTime rt\<rparr> sg st1 of
                       (Inl ErrNoPermissions, sg', st2) \<Rightarrow>
                         (case revokeAndRefuse t (rt_FamilyID rt) now (OAuthErr 400 invalid_grant msgNoAccess) st2 of (e, st3) \<Rightarrow> (Inl e, sg', st3))
                     | out \<Rightarrow> out))))"

section \<open>The device-code grant\<close>

definition deviceCodeGrant :: "('st, 'key, 'pub, 'set, 'tok) Token \<Rightarrow> TokenEnv \<Rightarrow> Values \<Rightarrow> string \<Rightarrow> 'key Signer \<Rightarrow> 'st
    \<Rightarrow> (HandlerError + 'tok tokenOutput) \<times> 'key Signer \<times> 'st" where
  "deviceCodeGrant t env form authHeader sg st = (case tk_devices t of
     None \<Rightarrow> (Inl (OAuthErr 400 ''unsupported_grant_type'' ''device_code grant is not enabled on this server''), sg, st)
   | Some dev \<Rightarrow>
     let deviceCode = Get form ''device_code'' in
     if deviceCode = [] then (Inl (OAuthErr 400 invalid_request ''device_code is required''), sg, st)
     else case clientCredentials form authHeader of (clientID, secret) \<Rightarrow>
       if clientID = [] then (Inl (OAuthErr 400 invalid_request ''client_id is required''), sg, st)
       else (case authenticateClient t clientID secret grantDeviceCode of
         Inl e \<Rightarrow> (Inl e, sg, st)
       | Inr _ \<Rightarrow> (case ds_LookupDeviceCodeByDeviceCode dev st deviceCode of
           Inl err \<Rightarrow> (Inl (if err = ErrDeviceCodeNotFound then OAuthErr 400 invalid_grant ''unknown or already-consumed device_code''
                           else ServerErr ''oidc: lookup device code''), sg, st)
         | Inr dc \<Rightarrow>
             if clientID \<noteq> dc_ClientID dc
             then (Inl (OAuthErr 401 invalid_client ''client_id does not match the device authorization request''), sg, st)
             else let now = ev_clk env 0 in
               (case ds_PollDeviceCode dev st deviceCode now of
                  (Inl err, st1) \<Rightarrow> (Inl (if err = ErrDeviceCodeNotFound then OAuthErr 400 invalid_grant ''unknown or already-consumed device_code''
                                     else ServerErr ''oidc: record device code poll''), sg, st1)
                | (Inr slowDown, st1) \<Rightarrow>
                    if slowDown then (Inl (OAuthErr 400 ''slow_down'' ''polling faster than the agreed interval''), sg, st1)
                    else if dc_ExpiresAt dc < now
                    then (Inl (OAuthErr 400 ''expired_token'' ''device_code expired''), sg, snd (ds_ConsumeDeviceCode dev st1 deviceCode))
                    else if dc_DeniedAt dc \<noteq> None
                    then (Inl (OAuthErr 400 ''access_denied'' ''the device authorization request was denied''), sg, snd (ds_ConsumeDeviceCode dev st1 deviceCode))
                    else if dc_ApprovedAt dc = None
                    then (Inl (OAuthErr 400 ''authorization_pending'' ''user has not yet completed the device authorization''), sg, st1)
                    else (case ds_ConsumeDeviceCode dev st1 deviceCode of
                        (Inl err, st2) \<Rightarrow> (Inl (if err = ErrDeviceCodeNotFound then OAuthErr 400 invalid_grant ''device_code already consumed''
                                           else ServerErr ''oidc: consume device code''), sg, st2)
                      | (Inr final, st2) \<Rightarrow>
                          if dc_Subject final = [] then (Inl (errLegacyGrant ''device code''), sg, st2)
                          else (case issue t env 1 \<lparr>id_ConnectorID = dc_ConnectorID final, id_Subject = dc_Subject final, id_Email = dc_Email final\<rparr>
                                  (dc_ClientID final) [] \<lparr>li_familyID = [], li_authTime = zeroTime\<rparr> sg st2 of
                               (Inl ErrNoPermissions, sg', st') \<Rightarrow> (Inl (refuseNoPermissions ''access_denied''), sg', st')
                             | out \<Rightarrow> out))))))"

section \<open>Dispatch\<close>

definition dispatch :: "('st, 'key, 'pub, 'set, 'tok) Token \<Rightarrow> TokenEnv \<Rightarrow> Values \<Rightarrow> string \<Rightarrow> 'key Signer \<Rightarrow> 'st
    \<Rightarrow> (HandlerError + 'tok tokenOutput) \<times> 'key Signer \<times> 'st" where
  "dispatch t env form authorization sg st =
     (case checkParamLengths
        [(''client_id'', Get form ''client_id'', maxClientIDLen), (''redirect_uri'', Get form ''redirect_uri'', maxRedirectURILen),
         (''code'', Get form ''code'', maxCredentialLen), (''code_verifier'', Get form ''code_verifier'', maxCredentialLen),
         (''refresh_token'', Get form ''refresh_token'', maxCredentialLen), (''device_code'', Get form ''device_code'', maxCredentialLen)] of
        Some e \<Rightarrow> (Inl e, sg, st)
      | None \<Rightarrow>
          if Get form ''grant_type'' = grantAuthorizationCode then authorizationCodeGrant t env form authorization sg st
          else if Get form ''grant_type'' = grantRefreshToken then refreshTokenGrant t env form authorization sg st
          else if Get form ''grant_type'' = grantDeviceCode then deviceCodeGrant t env form authorization sg st
          else if Get form ''grant_type'' = [] then (Inl (OAuthErr 400 invalid_request ''grant_type is required''), sg, st)
          else (Inl (OAuthErr 400 ''unsupported_grant_type''
                 ''only authorization_code, refresh_token, and urn:ietf:params:oauth:grant-type:device_code are supported''), sg, st))"

definition grant :: "('st, 'key, 'pub, 'set, 'tok) Token \<Rightarrow> TokenEnv \<Rightarrow> string \<Rightarrow> string \<Rightarrow> 'key Signer \<Rightarrow> 'st
    \<Rightarrow> (HandlerError + 'tok tokenOutput) \<times> 'key Signer \<times> 'st" where
  "grant t env rawBody authorization sg st = (case ParseQuery rawBody of
     None \<Rightarrow> (Inl (OAuthErr 400 invalid_request ''malformed form body''), sg, st)
   | Some form \<Rightarrow> dispatch t env form authorization sg st)"

text \<open>The response, with the \<^verbatim>\<open>WWW-Authenticate\<close> challenge it carries.\<close>

definition handle :: "('st, 'key, 'pub, 'set, 'tok) Token \<Rightarrow> TokenEnv \<Rightarrow> string \<Rightarrow> string \<Rightarrow> 'key Signer \<Rightarrow> 'st
    \<Rightarrow> ((HandlerError + 'tok tokenOutput) \<times> string option) \<times> 'key Signer \<times> 'st" where
  "handle t env rawBody authorization sg st = (case grant t env rawBody authorization sg st of
     (out, sg', st') \<Rightarrow> ((out, withBasicChallenge out authorization), sg', st'))"

definition tokenErrorCode :: "HandlerError + 'a \<Rightarrow> string" where
  "tokenErrorCode res = (case res of Inr _ \<Rightarrow> [] | Inl (OAuthErr _ code _) \<Rightarrow> code | Inl _ \<Rightarrow> ''server_error'')"

section \<open>The stores together\<close>

text \<open>
  The handlers run over one store that is both a token store and a device-code store. Neither part
  touches the other's tables.
\<close>

locale oidc_store = token_store ops inv abs + device_store dops dinv dabs
  for ops :: "'st TokenStore" and inv :: "'st \<Rightarrow> bool" and abs :: "'st \<Rightarrow> AbsTokens"
    and dops :: "'st DeviceCodeStore" and dinv :: "'st \<Rightarrow> bool" and dabs :: "'st \<Rightarrow> AbsDevices" +
  assumes poll_frame: "inv (snd (ds_PollDeviceCode dops st code now)) = inv st \<and> abs (snd (ds_PollDeviceCode dops st code now)) = abs st"
    and consume_frame: "inv (snd (ds_ConsumeDeviceCode dops st code)) = inv st \<and> abs (snd (ds_ConsumeDeviceCode dops st code)) = abs st"
    and approve_frame: "inv (snd (ds_ApproveDeviceCode dops st uc who now)) = inv st \<and> abs (snd (ds_ApproveDeviceCode dops st uc who now)) = abs st"
    and deny_frame: "inv (snd (ds_DenyDeviceCode dops st uc now)) = inv st \<and> abs (snd (ds_DenyDeviceCode dops st uc now)) = abs st"
    and save_frame: "inv (snd (ds_SaveDeviceCode dops st d)) = inv st \<and> abs (snd (ds_SaveDeviceCode dops st d)) = abs st"
    and code_frame: "dinv (snd (ts_ConsumeAuthCode ops st c f now)) = dinv st \<and> dabs (snd (ts_ConsumeAuthCode ops st c f now)) = dabs st"
    and saveRefresh_frame: "dinv (snd (ts_SaveRefresh ops st r)) = dinv st \<and> dabs (snd (ts_SaveRefresh ops st r)) = dabs st"
    and refresh_frame: "dinv (snd (ts_ConsumeRefresh ops st token cid now)) = dinv st \<and> dabs (snd (ts_ConsumeRefresh ops st token cid now)) = dabs st"
    and revoke_frame: "dinv (snd (ts_RevokeRefreshFamily ops st F now)) = dinv st \<and> dabs (snd (ts_RevokeRefreshFamily ops st F now)) = dabs st"

section \<open>Lemmas\<close>

subsection \<open>Client authentication\<close>

definition clientOK :: "('st, 'key, 'pub, 'set, 'tok) Token \<Rightarrow> string \<Rightarrow> string \<Rightarrow> GrantType \<Rightarrow> Client \<Rightarrow> bool" where
  "clientOK t cid secret g c = (Lookup (tk_clients t) cid = Some c \<and> Allows c g \<and>
     (ci_Secret c \<noteq> [] \<or> secret \<noteq> [] \<longrightarrow> Authenticate (tk_clients t) cid secret))"

lemma authenticateClient_iff: "authenticateClient t cid secret g = Inr c \<longleftrightarrow> clientOK t cid secret g c"
  by (auto simp: authenticateClient_def clientOK_def split: option.splits)

lemma clientOK_secret: "clientOK t cid secret g c \<Longrightarrow> ci_Secret c \<noteq> [] \<Longrightarrow> Sum256 (ci_Secret c) = Sum256 secret \<and> secret \<noteq> []"
  by (auto simp: clientOK_def Authenticate_eq)

subsection \<open>Issuing\<close>

lemma issue_cases:
  assumes "issue t env i who cid nonce l0 sg st = (res, sg', st')"
  obtains (refused) e where "res = Inl e" "st' = st"
  | (saved) l granted access jti sg1 idt sg2 rtok err where
      "permitted (tk_authorizer t) (id_Email who) = Inr (granted, True)"
      "(if li_familyID l0 = [] then map_option (\<lambda>f. \<lparr>li_familyID = f, li_authTime = ev_clk env i\<rparr>) (randomFamilyID (ev_family env)) else Some l0) = Some l"
      "Mint (tk_jwx t) sg (ev_jti env) (\<lambda>k. ev_clk env (i + 1 + k)) (accessRequest t who cid granted) = (Inr (access, jti), sg1)"
      "MintIDToken (tk_jwx t) sg1 (ev_idJti env) (\<lambda>k. ev_clk env (i + 3 + k)) (idRequest who cid nonce l) = (Inr idt, sg2)"
      "randomRefresh (ev_refresh env) = Some rtok"
      "ts_SaveRefresh (tk_store t) st (issuedRefresh t (ev_clk env i) who cid l jti rtok) = (err, st')"
      "res = (case err of None \<Rightarrow> Inr \<lparr>to_CacheControl = ''no-store'', to_Pragma = ''no-cache'', to_AccessToken = access, to_TokenType = ''Bearer'',
                                        to_ExpiresIn = tk_accessTTL t div Second, to_RefreshToken = rtok, to_IDToken = idt\<rparr>
         | Some err \<Rightarrow> Inl (if err = ErrRefreshFamilyRevoked then OAuthErr 400 invalid_grant ''the session has been revoked''
                                        else ServerErr ''oidc: persist refresh token''))"
  using assms
  by (simp add: issue_def Let_def split: sum.splits option.splits if_splits prod.splits; blast)

subsection \<open>Laws of every token store\<close>

text \<open>What a saved refresh token is in the abstract state.\<close>

definition freshRow :: "Refresh \<Rightarrow> AbsRefresh" where
  "freshRow r = \<lparr>ab_data = r\<lparr>rt_Token := []\<rparr>, ab_consumed = False, ab_revoked = False\<rparr>"

lemma spec_SaveRefresh_None:
  "spec_SaveRefresh A r = (None, A') \<Longrightarrow> \<not> fam_revoked A (rt_FamilyID r) \<and> a_refresh A (Hash (rt_Token r)) = None \<and>
     A' = A\<lparr>a_refresh := (a_refresh A)(Hash (rt_Token r) \<mapsto> freshRow r)\<rparr>"
  by (auto simp: spec_SaveRefresh_def freshRow_def split: if_splits)

text \<open>How a store may change under the endpoint: its refresh tokens evolve and a consumed code stays as it is.\<close>

definition advances :: "AbsTokens \<Rightarrow> AbsTokens \<Rightarrow> bool" where
  "advances A A' = (evolves A A' \<and>
     (\<forall>h c. a_codes A h = Some c \<longrightarrow> (\<exists>c'. a_codes A' h = Some c' \<and> (acd_consumed c \<longrightarrow> c' = c))))"

lemma advances_refl [simp]: "advances A A"
  by (simp add: advances_def)

lemma advances_trans: "advances A B \<Longrightarrow> advances B C \<Longrightarrow> advances A C"
  unfolding advances_def by (metis evolves_trans)

lemma spec_advances:
  "spec_ConsumeRefresh A token cid = (res, A') \<Longrightarrow> advances A A'"
  "spec_SaveRefresh A r = (err, A') \<Longrightarrow> advances A A'"
  "spec_RevokeRefreshFamily A F = (res2, A') \<Longrightarrow> advances A A'"
  "spec_ConsumeAuthCode A code f = (res3, A') \<Longrightarrow> advances A A'"
  by (simp_all add: advances_def spec_evolves)
     (auto simp: spec_defs Let_def split: option.splits if_splits)

context token_store
begin

lemma saveRefresh_advances: "inv st \<Longrightarrow> ts_SaveRefresh ops st r = (err, st') \<Longrightarrow> inv st' \<and> advances (abs st) (abs st')"
  using save_refresh[of st r err st'] spec_advances(2)[of "abs st" r err "abs st'"] by (metis advances_refl)

lemma consumeRefresh_advances: "inv st \<Longrightarrow> ts_ConsumeRefresh ops st tk cid at = (res, st') \<Longrightarrow> inv st' \<and> advances (abs st) (abs st')"
  using consume_refresh[of st tk cid at res st'] spec_advances(1)[of "abs st" tk cid res "abs st'"] by (metis advances_refl)

lemma consumeCode_advances: "inv st \<Longrightarrow> ts_ConsumeAuthCode ops st c f at = (res, st') \<Longrightarrow> inv st' \<and> advances (abs st) (abs st')"
  using consume_code[of st c f at res st'] spec_advances(4)[of "abs st" c f res "abs st'"] by (metis advances_refl)

lemma revoke_advances: "inv st \<Longrightarrow> ts_RevokeRefreshFamily ops st F at = (res, st') \<Longrightarrow> inv st' \<and> advances (abs st) (abs st')"
  using revoke_family[of st F at res st'] spec_advances(3)[of "abs st" F res "abs st'"] by (metis advances_refl)

lemma revokeFamily_dead:
  assumes "inv st" "tk_store t = ops" "revokeFamily t F now st = (e, st')"
  shows "inv st' \<and> advances (abs st) (abs st') \<and> (e = None \<longrightarrow> fam_dead (abs st') F)"
proof -
  obtain res st1 where r: "ts_RevokeRefreshFamily ops st F now = (res, st1)" by fastforce
  then have st': "st' = st1" "e = None \<longleftrightarrow> (\<exists>n. res = Inr n)" using assms(2,3) by (auto simp: revokeFamily_def split: sum.splits)
  have "fam_dead (abs st1) F" if "res = Inr n" for n
    using revoke_family[OF assms(1) r] that revoke_fam_dead[of "abs st" F n "abs st1"] by auto
  then show ?thesis using revoke_advances[OF assms(1) r] st' by auto
qed

lemma revokeAndRefuse_dead:
  assumes "inv st" "tk_store t = ops" "revokeAndRefuse t F now e0 st = (e, st')"
  shows "inv st' \<and> advances (abs st) (abs st') \<and> (e = e0 \<and> fam_dead (abs st') F \<or> e = ServerErr ''oidc: revoke refresh token family'')"
proof -
  obtain e1 st1 where r: "revokeFamily t F now st = (e1, st1)" by fastforce
  have "e1 = None \<or> e1 = Some (ServerErr ''oidc: revoke refresh token family'')"
    using r by (auto simp: revokeFamily_def split: prod.splits sum.splits)
  then show ?thesis using revokeFamily_dead[OF assms(1,2) r] assms(3) r by (auto simp: revokeAndRefuse_def)
qed

lemma issue_advances:
  assumes "inv st" "tk_store t = ops" "issue t env i who cid nonce l0 sg st = (res, sg', st')"
  shows "inv st' \<and> advances (abs st) (abs st')"
  using assms(3)
proof (cases rule: issue_cases)
  case refused
  then show ?thesis using assms(1) by simp
next
  case saved
  then show ?thesis using saveRefresh_advances[OF assms(1)] assms(2) by metis
qed

lemma issue_saved:
  assumes "inv st" "tk_store t = ops" "issue t env i who cid nonce l0 sg st = (Inr out, sg', st')"
  shows "\<exists>l granted jti sg1. permitted (tk_authorizer t) (id_Email who) = Inr (granted, True) \<and>
    (if li_familyID l0 = [] then map_option (\<lambda>f. \<lparr>li_familyID = f, li_authTime = ev_clk env i\<rparr>) (randomFamilyID (ev_family env)) else Some l0) = Some l \<and>
    Mint (tk_jwx t) sg (ev_jti env) (\<lambda>k. ev_clk env (i + 1 + k)) (accessRequest t who cid granted) = (Inr (to_AccessToken out, jti), sg1) \<and>
    (let r = issuedRefresh t (ev_clk env i) who cid l jti (to_RefreshToken out) in
     \<not> fam_revoked (abs st) (li_familyID l) \<and> a_refresh (abs st) (Hash (to_RefreshToken out)) = None \<and>
     abs st' = (abs st)\<lparr>a_refresh := (a_refresh (abs st))(Hash (to_RefreshToken out) \<mapsto> freshRow r)\<rparr>)"
  using assms(3)
proof (cases rule: issue_cases)
  case (saved l granted access jti sg1 idt sg2 rtok err)
  then have err: "err = None" "to_AccessToken out = access" "to_RefreshToken out = rtok" by (auto split: option.splits)
  let ?r = "issuedRefresh t (ev_clk env i) who cid l jti rtok"
  have "ts_SaveRefresh ops st ?r = (None, st')" using saved(6) err assms(2) by simp
  then have "(None, abs st') = spec_SaveRefresh (abs st) ?r" using save_refresh[OF assms(1)] by force
  from spec_SaveRefresh_None[OF this[symmetric]] show ?thesis
    using saved err by (intro exI[of _ l] exI[of _ granted] exI[of _ jti] exI[of _ sg1]) (simp add: issuedRefresh_def Let_def)
qed simp

end

subsection \<open>Redeeming a code\<close>

text \<open>What the endpoint checked of a code it redeemed.\<close>

definition codeOK :: "('st, 'key, 'pub, 'set, 'tok) Token \<Rightarrow> Time \<Rightarrow> AuthCodeRedemptionRequest \<Rightarrow> AuthCode \<Rightarrow> bool" where
  "codeOK t now req ac = (now \<le> ac_ExpiresAt ac \<and> ac_Subject ac \<noteq> [] \<and> rq_ClientID req = ac_ClientID ac \<and>
     rq_RedirectURI req = ac_RedirectURI ac \<and>
     (if ac_CodeChallenge ac = [] then IsConfidential (tk_clients t) (rq_ClientID req)
      else validCodeVerifier (rq_CodeVerifier req) \<and> verifyPKCE (rq_CodeVerifier req) (ac_CodeChallenge ac)))"

definition codeIdentity :: "AuthCode \<Rightarrow> Identity" where
  "codeIdentity ac = \<lparr>id_ConnectorID = ac_ConnectorID ac, id_Subject = ac_Subject ac, id_Email = ac_Email ac\<rparr>"

lemma redeem_ok_cases:
  assumes "RedeemAuthorizationCode t rnd now req st = (Inr r, st')"
  obtains c fam ac where "clientOK t (rq_ClientID req) (rq_ClientSecret req) grantAuthorizationCode c" "randomFamilyID rnd = Some fam"
    "ts_ConsumeAuthCode (tk_store t) st (rq_Code req) fam now = (Live ac, st')" "codeOK t now req ac"
    "r = \<lparr>rd_Identity = codeIdentity ac, rd_ClientID = ac_ClientID ac, rd_Nonce = ac_Nonce ac, rd_FamilyID = fam\<rparr>"
proof -
  obtain c where c: "authenticateClient t (rq_ClientID req) (rq_ClientSecret req) grantAuthorizationCode = Inr c"
    using assms by (cases "authenticateClient t (rq_ClientID req) (rq_ClientSecret req) grantAuthorizationCode")
      (auto simp: RedeemAuthorizationCode_def split: if_splits)
  moreover have "ci_Secret c \<noteq> [] \<Longrightarrow> IsConfidential (tk_clients t) (rq_ClientID req)"
    using c unfolding authenticateClient_iff clientOK_def IsConfidential_def Lookup_def by simp
  ultimately show thesis
    using assms that[of c, folded authenticateClient_iff, unfolded codeOK_def codeIdentity_def]
    by (auto simp: RedeemAuthorizationCode_def split: if_splits option.splits prod.splits Consumed.splits)
qed

lemma redeem_steps:
  assumes "RedeemAuthorizationCode t rnd now req st = (res, st')"
  obtains "st' = st" | fam out st1 where "ts_ConsumeAuthCode (tk_store t) st (rq_Code req) fam now = (out, st1)"
    "st' = st1 \<or> (\<exists>F e. revokeFamily t F now st1 = (e, st'))"
  using assms
  by (auto simp: RedeemAuthorizationCode_def split: if_splits option.splits sum.splits prod.splits Consumed.splits; blast)

lemma codeGrant_cases:
  assumes "authorizationCodeGrant t env form hdr sg st = (res, sg', st')"
  obtains (refused) e where "RedeemAuthorizationCode t (ev_family env) (ev_clk env 0) (codeRequest form hdr) st = (Inl e, st')" "res = Inl e"
  | (redeemed) r st1 res1 where "RedeemAuthorizationCode t (ev_family env) (ev_clk env 0) (codeRequest form hdr) st = (Inr r, st1)"
      "issue t env 2 (rd_Identity r) (rd_ClientID r) (rd_Nonce r) \<lparr>li_familyID = rd_FamilyID r, li_authTime = ev_clk env 1\<rparr> sg st1 = (res1, sg', st')"
      "res = (case res1 of Inl e \<Rightarrow> Inl (if e = ErrNoPermissions then refuseNoPermissions invalid_grant else e) | Inr out \<Rightarrow> Inr out)"
  using assms
  by (auto simp: authorizationCodeGrant_def split: prod.splits sum.splits HandlerError.splits)

subsection \<open>Rotating a refresh token\<close>

text \<open>What the endpoint checked of a refresh token it rotated.\<close>

definition refreshOK :: "('st, 'key, 'pub, 'set, 'tok) Token \<Rightarrow> Time \<Rightarrow> Refresh \<Rightarrow> bool" where
  "refreshOK t now rt = (now \<le> rt_ExpiresAt rt \<and> now < rt_AuthTime rt + tk_refreshMaxLifetime t \<and> rt_Subject rt \<noteq> [] \<and>
     connectorConfigured t (rt_ConnectorID rt) \<and> emailDomainAllowed (tk_allowedDomains t) (rt_Email rt))"

definition refreshIdentity :: "Refresh \<Rightarrow> Identity" where
  "refreshIdentity rt = \<lparr>id_ConnectorID = rt_ConnectorID rt, id_Subject = rt_Subject rt, id_Email = rt_Email rt\<rparr>"

lemma refreshGrant_ok_cases:
  assumes "refreshTokenGrant t env form hdr sg st = (Inr out, sg', st')" "clientCredentials form hdr = (cid, secret)"
  obtains c rt st1 where "clientOK t cid secret grantRefreshToken c"
    "ts_ConsumeRefresh (tk_store t) st (Get form ''refresh_token'') cid (ev_clk env 0) = (Live rt, st1)" "refreshOK t (ev_clk env 0) rt"
    "issue t env 1 (refreshIdentity rt) (rt_ClientID rt) [] \<lparr>li_familyID = rt_FamilyID rt, li_authTime = rt_AuthTime rt\<rparr> sg st1 = (Inr out, sg', st')"
proof -
  obtain c where c: "authenticateClient t cid secret grantRefreshToken = Inr c" and ne: "Get form ''refresh_token'' \<noteq> []"
    using assms by (cases "authenticateClient t cid secret grantRefreshToken") (auto simp: refreshTokenGrant_def Let_def split: if_splits)
  obtain rt st1 where rt: "ts_ConsumeRefresh (tk_store t) st (Get form ''refresh_token'') cid (ev_clk env 0) = (Live rt, st1)"
    using assms c ne by (auto simp: refreshTokenGrant_def Let_def split: prod.splits Consumed.splits)
  show thesis
    using that[of c rt st1] c rt ne assms unfolding authenticateClient_iff[symmetric]
    by (auto simp: refreshTokenGrant_def Let_def refreshOK_def refreshIdentity_def split: if_splits prod.splits sum.splits HandlerError.splits)
qed

lemma refreshGrant_steps:
  assumes "refreshTokenGrant t env form hdr sg st = (res, sg', st')"
  obtains (unchanged) e where "st' = st" "res = Inl e"
  | (consumed) cid out e where "ts_ConsumeRefresh (tk_store t) st (Get form ''refresh_token'') cid (ev_clk env 0) = (out, st')" "res = Inl e"
  | (revoked) cid out st1 F e0 e where "ts_ConsumeRefresh (tk_store t) st (Get form ''refresh_token'') cid (ev_clk env 0) = (out, st1)"
      "revokeAndRefuse t F (ev_clk env 0) e0 st1 = (e, st')" "res = Inl e"
  | (issued) cid rt st1 where "ts_ConsumeRefresh (tk_store t) st (Get form ''refresh_token'') cid (ev_clk env 0) = (Live rt, st1)"
      "issue t env 1 (refreshIdentity rt) (rt_ClientID rt) [] \<lparr>li_familyID = rt_FamilyID rt, li_authTime = rt_AuthTime rt\<rparr> sg st1 = (res, sg', st')"
  | (denied) cid rt st1 st2 F e0 e where "ts_ConsumeRefresh (tk_store t) st (Get form ''refresh_token'') cid (ev_clk env 0) = (Live rt, st1)"
      "issue t env 1 (refreshIdentity rt) (rt_ClientID rt) [] \<lparr>li_familyID = rt_FamilyID rt, li_authTime = rt_AuthTime rt\<rparr> sg st1 = (Inl ErrNoPermissions, sg', st2)"
      "revokeAndRefuse t F (ev_clk env 0) e0 st2 = (e, st')" "res = Inl e"
proof -
  obtain cid secret where cr: "clientCredentials form hdr = (cid, secret)" by fastforce
  obtain out st1 where co: "ts_ConsumeRefresh (tk_store t) st (Get form ''refresh_token'') cid (ev_clk env 0) = (out, st1)" by fastforce
  show thesis
  proof (cases out)
    case (Live rt)
    note co' = co[unfolded Live]
    show ?thesis
      using that(1) that(2)[of cid "Live rt"] that(3)[OF co'] that(4)[OF co'] that(5)[OF co'] assms co'
      unfolding refreshTokenGrant_def Let_def cr prod.case co' Consumed.case refreshIdentity_def
      by (simp split: if_splits prod.splits sum.splits HandlerError.splits) blast+
  qed (use that(1) that(2)[of cid] that(3)[OF co] assms co in \<open>auto simp: refreshTokenGrant_def Let_def cr co split: if_splits prod.splits sum.splits\<close>)
qed

subsection \<open>Redeeming a device code\<close>

definition deviceIdentity :: "DeviceCode \<Rightarrow> Identity" where
  "deviceIdentity d = \<lparr>id_ConnectorID = dc_ConnectorID d, id_Subject = dc_Subject d, id_Email = dc_Email d\<rparr>"

lemma deviceGrant_ok_cases:
  assumes "deviceCodeGrant t env form hdr sg st = (Inr out, sg', st')" "clientCredentials form hdr = (cid, secret)"
  obtains dev c dc st1 st2 dfin where "tk_devices t = Some dev" "clientOK t cid secret grantDeviceCode c"
    "ds_LookupDeviceCodeByDeviceCode dev st (Get form ''device_code'') = Inr dc" "dc_ClientID dc = cid"
    "ds_PollDeviceCode dev st (Get form ''device_code'') (ev_clk env 0) = (Inr False, st1)" "ev_clk env 0 \<le> dc_ExpiresAt dc"
    "dc_DeniedAt dc = None" "dc_ApprovedAt dc \<noteq> None"
    "ds_ConsumeDeviceCode dev st1 (Get form ''device_code'') = (Inr dfin, st2)" "dc_Subject dfin \<noteq> []"
    "issue t env 1 (deviceIdentity dfin) (dc_ClientID dfin) [] \<lparr>li_familyID = [], li_authTime = zeroTime\<rparr> sg st2 = (Inr out, sg', st')"
proof -
  obtain dev where d: "tk_devices t = Some dev" using assms by (cases "tk_devices t") (auto simp: deviceCodeGrant_def)
  obtain c where c: "authenticateClient t cid secret grantDeviceCode = Inr c"
    using assms d by (cases "authenticateClient t cid secret grantDeviceCode") (auto simp: deviceCodeGrant_def Let_def split: if_splits)
  obtain dc where dc: "ds_LookupDeviceCodeByDeviceCode dev st (Get form ''device_code'') = Inr dc"
    using assms d c by (cases "ds_LookupDeviceCodeByDeviceCode dev st (Get form ''device_code'')") (auto simp: deviceCodeGrant_def Let_def split: if_splits)
  obtain p st1 where p: "ds_PollDeviceCode dev st (Get form ''device_code'') (ev_clk env 0) = (p, st1)" by fastforce
  obtain q st2 where q: "ds_ConsumeDeviceCode dev st1 (Get form ''device_code'') = (q, st2)" by fastforce
  show thesis
    using that[OF d, of c dc st1 "projr q" st2, folded authenticateClient_iff] assms d c dc p q
    by (auto simp: deviceCodeGrant_def Let_def deviceIdentity_def not_less split: if_splits prod.splits sum.splits HandlerError.splits)
qed

lemma deviceGrant_steps:
  assumes "deviceCodeGrant t env form hdr sg st = (res, sg', st')"
  obtains "st' = st" | dev out st1 where "tk_devices t = Some dev" "ds_PollDeviceCode dev st (Get form ''device_code'') (ev_clk env 0) = (out, st1)"
    "st' = st1 \<or> (\<exists>out2 st2. ds_ConsumeDeviceCode dev st1 (Get form ''device_code'') = (out2, st2) \<and>
       (st' = st2 \<or> (\<exists>who cid res1. issue t env 1 who cid [] \<lparr>li_familyID = [], li_authTime = zeroTime\<rparr> sg st2 = (res1, sg', st'))))"
proof (cases "tk_devices t")
  case None
  then show ?thesis using that(1) assms by (simp add: deviceCodeGrant_def)
next
  case (Some dev)
  obtain cid secret where cr: "clientCredentials form hdr = (cid, secret)" by fastforce
  obtain p st1 where p: "ds_PollDeviceCode dev st (Get form ''device_code'') (ev_clk env 0) = (p, st1)" by fastforce
  obtain q st2 where q: "ds_ConsumeDeviceCode dev st1 (Get form ''device_code'') = (q, st2)" by fastforce
  show ?thesis
    using that(1) that(2)[OF Some p] assms q
    unfolding deviceCodeGrant_def Let_def cr prod.case p Some option.case q
    by (simp split: if_splits prod.splits sum.splits HandlerError.splits; blast)
qed

section \<open>Every request advances the store\<close>

context token_store
begin

lemma redeem_advances:
  assumes "inv st" "tk_store t = ops" "RedeemAuthorizationCode t rnd now req st = (res, st')"
  shows "inv st' \<and> advances (abs st) (abs st')"
  using assms(3)
proof (cases rule: redeem_steps)
  case (2 fam out st1)
  then have "inv st1 \<and> advances (abs st) (abs st1)" using consumeCode_advances[OF assms(1)] assms(2) by metis
  then show ?thesis using 2(2) revokeFamily_dead[OF _ assms(2)] by (metis advances_trans)
qed (simp add: assms(1))

lemma codeGrant_advances:
  assumes "inv st" "tk_store t = ops" "authorizationCodeGrant t env form hdr sg st = (res, sg', st')"
  shows "inv st' \<and> advances (abs st) (abs st')"
  using assms(3)
proof (cases rule: codeGrant_cases)
  case (refused e)
  then show ?thesis using redeem_advances[OF assms(1,2)] by metis
next
  case (redeemed r st1 res1)
  then show ?thesis using redeem_advances[OF assms(1,2) redeemed(1)] issue_advances[OF _ assms(2) redeemed(2)] advances_trans by blast
qed

lemma refreshGrant_advances:
  assumes "inv st" "tk_store t = ops" "refreshTokenGrant t env form hdr sg st = (res, sg', st')"
  shows "inv st' \<and> advances (abs st) (abs st')"
proof -
  have con: "inv st1 \<and> advances (abs st) (abs st1)" if "ts_ConsumeRefresh (tk_store t) st tok cid now = (out, st1)" for tok cid now out st1
    using that consumeRefresh_advances[OF assms(1)] unfolding assms(2) by blast
  note steps = issue_advances[OF _ assms(2)] revokeAndRefuse_dead[OF _ assms(2)] advances_trans
  show ?thesis using assms(3)
  proof (cases rule: refreshGrant_steps)
    case (revoked cid out st1 F e0 e)
    then show ?thesis using con[OF revoked(1)] steps(2)[of st1 F] steps(3) by blast
  next
    case (issued cid rt st1)
    then show ?thesis using con[OF issued(1)] steps(1)[of st1] steps(3) by blast
  next
    case (denied cid rt st1 st2 F e0 e)
    then show ?thesis using con[OF denied(1)] steps(1)[of st1, OF _ denied(2)] steps(2)[of st2, OF _ denied(3)] steps(3) by blast
  qed (use con assms(1) in auto)
qed

end

context oidc_store
begin

lemma revokeFamily_devices: "tk_store t = ops \<Longrightarrow> revokeFamily t F now st = (e, st') \<Longrightarrow> dinv st' = dinv st \<and> dabs st' = dabs st"
  using revoke_frame[of st F now] by (auto simp: revokeFamily_def split: prod.splits sum.splits)

lemma revokeAndRefuse_devices: "tk_store t = ops \<Longrightarrow> revokeAndRefuse t F now e0 st = (e, st') \<Longrightarrow> dinv st' = dinv st \<and> dabs st' = dabs st"
  using revokeFamily_devices[of t F now st] by (auto simp: revokeAndRefuse_def split: prod.splits option.splits)

lemma issue_devices:
  assumes "tk_store t = ops" "issue t env i who cid nonce l0 sg st = (res, sg', st')"
  shows "dinv st' = dinv st \<and> dabs st' = dabs st"
  using assms(2)
proof (cases rule: issue_cases)
  case saved
  then show ?thesis using saveRefresh_frame assms(1) by (metis snd_conv)
qed simp

lemma codeGrant_devices:
  assumes "tk_store t = ops" "authorizationCodeGrant t env form hdr sg st = (res, sg', st')"
  shows "dinv st' = dinv st \<and> dabs st' = dabs st"
proof -
  have redeem: "dinv st2 = dinv st \<and> dabs st2 = dabs st" if "RedeemAuthorizationCode t rnd now req st = (r, st2)" for rnd now req r st2
    using that
  proof (cases rule: redeem_steps)
    case (2 fam out st1)
    then show ?thesis using code_frame[of st "rq_Code req" fam now] assms(1) revokeFamily_devices by (metis snd_conv)
  qed simp
  show ?thesis
    using assms(2) by (cases rule: codeGrant_cases) (use redeem issue_devices[OF assms(1)] in metis)+
qed

lemma refreshGrant_devices:
  assumes "tk_store t = ops" "refreshTokenGrant t env form hdr sg st = (res, sg', st')"
  shows "dinv st' = dinv st \<and> dabs st' = dabs st"
proof -
  have c: "dinv st1 = dinv st \<and> dabs st1 = dabs st" if "ts_ConsumeRefresh (tk_store t) st tok cid now = (out, st1)" for tok cid now out st1
    using that refresh_frame assms(1) by (metis snd_conv)
  show ?thesis
    using assms(2) by (cases rule: refreshGrant_steps) (use c issue_devices[OF assms(1)] revokeAndRefuse_devices[OF assms(1)] in metis)+
qed

lemma poll_absent: "dinv st \<Longrightarrow> ds_PollDeviceCode dops st c now = (o1, st1) \<Longrightarrow> dabs st h = None \<Longrightarrow> dabs st1 h = None"
  using poll[of st c now o1 st1] by (auto simp: spec_PollDeviceCode_def split: option.splits if_splits)

lemma consume_absent: "dinv st \<Longrightarrow> ds_ConsumeDeviceCode dops st c = (o1, st1) \<Longrightarrow> dabs st h = None \<Longrightarrow> dabs st1 h = None"
  using consume[of st c o1 st1] by (auto simp: spec_ConsumeDeviceCode_def split: option.splits if_splits)

lemma deviceGrant_keeps:
  assumes "inv st" "dinv st" "tk_store t = ops" "tk_devices t \<in> {None, Some dops}" "deviceCodeGrant t env form hdr sg st = (res, sg', st')"
  shows "inv st' \<and> dinv st' \<and> advances (abs st) (abs st') \<and> (\<forall>h. dabs st h = None \<longrightarrow> dabs st' h = None)"
  using assms(5)
proof (cases rule: deviceGrant_steps)
  case (2 dev out st1)
  have dev: "dev = dops" using 2(1) assms(4) by simp
  have st1: "inv st1" "abs st1 = abs st" "dinv st1" "\<forall>h. dabs st h = None \<longrightarrow> dabs st1 h = None"
    using 2(2) poll_frame[of st] poll[OF assms(2)] poll_absent[OF assms(2)] assms(1) unfolding dev by (metis snd_conv)+
  have st2: "inv st2 \<and> abs st2 = abs st \<and> dinv st2 \<and> (\<forall>h. dabs st h = None \<longrightarrow> dabs st2 h = None)" if "ds_ConsumeDeviceCode dops st1 c = (o2, st2)" for c o2 st2
    using that consume_frame[of st1] consume[OF st1(3)] consume_absent[OF st1(3)] st1 by (metis snd_conv)
  have fin: "inv st' \<and> dinv st' \<and> advances (abs st) (abs st') \<and> (\<forall>h. dabs st h = None \<longrightarrow> dabs st' h = None)"
    if "ds_ConsumeDeviceCode dops st1 c = (o2, st2)" "issue t env 1 who cid nonce l sg st2 = (res1, sg', st')" for c o2 st2 who cid nonce l res1
    using st2[OF that(1)] issue_devices[OF assms(3) that(2)] issue_advances[OF _ assms(3) that(2)] by metis
  show ?thesis using 2(3) st1 st2 fin unfolding dev by (elim disjE exE conjE) simp_all
qed (use assms in simp)

text \<open>Whatever the request, the store stays well formed and only advances, and no device code comes back.\<close>

lemma dispatch_keeps:
  assumes "inv st" "dinv st" "tk_store t = ops" "tk_devices t \<in> {None, Some dops}" "dispatch t env form hdr sg st = (res, sg', st')"
  shows "inv st' \<and> dinv st' \<and> advances (abs st) (abs st') \<and> (\<forall>h. dabs st h = None \<longrightarrow> dabs st' h = None)"
  using assms(5) codeGrant_advances[OF assms(1,3), of env form hdr sg] codeGrant_devices[OF assms(3), of env form hdr sg st]
    refreshGrant_advances[OF assms(1,3), of env form hdr sg] refreshGrant_devices[OF assms(3), of env form hdr sg st]
    deviceGrant_keeps[OF assms(1-4), of env form hdr sg] assms(1,2)
  unfolding dispatch_def by (auto split: if_splits option.splits)

end

end
