(* ===== verification/Token_Endpoint.thy ===== *)
theory Token_Endpoint
  imports Token
begin

text \<open>
  What the token endpoint guarantees over the SQLite store. The store laws of theory \<^verbatim>\<open>Token\<close> are
  interpreted on the SQLite operations; \<^verbatim>\<open>serve\<close> runs a sequence of requests, and the properties speak of
  one request or of every such sequence.
\<close>

section \<open>Sequences of requests\<close>

record TokenReq =
  tr_env :: TokenEnv
  tr_form :: Values
  tr_auth :: string

primrec serve :: "('st, 'key, 'pub, 'set, 'tok) Token \<Rightarrow> TokenReq list \<Rightarrow> 'key Signer \<Rightarrow> 'st
    \<Rightarrow> (HandlerError + 'tok tokenOutput) list \<times> 'key Signer \<times> 'st" where
  "serve t [] sg st = ([], sg, st)"
| "serve t (q # qs) sg st = (case dispatch t (tr_env q) (tr_form q) (tr_auth q) sg st of
     (r, sg1, st1) \<Rightarrow> (case serve t qs sg1 st1 of (rs, sg2, st2) \<Rightarrow> (r # rs, sg2, st2)))"

text \<open>How many requests that \<^verbatim>\<open>sel\<close> selects were answered with tokens.\<close>

definition accepted :: "(TokenReq \<Rightarrow> bool) \<Rightarrow> TokenReq list \<Rightarrow> (HandlerError + 'o) list \<Rightarrow> nat" where
  "accepted sel qs rs = length (filter (\<lambda>(q, r). sel q \<and> \<not> isl r) (zip qs rs))"

definition presents :: "string \<Rightarrow> string \<Rightarrow> string \<Rightarrow> TokenReq \<Rightarrow> bool" where
  "presents grantType param v q = (Get (tr_form q) ''grant_type'' = grantType \<and> Get (tr_form q) param = v)"

lemma accepted_simps [simp]:
  "accepted sel [] rs = 0" "accepted sel (q # qs) (r # rs) = (if sel q \<and> \<not> isl r then 1 else 0) + accepted sel qs rs"
  by (simp_all add: accepted_def)

lemma dispatch_ok:
  assumes "dispatch t env form hdr sg st = (Inr out, sg', st')"
  shows "(Get form ''grant_type'' = grantAuthorizationCode \<and> authorizationCodeGrant t env form hdr sg st = (Inr out, sg', st')) \<or>
    (Get form ''grant_type'' = grantRefreshToken \<and> refreshTokenGrant t env form hdr sg st = (Inr out, sg', st')) \<or>
    (Get form ''grant_type'' = grantDeviceCode \<and> deviceCodeGrant t env form hdr sg st = (Inr out, sg', st'))"
  using assms unfolding dispatch_def by (auto split: option.splits if_splits)

lemma grant_types_distinct [simp]:
  "grantAuthorizationCode \<noteq> grantRefreshToken" "grantAuthorizationCode \<noteq> grantDeviceCode" "grantRefreshToken \<noteq> grantDeviceCode"
  "grantRefreshToken \<noteq> grantAuthorizationCode" "grantDeviceCode \<noteq> grantAuthorizationCode" "grantDeviceCode \<noteq> grantRefreshToken"
  by (simp_all add: grantAuthorizationCode_def grantRefreshToken_def grantDeviceCode_def)

section \<open>Single use\<close>

definition spentCode :: "AbsTokens \<Rightarrow> string \<Rightarrow> bool" where
  "spentCode A h = (\<exists>c. a_codes A h = Some c \<and> acd_consumed c)"

lemma spentCode_advances: "advances A A' \<Longrightarrow> spentCode A h \<Longrightarrow> spentCode A' h"
  unfolding advances_def spentCode_def by metis

lemma spent_advances: "advances A A' \<Longrightarrow> spent A h \<Longrightarrow> spent A' h"
  unfolding advances_def using spent_evolves by blast

lemma fam_dead_advances: "advances A A' \<Longrightarrow> fam_dead A F \<Longrightarrow> fam_dead A' F"
  unfolding advances_def using fam_dead_evolves by blast

context token_store
begin

lemma consume_live:
  assumes "inv st" "ts_ConsumeAuthCode ops st code fam now = (Live ac, st')"
  obtains x where "a_codes (abs st) (Hash code) = Some x" "\<not> acd_consumed x" "ac = (acd_data x)\<lparr>ac_FamilyID := fam, ac_Code := code\<rparr>"
    "abs st' = (abs st)\<lparr>a_codes := (a_codes (abs st))(Hash code \<mapsto> \<lparr>acd_data = (acd_data x)\<lparr>ac_FamilyID := fam\<rparr>, acd_consumed = True\<rparr>)\<rparr>" "inv st'"
  using consume_code[OF assms] that
  by (auto simp: spec_ConsumeAuthCode_def Let_def split: option.splits if_splits)

lemma refresh_live:
  assumes "inv st" "ts_ConsumeRefresh ops st token cid now = (Live rt, st')"
  obtains x where "a_refresh (abs st) (Hash token) = Some x" "\<not> ab_consumed x" "\<not> ab_revoked x" "rt = (ab_data x)\<lparr>rt_Token := token\<rparr>"
    "rt_ClientID rt = cid" "abs st' = (abs st)\<lparr>a_refresh := (a_refresh (abs st))(Hash token \<mapsto> x\<lparr>ab_consumed := True\<rparr>)\<rparr>" "inv st'"
  using consume_refresh[OF assms] that
  by (auto simp: spec_ConsumeRefresh_def split: option.splits if_splits)

lemma codeGrant_spends:
  assumes "inv st" "tk_store t = ops" "authorizationCodeGrant t env form hdr sg st = (Inr out, sg', st')"
  shows "\<not> spentCode (abs st) (Hash (Get form ''code'')) \<and> spentCode (abs st') (Hash (Get form ''code''))"
  using assms(3)
proof (cases rule: codeGrant_cases)
  case (redeemed r st1 res1)
  have rq: "rq_Code (codeRequest form hdr) = Get form ''code''" by (simp add: codeRequest_def split: prod.split)
  obtain fam ac where g: "ts_ConsumeAuthCode ops st (Get form ''code'') fam (ev_clk env 0) = (Live ac, st1)"
    using redeem_ok_cases[OF redeemed(1)] unfolding rq assms(2) by metis
  obtain x y where "a_codes (abs st) (Hash (Get form ''code'')) = Some x" "\<not> acd_consumed x" "inv st1"
    "abs st1 = (abs st)\<lparr>a_codes := (a_codes (abs st))(Hash (Get form ''code'') \<mapsto> \<lparr>acd_data = y, acd_consumed = True\<rparr>)\<rparr>"
    using consume_live[OF assms(1) g] by metis
  then have "\<not> spentCode (abs st) (Hash (Get form ''code''))" "spentCode (abs st1) (Hash (Get form ''code''))" "inv st1"
    by (auto simp: spentCode_def)
  then show ?thesis using issue_advances[OF _ assms(2) redeemed(2)] spentCode_advances by blast
qed simp

lemma refreshGrant_spends:
  assumes "inv st" "tk_store t = ops" "refreshTokenGrant t env form hdr sg st = (Inr out, sg', st')"
  shows "\<not> spent (abs st) (Hash (Get form ''refresh_token'')) \<and> spent (abs st') (Hash (Get form ''refresh_token''))"
proof -
  let ?h = "Hash (Get form ''refresh_token'')"
  obtain cid secret where cr: "clientCredentials form hdr = (cid, secret)" by fastforce
  obtain c rt st1 where g: "ts_ConsumeRefresh ops st (Get form ''refresh_token'') cid (ev_clk env 0) = (Live rt, st1)"
    and i: "issue t env 1 (refreshIdentity rt) (rt_ClientID rt) [] \<lparr>li_familyID = rt_FamilyID rt, li_authTime = rt_AuthTime rt\<rparr> sg st1 = (Inr out, sg', st')"
    using refreshGrant_ok_cases[OF assms(3) cr] assms(2) by metis
  obtain x where x: "a_refresh (abs st) ?h = Some x" "\<not> ab_consumed x" "\<not> ab_revoked x"
    "abs st1 = (abs st)\<lparr>a_refresh := (a_refresh (abs st))(?h \<mapsto> x\<lparr>ab_consumed := True\<rparr>)\<rparr>" "inv st1"
    using refresh_live[OF assms(1) g] by metis
  then have "\<not> spent (abs st) ?h" "spent (abs st1) ?h" by (auto simp: spent_def)
  then show ?thesis using issue_advances[OF x(5) assms(2) i] spent_advances by blast
qed

end

context oidc_store
begin

lemma deviceGrant_spends:
  assumes "inv st" "dinv st" "tk_store t = ops" "tk_devices t \<in> {None, Some dops}" "deviceCodeGrant t env form hdr sg st = (Inr out, sg', st')"
  shows "dabs st (Hash (Get form ''device_code'')) \<noteq> None \<and> dabs st' (Hash (Get form ''device_code'')) = None"
proof -
  let ?c = "Get form ''device_code''"
  obtain cid secret where cr: "clientCredentials form hdr = (cid, secret)" by fastforce
  obtain dev c dc st1 st2 dfin where "tk_devices t = Some dev" and g0: "ds_LookupDeviceCodeByDeviceCode dev st ?c = Inr dc"
    "ds_PollDeviceCode dev st ?c (ev_clk env 0) = (Inr False, st1)" "ds_ConsumeDeviceCode dev st1 ?c = (Inr dfin, st2)"
    and i: "issue t env 1 (deviceIdentity dfin) (dc_ClientID dfin) [] \<lparr>li_familyID = [], li_authTime = zeroTime\<rparr> sg st2 = (Inr out, sg', st')"
    by (rule deviceGrant_ok_cases[OF assms(5) cr])
  then have dev: "dev = dops" using assms(4) by simp
  note g = g0[unfolded dev]
  have "dabs st (Hash ?c) \<noteq> None"
    using lookup[OF assms(2), of ?c] g(1) by (auto simp: spec_LookupDeviceCode_def split: option.splits)
  moreover have "dabs st2 (Hash ?c) = None"
    using poll[OF assms(2) g(2)] consume[OF _ g(3)] by (auto simp: spec_ConsumeDeviceCode_def split: option.splits)
  ultimately show ?thesis using issue_devices[OF assms(3) i] by simp
qed

text \<open>A credential that every request keeps spent, and that an accepted request finds unspent and spends, is accepted once.\<close>

lemma serve_once:
  assumes keep: "\<And>(q :: TokenReq) sg st r sg' st'. inv st \<Longrightarrow> dinv st \<Longrightarrow> dispatch t (tr_env q) (tr_form q) (tr_auth q) sg st = (r, sg', st') \<Longrightarrow> P st \<Longrightarrow> P st'"
    and spend: "\<And>(q :: TokenReq) sg st r sg' st'. inv st \<Longrightarrow> dinv st \<Longrightarrow> dispatch t (tr_env q) (tr_form q) (tr_auth q) sg st = (Inr r, sg', st') \<Longrightarrow> sel q \<Longrightarrow> \<not> P st \<and> P st'"
    and "tk_store t = ops" "tk_devices t \<in> {None, Some dops}"
  shows "inv st \<Longrightarrow> dinv st \<Longrightarrow> accepted sel qs (fst (serve t qs sg st)) \<le> (if P st then 0 else 1)"
proof (induction qs arbitrary: sg st)
  case (Cons q qs)
  obtain r sg1 st1 where d: "dispatch t (tr_env q) (tr_form q) (tr_auth q) sg st = (r, sg1, st1)" by (metis prod_cases3)
  have st1: "inv st1" "dinv st1" using dispatch_keeps[OF Cons.prems assms(3,4) d] by blast+
  note IH = Cons.IH[OF st1, of sg1]
  have *: "accepted sel (q # qs) (fst (serve t (q # qs) sg st)) = (if sel q \<and> \<not> isl r then 1 else 0) + accepted sel qs (fst (serve t qs sg1 st1))"
    by (simp add: d split: prod.split)
  show ?case
  proof (cases "sel q \<and> \<not> isl r")
    case True
    then obtain out where "r = Inr out" by (cases r) auto
    then have "\<not> P st \<and> P st1" using spend[OF Cons.prems, of q sg out sg1 st1] d True by blast
    then show ?thesis using IH * by simp
  next
    case False
    then show ?thesis using IH * keep[OF Cons.prems d] by (auto split: if_splits)
  qed
qed simp

lemma serve_keeps:
  assumes "tk_store t = ops" "tk_devices t \<in> {None, Some dops}"
  shows "inv st \<Longrightarrow> dinv st \<Longrightarrow> serve t qs sg st = (rs, sg', st') \<Longrightarrow> inv st' \<and> dinv st' \<and> advances (abs st) (abs st')"
proof (induction qs arbitrary: sg st rs)
  case (Cons q qs)
  obtain r sg1 st1 where d: "dispatch t (tr_env q) (tr_form q) (tr_auth q) sg st = (r, sg1, st1)" by (metis prod_cases3)
  then obtain rs' where "serve t qs sg1 st1 = (rs', sg', st')" using Cons.prems(3) by (auto split: prod.splits)
  then show ?case using Cons.IH dispatch_keeps[OF Cons.prems(1,2) assms d] advances_trans by blast
qed simp

lemma serve_single_use:
  assumes "inv st" "dinv st" "tk_store t = ops" "tk_devices t \<in> {None, Some dops}"
  shows "accepted (presents grantAuthorizationCode ''code'' code) qs (fst (serve t qs sg st)) \<le> 1 \<and>
    accepted (presents grantRefreshToken ''refresh_token'' token) qs (fst (serve t qs sg st)) \<le> 1 \<and>
    accepted (presents grantDeviceCode ''device_code'' dcode) qs (fst (serve t qs sg st)) \<le> 1"
proof -
  note keeps = dispatch_keeps[OF _ _ assms(3,4)]
  have "accepted (presents grantAuthorizationCode ''code'' code) qs (fst (serve t qs sg st)) \<le> (if spentCode (abs st) (Hash code) then 0 else 1)"
  proof (rule serve_once[where P = "\<lambda>st. spentCode (abs st) (Hash code)", OF _ _ assms(3,4,1,2)])
    fix q :: TokenReq and sg st r sg' st' assume "inv st" "dinv st" "dispatch t (tr_env q) (tr_form q) (tr_auth q) sg st = (Inr r, sg', st')"
      "presents grantAuthorizationCode ''code'' code q"
    then show "\<not> spentCode (abs st) (Hash code) \<and> spentCode (abs st') (Hash code)"
      using codeGrant_spends[OF _ assms(3)] dispatch_ok[of t "tr_env q" "tr_form q" "tr_auth q" sg st r sg' st'] unfolding presents_def by fastforce
  qed (use keeps spentCode_advances in blast)
  moreover have "accepted (presents grantRefreshToken ''refresh_token'' token) qs (fst (serve t qs sg st)) \<le> (if spent (abs st) (Hash token) then 0 else 1)"
  proof (rule serve_once[where P = "\<lambda>st. spent (abs st) (Hash token)", OF _ _ assms(3,4,1,2)])
    fix q :: TokenReq and sg st r sg' st' assume "inv st" "dinv st" "dispatch t (tr_env q) (tr_form q) (tr_auth q) sg st = (Inr r, sg', st')"
      "presents grantRefreshToken ''refresh_token'' token q"
    then show "\<not> spent (abs st) (Hash token) \<and> spent (abs st') (Hash token)"
      using refreshGrant_spends[OF _ assms(3)] dispatch_ok[of t "tr_env q" "tr_form q" "tr_auth q" sg st r sg' st'] unfolding presents_def by fastforce
  qed (use keeps spent_advances in blast)
  moreover have "accepted (presents grantDeviceCode ''device_code'' dcode) qs (fst (serve t qs sg st)) \<le> (if dabs st (Hash dcode) = None then 0 else 1)"
  proof (rule serve_once[where P = "\<lambda>st. dabs st (Hash dcode) = None", OF _ _ assms(3,4,1,2)])
    fix q :: TokenReq and sg st r sg' st' assume "inv st" "dinv st" "dispatch t (tr_env q) (tr_form q) (tr_auth q) sg st = (Inr r, sg', st')"
      "presents grantDeviceCode ''device_code'' dcode q"
    then show "dabs st (Hash dcode) \<noteq> None \<and> dabs st' (Hash dcode) = None"
      using deviceGrant_spends[OF _ _ assms(3,4)] dispatch_ok[of t "tr_env q" "tr_form q" "tr_auth q" sg st r sg' st'] unfolding presents_def by fastforce
  qed (use keeps in blast)
  ultimately show ?thesis by (auto split: if_splits)
qed

end

section \<open>Soundness of the grants\<close>

lemma randomFamilyID_Some: "randomFamilyID rnd = Some fam \<Longrightarrow> rnd \<noteq> Some [] \<Longrightarrow> fam \<noteq> []"
  by (cases rnd) (auto simp: randomFamilyID_def hexEncode_def Let_def neq_Nil_conv)

lemma codeRequest_sel [simp]:
  "rq_Code (codeRequest form hdr) = Get form ''code''" "rq_RedirectURI (codeRequest form hdr) = Get form ''redirect_uri''"
  "rq_CodeVerifier (codeRequest form hdr) = Get form ''code_verifier''"
  "rq_ClientID (codeRequest form hdr) = fst (clientCredentials form hdr)" "rq_ClientSecret (codeRequest form hdr) = snd (clientCredentials form hdr)"
  by (simp_all add: codeRequest_def split: prod.split)

lemma codeOK_upd [simp]: "codeOK t now req (ac\<lparr>ac_FamilyID := f, ac_Code := c\<rparr>) = codeOK t now req ac"
  "codeIdentity (ac\<lparr>ac_FamilyID := f, ac_Code := c\<rparr>) = codeIdentity ac"
  by (simp_all add: codeOK_def codeIdentity_def)

context token_store
begin

lemma codeGrant_sound:
  assumes "inv st" "tk_store t = ops" "authorizationCodeGrant t env form hdr sg st = (Inr out, sg', st')" "ev_family env \<noteq> Some []"
  obtains c x fam granted jti sg1 where
    "clientOK t (fst (clientCredentials form hdr)) (snd (clientCredentials form hdr)) grantAuthorizationCode c"
    "a_codes (abs st) (Hash (Get form ''code'')) = Some x" "\<not> acd_consumed x" "codeOK t (ev_clk env 0) (codeRequest form hdr) (acd_data x)"
    "permitted (tk_authorizer t) (ac_Email (acd_data x)) = Inr (granted, True)" "randomFamilyID (ev_family env) = Some fam"
    "Mint (tk_jwx t) sg (ev_jti env) (\<lambda>k. ev_clk env (3 + k)) (accessRequest t (codeIdentity (acd_data x)) (ac_ClientID (acd_data x)) granted)
       = (Inr (to_AccessToken out, jti), sg1)"
    "a_refresh (abs st) (Hash (to_RefreshToken out)) = None"
    "a_refresh (abs st') = (a_refresh (abs st))(Hash (to_RefreshToken out) \<mapsto>
       freshRow (issuedRefresh t (ev_clk env 2) (codeIdentity (acd_data x)) (ac_ClientID (acd_data x)) \<lparr>li_familyID = fam, li_authTime = ev_clk env 1\<rparr> jti (to_RefreshToken out)))"
    "a_codes (abs st') = (a_codes (abs st))(Hash (Get form ''code'') \<mapsto> \<lparr>acd_data = (acd_data x)\<lparr>ac_FamilyID := fam\<rparr>, acd_consumed = True\<rparr>)"
    "inv st'"
  using assms(3)
proof (cases rule: codeGrant_cases)
  case (redeemed r st1 res1)
  then have i: "issue t env 2 (rd_Identity r) (rd_ClientID r) (rd_Nonce r) \<lparr>li_familyID = rd_FamilyID r, li_authTime = ev_clk env 1\<rparr> sg st1 = (Inr out, sg', st')"
    by (auto split: sum.splits)
  obtain c fam ac where c: "clientOK t (fst (clientCredentials form hdr)) (snd (clientCredentials form hdr)) grantAuthorizationCode c" "randomFamilyID (ev_family env) = Some fam"
    "ts_ConsumeAuthCode ops st (Get form ''code'') fam (ev_clk env 0) = (Live ac, st1)" "codeOK t (ev_clk env 0) (codeRequest form hdr) ac"
    "r = \<lparr>rd_Identity = codeIdentity ac, rd_ClientID = ac_ClientID ac, rd_Nonce = ac_Nonce ac, rd_FamilyID = fam\<rparr>"
    using redeem_ok_cases[OF redeemed(1)] assms(2) by (metis codeRequest_sel(1,4,5))
  obtain x where x: "a_codes (abs st) (Hash (Get form ''code'')) = Some x" "\<not> acd_consumed x" "ac = (acd_data x)\<lparr>ac_FamilyID := fam, ac_Code := Get form ''code''\<rparr>"
    "abs st1 = (abs st)\<lparr>a_codes := (a_codes (abs st))(Hash (Get form ''code'') \<mapsto> \<lparr>acd_data = (acd_data x)\<lparr>ac_FamilyID := fam\<rparr>, acd_consumed = True\<rparr>)\<rparr>" "inv st1"
    by (rule consume_live[OF assms(1) c(3)])
  have fam: "fam \<noteq> []" using randomFamilyID_Some[OF c(2) assms(4)] .
  obtain granted jti sg1 where "permitted (tk_authorizer t) (id_Email (rd_Identity r)) = Inr (granted, True)"
    "Mint (tk_jwx t) sg (ev_jti env) (\<lambda>k. ev_clk env (3 + k)) (accessRequest t (rd_Identity r) (rd_ClientID r) granted) = (Inr (to_AccessToken out, jti), sg1)"
    "a_refresh (abs st1) (Hash (to_RefreshToken out)) = None"
    "abs st' = (abs st1)\<lparr>a_refresh := (a_refresh (abs st1))(Hash (to_RefreshToken out) \<mapsto> freshRow (issuedRefresh t (ev_clk env 2) (rd_Identity r) (rd_ClientID r)
       \<lparr>li_familyID = fam, li_authTime = ev_clk env 1\<rparr> jti (to_RefreshToken out)))\<rparr>"
    using issue_saved[OF x(5) assms(2) i] fam c(5) by (auto simp: Let_def numeral_3_eq_3)
  then show thesis
    using c x that[of c x granted fam jti sg1] issue_advances[OF x(5) assms(2) i] by (simp add: codeIdentity_def)
qed simp

lemma refreshGrant_sound:
  assumes "inv st" "tk_store t = ops" "refreshTokenGrant t env form hdr sg st = (Inr out, sg', st')"
    "\<forall>x\<in>ran (a_refresh (abs st)). rt_FamilyID (ab_data x) \<noteq> []"
  obtains c x granted jti sg1 where
    "clientOK t (fst (clientCredentials form hdr)) (snd (clientCredentials form hdr)) grantRefreshToken c"
    "a_refresh (abs st) (Hash (Get form ''refresh_token'')) = Some x" "\<not> ab_consumed x" "\<not> ab_revoked x"
    "rt_ClientID (ab_data x) = fst (clientCredentials form hdr)" "refreshOK t (ev_clk env 0) (ab_data x)"
    "permitted (tk_authorizer t) (rt_Email (ab_data x)) = Inr (granted, True)"
    "Mint (tk_jwx t) sg (ev_jti env) (\<lambda>k. ev_clk env (2 + k)) (accessRequest t (refreshIdentity (ab_data x)) (rt_ClientID (ab_data x)) granted)
       = (Inr (to_AccessToken out, jti), sg1)"
    "\<not> fam_revoked (abs st) (rt_FamilyID (ab_data x))" "a_refresh (abs st) (Hash (to_RefreshToken out)) = None"
    "a_refresh (abs st') = (a_refresh (abs st))(Hash (Get form ''refresh_token'') \<mapsto> x\<lparr>ab_consumed := True\<rparr>, Hash (to_RefreshToken out) \<mapsto>
       freshRow (issuedRefresh t (ev_clk env 1) (refreshIdentity (ab_data x)) (rt_ClientID (ab_data x))
         \<lparr>li_familyID = rt_FamilyID (ab_data x), li_authTime = rt_AuthTime (ab_data x)\<rparr> jti (to_RefreshToken out)))"
    "inv st'"
proof -
  let ?tok = "Get form ''refresh_token''"
  obtain c rt st1 where c: "clientOK t (fst (clientCredentials form hdr)) (snd (clientCredentials form hdr)) grantRefreshToken c"
    "ts_ConsumeRefresh ops st ?tok (fst (clientCredentials form hdr)) (ev_clk env 0) = (Live rt, st1)" "refreshOK t (ev_clk env 0) rt"
    and i: "issue t env 1 (refreshIdentity rt) (rt_ClientID rt) [] \<lparr>li_familyID = rt_FamilyID rt, li_authTime = rt_AuthTime rt\<rparr> sg st1 = (Inr out, sg', st')"
    by (rule refreshGrant_ok_cases[OF assms(3) prod.collapse[symmetric]]) (simp add: assms(2))
  obtain x where x: "a_refresh (abs st) (Hash ?tok) = Some x" "\<not> ab_consumed x" "\<not> ab_revoked x" "rt = (ab_data x)\<lparr>rt_Token := ?tok\<rparr>"
    "rt_ClientID rt = fst (clientCredentials form hdr)" "abs st1 = (abs st)\<lparr>a_refresh := (a_refresh (abs st))(Hash ?tok \<mapsto> x\<lparr>ab_consumed := True\<rparr>)\<rparr>" "inv st1"
    by (rule refresh_live[OF assms(1) c(2)])
  have fam: "rt_FamilyID rt \<noteq> []" using assms(4) x(1,4) by (auto simp: ran_def)
  obtain granted jti sg1 where j: "permitted (tk_authorizer t) (rt_Email rt) = Inr (granted, True)"
    "Mint (tk_jwx t) sg (ev_jti env) (\<lambda>k. ev_clk env (2 + k)) (accessRequest t (refreshIdentity rt) (rt_ClientID rt) granted) = (Inr (to_AccessToken out, jti), sg1)"
    "\<not> fam_revoked (abs st1) (rt_FamilyID rt)" "a_refresh (abs st1) (Hash (to_RefreshToken out)) = None"
    "abs st' = (abs st1)\<lparr>a_refresh := (a_refresh (abs st1))(Hash (to_RefreshToken out) \<mapsto> freshRow (issuedRefresh t (ev_clk env 1) (refreshIdentity rt) (rt_ClientID rt)
       \<lparr>li_familyID = rt_FamilyID rt, li_authTime = rt_AuthTime rt\<rparr> jti (to_RefreshToken out)))\<rparr>"
    using issue_saved[OF x(7) assms(2) i] fam by (auto simp: Let_def refreshIdentity_def numeral_2_eq_2)
  have "refreshOK t (ev_clk env 0) (ab_data x)" "refreshIdentity rt = refreshIdentity (ab_data x)"
    using c(3) x(4) by (simp_all add: refreshOK_def refreshIdentity_def)
  moreover have "\<not> fam_revoked (abs st) (rt_FamilyID rt)"
    using evolves_fam_revoked consumeRefresh_advances[OF assms(1) c(2)] j(3) unfolding advances_def by blast
  moreover have "a_refresh (abs st) (Hash (to_RefreshToken out)) = None" using j(4) x(1) unfolding x(6) by (auto split: if_splits)
  ultimately show thesis
    using c x j that[of c x granted jti sg1] issue_advances[OF x(7) assms(2) i] by simp
qed

end

section \<open>What every stored token satisfies\<close>

definition allRows :: "(Refresh \<Rightarrow> bool) \<Rightarrow> AbsTokens \<Rightarrow> bool" where
  "allRows Q A = (\<forall>h x. a_refresh A h = Some x \<longrightarrow> Q (ab_data x))"

lemma allRows_spec:
  "spec_ConsumeRefresh A token cid = (res, A') \<Longrightarrow> allRows Q A \<Longrightarrow> allRows Q A'"
  "spec_RevokeRefreshFamily A F = (res2, A') \<Longrightarrow> allRows Q A \<Longrightarrow> allRows Q A'"
  "spec_ConsumeAuthCode A code f = (res3, A') \<Longrightarrow> allRows Q A \<Longrightarrow> allRows Q A'"
  by (auto simp: allRows_def spec_defs Let_def split: option.splits if_splits)

context token_store
begin

lemma revokeFamily_allRows:
  assumes "inv st" "tk_store t = ops" "revokeFamily t F now st = (e, st')" "allRows Q (abs st)"
  shows "allRows Q (abs st')"
proof -
  obtain res where "ts_RevokeRefreshFamily ops st F now = (res, st')"
    using assms(2,3) by (auto simp: revokeFamily_def split: prod.splits sum.splits)
  from revoke_family[OF assms(1) this] show ?thesis
    using assms(4) allRows_spec(2)[of "abs st" F res "abs st'" Q] by auto
qed

lemma revokeAndRefuse_allRows:
  assumes "inv st" "tk_store t = ops" "revokeAndRefuse t F now e0 st = (e, st')" "allRows Q (abs st)"
  shows "allRows Q (abs st')"
  using assms(3) revokeFamily_allRows[OF assms(1,2) _ assms(4)]
  by (auto simp: revokeAndRefuse_def split: prod.splits option.splits)

lemma issue_allRows:
  assumes "inv st" "tk_store t = ops" "issue t env i who cid nonce l0 sg st = (res, sg', st')" "allRows Q (abs st)"
    and l: "\<And>l jti tok. (if li_familyID l0 = [] then map_option (\<lambda>f. \<lparr>li_familyID = f, li_authTime = ev_clk env i\<rparr>) (randomFamilyID (ev_family env)) else Some l0) = Some l
      \<Longrightarrow> Q ((issuedRefresh t (ev_clk env i) who cid l jti tok)\<lparr>rt_Token := []\<rparr>)"
  shows "allRows Q (abs st')"
  using assms(3)
proof (cases rule: issue_cases)
  case (saved l granted access jti sg1 idt sg2 rtok err)
  let ?r = "issuedRefresh t (ev_clk env i) who cid l jti rtok"
  have "ts_SaveRefresh ops st ?r = (err, st')" using saved(6) assms(2) by simp
  from save_refresh[OF assms(1) this] show ?thesis
    using assms(4) l[OF saved(2), of jti rtok] by (auto simp: spec_SaveRefresh_def allRows_def split: if_splits)
qed (simp add: assms(4))

lemma codeGrant_allRows:
  assumes "inv st" "tk_store t = ops" "authorizationCodeGrant t env form hdr sg st = (res, sg', st')" "allRows Q (abs st)"
    and Q: "\<And>who cid fam at jti tok. randomFamilyID (ev_family env) = Some fam \<Longrightarrow> fam \<noteq> [] \<Longrightarrow>
      Q ((issuedRefresh t (ev_clk env 2) who cid \<lparr>li_familyID = fam, li_authTime = at\<rparr> jti tok)\<lparr>rt_Token := []\<rparr>)" and ne: "ev_family env \<noteq> Some []"
  shows "allRows Q (abs st')"
proof -
  have redeem: "inv st2 \<and> allRows Q (abs st2)" if r: "RedeemAuthorizationCode t rnd now req st = (r, st2)" for rnd now req r st2
    using r
  proof (cases rule: redeem_steps)
    case (2 fam out st1)
    then have g: "ts_ConsumeAuthCode ops st (rq_Code req) fam now = (out, st1)" using assms(2) by simp
    have "inv st1" "allRows Q (abs st1)"
      using consume_code[OF assms(1) g] assms(4) allRows_spec(3)[of "abs st" "rq_Code req" fam out "abs st1" Q] by auto
    then show ?thesis using 2(2) revokeFamily_allRows[OF _ assms(2)] redeem_advances[OF assms(1,2) r] by blast
  qed (use assms in simp)
  show ?thesis using assms(3)
  proof (cases rule: codeGrant_cases)
    case (redeemed r st1 res1)
    obtain fam where "rd_FamilyID r = fam" "randomFamilyID (ev_family env) = Some fam" "fam \<noteq> []"
      using redeem_ok_cases[OF redeemed(1)] randomFamilyID_Some[OF _ ne] by (metis AuthCodeRedemption.select_convs(4))
    then have l: "(if li_familyID \<lparr>li_familyID = rd_FamilyID r, li_authTime = ev_clk env 1\<rparr> = [] then m else Some \<lparr>li_familyID = rd_FamilyID r, li_authTime = ev_clk env 1\<rparr>) = Some l
        \<Longrightarrow> Q ((issuedRefresh t (ev_clk env 2) who cid l jti tok)\<lparr>rt_Token := []\<rparr>)" for m l who cid jti tok
      using Q[of fam] by auto
    show ?thesis by (rule issue_allRows[OF _ assms(2) redeemed(2)]) (use redeem[OF redeemed(1)] l in blast)+
  qed (use redeem in blast)
qed

lemma refreshGrant_allRows:
  assumes "inv st" "tk_store t = ops" "refreshTokenGrant t env form hdr sg st = (res, sg', st')" "allRows Q (abs st)"
    and Q: "\<And>rt jti tok. Q rt \<Longrightarrow> rt_FamilyID rt \<noteq> [] \<and> Q ((issuedRefresh t (ev_clk env 1) (refreshIdentity rt) (rt_ClientID rt)
        \<lparr>li_familyID = rt_FamilyID rt, li_authTime = rt_AuthTime rt\<rparr> jti tok)\<lparr>rt_Token := []\<rparr>)"
  shows "allRows Q (abs st')"
proof -
  note rev = revokeAndRefuse_allRows[OF _ assms(2)]
  have con: "inv st1 \<and> allRows Q (abs st1)" if g: "ts_ConsumeRefresh (tk_store t) st tok cid now = (out, st1)" for tok cid now out st1
    using consume_refresh[OF assms(1) g[unfolded assms(2)]] assms(4) allRows_spec(1)[of "abs st" tok cid out "abs st1" Q] by auto
  have iss: "inv st2 \<and> allRows Q (abs st2)" if g: "ts_ConsumeRefresh (tk_store t) st tok cid now = (Live rt, st1)"
    and i: "issue t env 1 (refreshIdentity rt) (rt_ClientID rt) [] \<lparr>li_familyID = rt_FamilyID rt, li_authTime = rt_AuthTime rt\<rparr> sg st1 = (res1, sg', st2)"
    for tok cid now rt st1 res1 st2
  proof -
    have st1: "inv st1" "allRows Q (abs st1)" using con[OF g] by blast+
    obtain x where "a_refresh (abs st) (Hash tok) = Some x" "rt = (ab_data x)\<lparr>rt_Token := tok\<rparr>"
      by (rule refresh_live[OF assms(1) g[unfolded assms(2)]])
    then have "rt_FamilyID rt \<noteq> []" "\<And>jti tok. Q ((issuedRefresh t (ev_clk env 1) (refreshIdentity rt) (rt_ClientID rt)
        \<lparr>li_familyID = rt_FamilyID rt, li_authTime = rt_AuthTime rt\<rparr> jti tok)\<lparr>rt_Token := []\<rparr>)"
      using Q[of "ab_data x"] assms(4) by (auto simp: allRows_def refreshIdentity_def)
    moreover have "allRows Q (abs st2)"
      by (rule issue_allRows[OF st1(1) assms(2) i st1(2)]) (use calculation in \<open>auto split: if_splits\<close>)
    ultimately show ?thesis using issue_advances[OF st1(1) assms(2) i] by blast
  qed
  show ?thesis using assms(3)
  proof (cases rule: refreshGrant_steps)
    case (consumed cid out e)
    then show ?thesis using con by blast
  next
    case (revoked cid out st1 F e0 e)
    then show ?thesis using con[OF revoked(1)] rev by blast
  next
    case (issued cid rt st1)
    then show ?thesis using iss by blast
  next
    case (denied cid rt st1 st2 F e0 e)
    then show ?thesis using iss[OF denied(1,2)] rev by blast
  qed (use assms in simp)
qed

end

context oidc_store
begin

lemma deviceGrant_allRows:
  assumes "inv st" "dinv st" "tk_store t = ops" "tk_devices t \<in> {None, Some dops}" "deviceCodeGrant t env form hdr sg st = (res, sg', st')" "allRows Q (abs st)"
    and Q: "\<And>who cid fam at jti tok. randomFamilyID (ev_family env) = Some fam \<Longrightarrow> fam \<noteq> [] \<Longrightarrow>
      Q ((issuedRefresh t (ev_clk env 1) who cid \<lparr>li_familyID = fam, li_authTime = at\<rparr> jti tok)\<lparr>rt_Token := []\<rparr>)" and ne: "ev_family env \<noteq> Some []"
  shows "allRows Q (abs st')"
  using assms(5)
proof (cases rule: deviceGrant_steps)
  case (2 dev out st1)
  have dev: "dev = dops" using 2(1) assms(4) by simp
  have st1: "inv st1" "abs st1 = abs st" using 2(2) poll_frame[of st] assms(1) unfolding dev by (metis snd_conv)+
  have st2: "inv st2 \<and> abs st2 = abs st" if "ds_ConsumeDeviceCode dops st1 c = (o2, st2)" for c o2 st2
    using that consume_frame[of st1] st1 by (metis snd_conv)
  have "allRows Q (abs st')" if "ds_ConsumeDeviceCode dops st1 c = (o2, st2)"
    and i: "issue t env 1 who cid [] \<lparr>li_familyID = [], li_authTime = zeroTime\<rparr> sg st2 = (res1, sg', st')" for c o2 st2 who cid res1
  proof (rule issue_allRows[OF _ assms(3) i])
    fix l jti tok assume "(if li_familyID \<lparr>li_familyID = [], li_authTime = zeroTime\<rparr> = [] then map_option (\<lambda>f. \<lparr>li_familyID = f, li_authTime = ev_clk env 1\<rparr>)
      (randomFamilyID (ev_family env)) else Some \<lparr>li_familyID = [], li_authTime = zeroTime\<rparr>) = Some l"
    then obtain fam where "randomFamilyID (ev_family env) = Some fam" "l = \<lparr>li_familyID = fam, li_authTime = ev_clk env 1\<rparr>" by auto
    then show "Q ((issuedRefresh t (ev_clk env 1) who cid l jti tok)\<lparr>rt_Token := []\<rparr>)" using Q randomFamilyID_Some[OF _ ne] by blast
  qed (use st2[OF that(1)] assms(6) in simp_all)
  then show ?thesis using 2(3) st1 st2 assms(6) unfolding dev by (elim disjE exE conjE) simp_all
qed (use assms in simp)

lemma dispatch_allRows:
  assumes "inv st" "dinv st" "tk_store t = ops" "tk_devices t \<in> {None, Some dops}" "dispatch t env form hdr sg st = (res, sg', st')" "allRows Q (abs st)"
    and new: "\<And>now who cid fam at jti tok. randomFamilyID (ev_family env) = Some fam \<Longrightarrow> fam \<noteq> [] \<Longrightarrow>
      Q ((issuedRefresh t now who cid \<lparr>li_familyID = fam, li_authTime = at\<rparr> jti tok)\<lparr>rt_Token := []\<rparr>)" and "ev_family env \<noteq> Some []"
    and old: "\<And>now rt jti tok. Q rt \<Longrightarrow> rt_FamilyID rt \<noteq> [] \<and> Q ((issuedRefresh t now (refreshIdentity rt) (rt_ClientID rt)
        \<lparr>li_familyID = rt_FamilyID rt, li_authTime = rt_AuthTime rt\<rparr> jti tok)\<lparr>rt_Token := []\<rparr>)"
  shows "allRows Q (abs st')"
  using assms(5,6) codeGrant_allRows[OF assms(1,3) _ assms(6) new assms(8), of form hdr sg res sg' st']
    refreshGrant_allRows[OF assms(1,3) _ assms(6) old, of env form hdr sg res sg' st']
    deviceGrant_allRows[OF assms(1-4) _ assms(6) new assms(8), of form hdr sg res sg' st']
  unfolding dispatch_def by (auto split: if_splits option.splits)

lemma serve_allRows:
  assumes "tk_store t = ops" "tk_devices t \<in> {None, Some dops}"
    and new: "\<And>(q :: TokenReq) now who cid fam at jti tok. q \<in> set qs \<Longrightarrow> randomFamilyID (ev_family (tr_env q)) = Some fam \<Longrightarrow> fam \<noteq> [] \<Longrightarrow>
      Q ((issuedRefresh t now who cid \<lparr>li_familyID = fam, li_authTime = at\<rparr> jti tok)\<lparr>rt_Token := []\<rparr>)"
    and ne: "\<And>q :: TokenReq. q \<in> set qs \<Longrightarrow> ev_family (tr_env q) \<noteq> Some []"
    and old: "\<And>now rt jti tok. Q rt \<Longrightarrow> rt_FamilyID rt \<noteq> [] \<and> Q ((issuedRefresh t now (refreshIdentity rt) (rt_ClientID rt)
        \<lparr>li_familyID = rt_FamilyID rt, li_authTime = rt_AuthTime rt\<rparr> jti tok)\<lparr>rt_Token := []\<rparr>)"
  shows "inv st \<Longrightarrow> dinv st \<Longrightarrow> allRows Q (abs st) \<Longrightarrow> serve t qs sg st = (rs, sg', st') \<Longrightarrow> allRows Q (abs st')"
  using new ne
proof (induction qs arbitrary: sg st rs)
  case (Cons q qs)
  obtain r sg1 st1 where d: "dispatch t (tr_env q) (tr_form q) (tr_auth q) sg st = (r, sg1, st1)" by (metis prod_cases3)
  then obtain rs' where s: "serve t qs sg1 st1 = (rs', sg', st')" using Cons.prems(4) by (auto split: prod.splits)
  have "allRows Q (abs st1)"
    by (rule dispatch_allRows[OF Cons.prems(1,2) assms(1,2) d Cons.prems(3) Cons.prems(5)[of q] Cons.prems(6)[of q] old]) simp_all
  then show ?case
    by (intro Cons.IH[OF _ _ _ s] Cons.prems(5,6)) (use dispatch_keeps[OF Cons.prems(1,2) assms(1,2) d] in simp_all)
qed simp

end

section \<open>A refused refresh issues nothing\<close>

lemma dom_spec:
  "spec_ConsumeRefresh A token cid = (res, A') \<Longrightarrow> dom (a_refresh A') = dom (a_refresh A)"
  "spec_RevokeRefreshFamily A F = (res2, A') \<Longrightarrow> dom (a_refresh A') = dom (a_refresh A)"
  by (auto simp: spec_defs split: option.splits if_splits)

context token_store
begin

lemma revokeAndRefuse_dom:
  assumes "inv st" "tk_store t = ops" "revokeAndRefuse t F now e0 st = (e, st')"
  shows "dom (a_refresh (abs st')) = dom (a_refresh (abs st))"
proof -
  obtain res where "ts_RevokeRefreshFamily ops st F now = (res, st')"
    using assms(2,3) by (auto simp: revokeAndRefuse_def revokeFamily_def split: prod.splits sum.splits)
  from revoke_family[OF assms(1) this] show ?thesis
    using dom_spec(2)[of "abs st" F res "abs st'"] by metis
qed

lemma issue_refused_dom:
  assumes "inv st" "tk_store t = ops" "issue t env i who cid nonce l0 sg st = (Inl e, sg', st')"
  shows "dom (a_refresh (abs st')) = dom (a_refresh (abs st))"
  using assms(3)
proof (cases rule: issue_cases)
  case (saved l granted access jti sg1 idt sg2 rtok err)
  then show ?thesis using save_refresh[OF assms(1), of "issuedRefresh t (ev_clk env i) who cid l jti rtok" err st'] assms(2)
    by (auto simp: spec_SaveRefresh_def split: option.splits if_splits)
qed simp

lemma refreshGrant_refused_dom:
  assumes "inv st" "tk_store t = ops" "refreshTokenGrant t env form hdr sg st = (Inl e, sg', st')"
  shows "dom (a_refresh (abs st')) = dom (a_refresh (abs st))"
proof -
  have con: "inv st1 \<and> dom (a_refresh (abs st1)) = dom (a_refresh (abs st))" if g: "ts_ConsumeRefresh (tk_store t) st tok cid now = (out, st1)" for tok cid now out st1
    using consume_refresh[OF assms(1) g[unfolded assms(2)]] dom_spec(1)[of "abs st" tok cid out "abs st1"] by metis
  note rev = revokeAndRefuse_dom[OF _ assms(2)] and iss = issue_refused_dom[OF _ assms(2)] issue_advances[OF _ assms(2)]
  show ?thesis using assms(3)
  proof (cases rule: refreshGrant_steps)
    case (revoked cid out st1 F e0 e)
    then show ?thesis using con[OF revoked(1)] rev[of st1 F] by simp
  next
    case (issued cid rt st1)
    then show ?thesis using con[OF issued(1)] iss(1)[of st1] by metis
  next
    case (denied cid rt st1 st2 F e0 e)
    then show ?thesis using con[OF denied(1)] iss(1)[of st1, OF _ denied(2)] iss(2)[of st1, OF _ denied(2)] rev[of st2, OF _ denied(3)] by simp
  qed (use con in auto)
qed

end

section \<open>The SQLite store\<close>

lemma abs_tokens_frame [simp]:
  "abs_tokens (s\<lparr>device_codes := d\<rparr>) = abs_tokens s" "wf_tokens (s\<lparr>device_codes := d\<rparr>) = wf_tokens s"
  by (simp_all add: abs_tokens_def wf_tokens_def)

lemma abs_devices_frame [simp]:
  "abs_devices (s\<lparr>auth_codes := a\<rparr>) = abs_devices s" "wf_devices (s\<lparr>auth_codes := a\<rparr>) = wf_devices s"
  "abs_devices (s\<lparr>refresh_tokens := r\<rparr>) = abs_devices s" "wf_devices (s\<lparr>refresh_tokens := r\<rparr>) = wf_devices s"
  by (simp_all add: abs_devices_def wf_devices_def fun_eq_iff)

lemma updateDevice_frame [simp]:
  "abs_tokens (snd (updateDevice P f st)) = abs_tokens st" "wf_tokens (snd (updateDevice P f st)) = wf_tokens st"
  by (simp_all add: updateDevice_def)

lemma pollSwap_frame [simp]: "abs_tokens (snd (pollSwap h now prev st)) = abs_tokens st" "wf_tokens (snd (pollSwap h now prev st)) = wf_tokens st"
  by (simp_all add: pollSwap_def)

lemma decideDeviceCode_frame [simp]:
  "abs_tokens (snd (decideDeviceCode st now f uc)) = abs_tokens st" "wf_tokens (snd (decideDeviceCode st now f uc)) = wf_tokens st"
  by (auto simp: decideDeviceCode_def updateDevice_def split: option.split)

lemma PollDeviceCode_frame:
  "abs_tokens (snd (PollDeviceCode st c now)) = abs_tokens st" "wf_tokens (snd (PollDeviceCode st c now)) = wf_tokens st"
  by (auto simp: PollDeviceCode_def Let_def pollBump_def pollSwap_def updateDevice_def split: option.split)

interpretation sqlite_oidc: oidc_store sqliteTokenStore wf_tokens abs_tokens sqliteDeviceStore wf_devices abs_devices
  by unfold_locales
     (auto simp: sqliteDeviceStore_def PollDeviceCode_frame ConsumeDeviceCode_def ApproveDeviceCode_def DenyDeviceCode_def SaveDeviceCode_def
        ConsumeAuthCode_def SaveRefresh_def ConsumeRefresh_def RevokeRefreshFamily_def revokeRefresh_def Let_def split: option.split)

text \<open>The abstract state read as rows.\<close>

lemma code_row: "wf_tokens s \<Longrightarrow> a_codes (abs_tokens s) h = Some x \<longleftrightarrow> (\<exists>row\<in>set (auth_codes s). acr_code_hash row = h \<and> x = abs_code row)"
  by (auto simp: wf_tokens_def find_key_Some_iff)

lemma refresh_row: "wf_tokens s \<Longrightarrow> a_refresh (abs_tokens s) h = Some x \<longleftrightarrow> (\<exists>row\<in>set (refresh_tokens s). rr_token_hash row = h \<and> x = abs_refresh row)"
  by (auto simp: wf_tokens_def find_key_Some_iff)

lemma abs_code_sel [simp]: "acd_data (abs_code r) = acr_data r" "acd_consumed (abs_code r) = (acr_consumed_at r \<noteq> None)"
  by (simp_all add: abs_code_def)

lemma allRows_rows: "wf_tokens s \<Longrightarrow> allRows Q (abs_tokens s) \<longleftrightarrow> (\<forall>row\<in>set (refresh_tokens s). Q (rr_data row))"
  unfolding allRows_def using refresh_row by (metis abs_refresh_simps(1))

definition familyRevoked :: "Store \<Rightarrow> string \<Rightarrow> bool" where
  "familyRevoked s F = list_all (\<lambda>row. rt_FamilyID (rr_data row) = F \<longrightarrow> rr_revoked_at row \<noteq> None) (refresh_tokens s)"

lemma fam_dead_rows: "wf_tokens s \<Longrightarrow> fam_dead (abs_tokens s) F \<longleftrightarrow> familyRevoked s F \<and> (\<exists>row\<in>set (refresh_tokens s). rt_FamilyID (rr_data row) = F)"
  unfolding fam_dead_def abs_fam_revoked familyRevoked_def list_all_iff using refresh_row
  by (metis (no_types, lifting) abs_refresh_simps(1,3))

lemma freshRow_abs: "freshRow r = abs_refresh row \<longleftrightarrow> rr_data row = r\<lparr>rt_Token := []\<rparr> \<and> rr_consumed_at row = None \<and> rr_revoked_at row = None"
  by (auto simp: freshRow_def abs_refresh_def)

lemma fresh_row:
  "wf_tokens s \<Longrightarrow> a_refresh (abs_tokens s) h = Some (freshRow r) \<Longrightarrow> \<exists>row\<in>set (refresh_tokens s). rr_token_hash row = h \<and>
     rr_consumed_at row = None \<and> rr_revoked_at row = None \<and> rr_data row = r\<lparr>rt_Token := []\<rparr>"
  unfolding refresh_row freshRow_abs by blast

lemma hashes_dom: "rr_token_hash ` set (refresh_tokens s) = dom (a_refresh (abs_tokens s))"
  by (auto simp: dom_def find_key_None_iff simp del: not_None_eq)

section \<open>A concrete endpoint\<close>

definition sampleClient :: Client where
  "sampleClient = \<lparr>ci_RedirectURIs = [''https://ui/cb''], ci_GrantTypes = [grantAuthorizationCode, grantRefreshToken, grantDeviceCode], ci_Secret = ''s3cret''\<rparr>"

definition sampleToken :: "(Store, string, string, (string \<times> string) list, string \<times> JwsHeader \<times> Claims) Token" where
  "sampleToken = (NewToken sqliteTokenStore plainJwx [(''ui'', sampleClient)])\<lparr>tk_devices := Some sqliteDeviceStore, tk_connectors := Some [''google''],
     tk_allowedDomains := [''x''], tk_authorizer := (\<lambda>_. Inr (Some \<lparr>perms = [(''orders'', ''write'')]\<rparr>))\<rparr>"

definition sampleSigner :: "string Signer" where
  "sampleSigner = NewSigner (Some plainRing) ''iss'' ''temporal''"

definition sampleEnv :: "Time \<Rightarrow> string \<Rightarrow> TokenEnv" where
  "sampleEnv now r = \<lparr>ev_clk = (\<lambda>_. now), ev_family = Some ''F'', ev_jti = Some ''j1'', ev_idJti = Some ''j2'', ev_refresh = Some r\<rparr>"

definition sampleCode :: AuthCode where
  "sampleCode = \<lparr>ac_Code = [], ac_ClientID = ''ui'', ac_RedirectURI = ''https://ui/cb'', ac_ConnectorID = ''google'', ac_Subject = ''1'', ac_Email = ''a@x'',
     ac_Scope = ''openid'', ac_CodeChallenge = [], ac_CodeChallengeMethod = [], ac_Nonce = ''n'', ac_FamilyID = [], ac_CreatedAt = Hour, ac_ExpiresAt = Hour + Minute\<rparr>"

definition sampleRefresh :: Refresh where
  "sampleRefresh = \<lparr>rt_Token = [], rt_JTI = ''j0'', rt_ClientID = ''ui'', rt_ConnectorID = ''google'', rt_Subject = ''1'', rt_Email = ''a@x'',
     rt_FamilyID = ''46'', rt_AuthTime = Hour, rt_CreatedAt = Hour, rt_ExpiresAt = Hour + DefaultRefreshTokenTTL\<rparr>"

text \<open>A code and perhaps a refresh token, each consumed or not, and an approved device code.\<close>

definition sampleStore :: "Time option \<Rightarrow> Time option list \<Rightarrow> Store" where
  "sampleStore usedCode refreshes = emptyStore\<lparr>
     auth_codes := [\<lparr>acr_code_hash = Hash ''c'', acr_data = (if usedCode = None then sampleCode else sampleCode\<lparr>ac_FamilyID := ''46''\<rparr>), acr_consumed_at = usedCode\<rparr>],
     refresh_tokens := map (\<lambda>used. \<lparr>rr_token_hash = Hash ''r'', rr_data = sampleRefresh, rr_consumed_at = used, rr_revoked_at = None\<rparr>) (take 1 refreshes),
     device_codes := [\<lparr>dr_device_code_hash = Hash ''d'', dr_data = \<lparr>dc_Code = [], dc_UserCode = ''BBBB-CCCC'', dc_ClientID = ''ui'', dc_Scope = ''openid'',
       dc_ConnectorID = ''google'', dc_Subject = ''1'', dc_Email = ''a@x'', dc_ApprovedAt = Some Hour, dc_DeniedAt = None, dc_LastPolledAt = None,
       dc_IntervalSeconds = 5, dc_CreatedAt = Hour, dc_ExpiresAt = Hour + Minute\<rparr>\<rparr>]\<rparr>"

definition sampleForm :: "string \<Rightarrow> string \<Rightarrow> string \<Rightarrow> Values" where
  "sampleForm gt param v = [(''grant_type'', gt), (param, v), (''client_id'', ''ui''), (''client_secret'', ''s3cret''), (''redirect_uri'', ''https://ui/cb'')]"

lemmas sample_defs = sampleClient_def sampleToken_def sampleSigner_def sampleEnv_def sampleCode_def sampleRefresh_def sampleStore_def sampleForm_def NewToken_def emptyStore_def

lemma sample_wf [simp]: "wf_tokens (sampleStore a b)" "wf_devices (sampleStore a b)"
  by (cases b; simp_all add: wf_tokens_def wf_devices_def sampleStore_def)+

lemma sample_config [simp]: "tk_store sampleToken = sqliteTokenStore" "tk_devices sampleToken = Some sqliteDeviceStore"
  by (simp_all add: sampleToken_def NewToken_def)

section \<open>Properties\<close>

text \<open>
  C3. What a redeemed authorization code proves. When the code grant answers with tokens over the SQLite
  store, the client was known, allowed the grant and, if confidential, proved its secret; the code's row
  was in the table, unused, unexpired, for this client and redirect URI, and bound to the presented PKCE
  verifier or, without a challenge, to a confidential client; the account is granted something. The access
  token was minted for that account. Afterwards the code is marked used with the new family, and the
  returned refresh token is the one live row added: for the code's account and client, in that family,
  expiring at the idle bound or the session's end, whichever is first.
\<close>

theorem code_grant_sound:
  assumes "wf_tokens st" "tk_store t = sqliteTokenStore" "authorizationCodeGrant t env form hdr sg st = (Inr out, sg', st')" "ev_family env \<noteq> Some []"
  shows "\<exists>c code fam granted jti sg1 fresh.
    clientOK t (fst (clientCredentials form hdr)) (snd (clientCredentials form hdr)) grantAuthorizationCode c \<and>
    code \<in> set (auth_codes st) \<and> acr_code_hash code = Hash (Get form ''code'') \<and> acr_consumed_at code = None \<and>
    codeOK t (ev_clk env 0) (codeRequest form hdr) (acr_data code) \<and>
    permitted (tk_authorizer t) (ac_Email (acr_data code)) = Inr (granted, True) \<and> randomFamilyID (ev_family env) = Some fam \<and>
    Mint (tk_jwx t) sg (ev_jti env) (\<lambda>k. ev_clk env (3 + k)) (accessRequest t (codeIdentity (acr_data code)) (ac_ClientID (acr_data code)) granted)
      = (Inr (to_AccessToken out, jti), sg1) \<and>
    (\<exists>used\<in>set (auth_codes st'). acr_code_hash used = Hash (Get form ''code'') \<and> acr_consumed_at used \<noteq> None \<and> ac_FamilyID (acr_data used) = fam) \<and>
    rr_token_hash ` set (refresh_tokens st') = insert (Hash (to_RefreshToken out)) (rr_token_hash ` set (refresh_tokens st)) \<and>
    fresh \<in> set (refresh_tokens st') \<and> rr_token_hash fresh = Hash (to_RefreshToken out) \<and> rr_consumed_at fresh = None \<and> rr_revoked_at fresh = None \<and>
    rr_data fresh = (issuedRefresh t (ev_clk env 2) (codeIdentity (acr_data code)) (ac_ClientID (acr_data code))
       \<lparr>li_familyID = fam, li_authTime = ev_clk env 1\<rparr> jti [])"
proof -
  obtain c x fam granted jti sg1 where a: "clientOK t (fst (clientCredentials form hdr)) (snd (clientCredentials form hdr)) grantAuthorizationCode c"
    "a_codes (abs_tokens st) (Hash (Get form ''code'')) = Some x" "\<not> acd_consumed x" "codeOK t (ev_clk env 0) (codeRequest form hdr) (acd_data x)"
    "permitted (tk_authorizer t) (ac_Email (acd_data x)) = Inr (granted, True)" "randomFamilyID (ev_family env) = Some fam"
    "Mint (tk_jwx t) sg (ev_jti env) (\<lambda>k. ev_clk env (3 + k)) (accessRequest t (codeIdentity (acd_data x)) (ac_ClientID (acd_data x)) granted)
       = (Inr (to_AccessToken out, jti), sg1)"
    and b: "a_refresh (abs_tokens st') = (a_refresh (abs_tokens st))(Hash (to_RefreshToken out) \<mapsto>
       freshRow (issuedRefresh t (ev_clk env 2) (codeIdentity (acd_data x)) (ac_ClientID (acd_data x)) \<lparr>li_familyID = fam, li_authTime = ev_clk env 1\<rparr> jti (to_RefreshToken out)))"
    and d: "a_codes (abs_tokens st') = (a_codes (abs_tokens st))(Hash (Get form ''code'') \<mapsto> \<lparr>acd_data = (acd_data x)\<lparr>ac_FamilyID := fam\<rparr>, acd_consumed = True\<rparr>)"
    and wf: "wf_tokens st'"
    by (rule sqlite.codeGrant_sound[OF assms])
  obtain code where code: "code \<in> set (auth_codes st)" "acr_code_hash code = Hash (Get form ''code'')" "x = abs_code code"
    using a(2) code_row[OF assms(1)] by blast
  have "a_codes (abs_tokens st') (Hash (Get form ''code'')) = Some \<lparr>acd_data = (acd_data x)\<lparr>ac_FamilyID := fam\<rparr>, acd_consumed = True\<rparr>" by (simp only: d fun_upd_same)
  then obtain used where used: "used \<in> set (auth_codes st')" "acr_code_hash used = Hash (Get form ''code'')"
    "abs_code used = \<lparr>acd_data = (acd_data x)\<lparr>ac_FamilyID := fam\<rparr>, acd_consumed = True\<rparr>" unfolding code_row[OF wf] by metis
  then have used': "acr_consumed_at used \<noteq> None" "ac_FamilyID (acr_data used) = fam" by (auto simp: abs_code_def)
  have "a_refresh (abs_tokens st') (Hash (to_RefreshToken out)) = Some (freshRow
      (issuedRefresh t (ev_clk env 2) (codeIdentity (acd_data x)) (ac_ClientID (acd_data x)) \<lparr>li_familyID = fam, li_authTime = ev_clk env 1\<rparr> jti (to_RefreshToken out)))"
    by (simp only: b fun_upd_same)
  from fresh_row[OF wf this] obtain fresh where fresh: "fresh \<in> set (refresh_tokens st')" "rr_token_hash fresh = Hash (to_RefreshToken out)"
    "rr_consumed_at fresh = None" "rr_revoked_at fresh = None"
    "rr_data fresh = issuedRefresh t (ev_clk env 2) (codeIdentity (acr_data code)) (ac_ClientID (acr_data code)) \<lparr>li_familyID = fam, li_authTime = ev_clk env 1\<rparr> jti []"
    by (auto simp: issuedRefresh_def code(3))
  show ?thesis
    by (intro exI[of _ c] exI[of _ code] exI[of _ fam] exI[of _ granted] exI[of _ jti] exI[of _ sg1] exI[of _ fresh] conjI bexI[of _ used])
       (use a code used used' fresh in \<open>simp_all add: hashes_dom b\<close>)
qed

lemma sample_client [simp]:
  "authenticateClient sampleToken ''ui'' ''s3cret'' grantAuthorizationCode = Inr sampleClient"
  "authenticateClient sampleToken ''ui'' ''s3cret'' grantRefreshToken = Inr sampleClient"
  "authenticateClient sampleToken ''ui'' ''s3cret'' grantDeviceCode = Inr sampleClient"
  by (simp_all add: authenticateClient_def Lookup_def Authenticate_def Allows_def sampleToken_def sampleClient_def NewToken_def)

lemma sample_form [simp]:
  "clientCredentials (sampleForm g ''code'' v) [] = (''ui'', ''s3cret'')" "clientCredentials (sampleForm g ''refresh_token'' v) [] = (''ui'', ''s3cret'')"
  "clientCredentials (sampleForm g ''device_code'' v) [] = (''ui'', ''s3cret'')"
  "Get (sampleForm g ''code'' v) ''code'' = v" "Get (sampleForm g ''refresh_token'' v) ''refresh_token'' = v" "Get (sampleForm g ''device_code'' v) ''device_code'' = v"
  "Get (sampleForm g ''code'' v) ''redirect_uri'' = ''https://ui/cb''" "Get (sampleForm g ''code'' v) ''code_verifier'' = []"
  by (simp_all add: clientCredentials_def parseBasicAuth_def hasBasicScheme_def sampleForm_def Get_def)

lemma sample_client_sel [simp]: "ci_Secret sampleClient = ''s3cret''"
  by (simp add: sampleClient_def)

lemma sample_env [simp]: "ev_clk (sampleEnv now r) i = now" "ev_family (sampleEnv now r) = Some ''F''" "ev_jti (sampleEnv now r) = Some ''j1''"
  "ev_idJti (sampleEnv now r) = Some ''j2''" "ev_refresh (sampleEnv now r) = Some r" "randomFamilyID (Some ''F'') = Some ''46''"
  by (simp_all add: sampleEnv_def randomFamilyID_def hexEncode_def hexDigit_def Let_def)

lemma sample_latest: "Latest plainRing (Hour + Second) = Inr (plainKey ''k2'' Second)"
  by (simp add: Latest_def Signing_def plainRing_def newKeys_def plainKey_def Retired_def DefaultPublishDelay_def Hour_def Minute_def Second_def)

lemma sample_sign:
  "sg_parsed sg \<in> {None, Some (''k2'', ''k2'')} \<Longrightarrow> sg_keys sg = Some plainRing \<Longrightarrow>
   sign plainJwx sg (Hour + Second) claims typ = (Inr (''k2'', \<lparr>jh_kid = ''k2'', jh_typ = typ\<rparr>, claims), sg\<lparr>sg_parsed := Some (''k2'', ''k2'')\<rparr>)"
  by (auto simp: sign_def sample_latest signingKey_def plainKey_def)

lemma sample_issue:
  assumes "cid \<noteq> []" "\<And>r. rt_Token r = RawURLEncode tok \<Longrightarrow> fst (SaveRefresh st r) = None"
  shows "\<exists>out sg' st'. issue sampleToken (sampleEnv (Hour + Second) tok) i who cid nonce l sampleSigner st = (Inr out, sg', st')"
proof -
  have p: "permitted (tk_authorizer sampleToken) e = Inr (Some \<lparr>perms = [(''orders'', ''write'')]\<rparr>, True)" for e
    by (simp add: permitted_def sampleToken_def Empty_def)
  have jx: "tk_jwx sampleToken = plainJwx" by (simp add: sampleToken_def NewToken_def)
  have sg: "sg_parsed sampleSigner = None" "sg_keys sampleSigner = Some plainRing" by (simp_all add: sampleSigner_def NewSigner_def)
  have saved: "\<exists>st'. SaveRefresh st (issuedRefresh sampleToken (Hour + Second) who cid l jti (RawURLEncode tok)) = (None, st')" for l jti
    using assms(2)[of "issuedRefresh sampleToken (Hour + Second) who cid l jti (RawURLEncode tok)"] by (simp add: issuedRefresh_def prod_eq_iff)
  show ?thesis
    using assms(1) saved[of l "''j1''"] saved[of "\<lparr>li_familyID = ''46'', li_authTime = Hour + Second\<rparr>" "''j1''"]
    by (auto simp: issue_def Let_def p jx Mint_def MintIDToken_def builder_def sg sample_sign idRequest_def randomRefresh_def)
qed

lemma sample_redeem:
  "\<exists>r st1. RedeemAuthorizationCode sampleToken (Some ''F'') (Hour + Second) (codeRequest (sampleForm grantAuthorizationCode ''code'' ''c'') []) (sampleStore None []) = (Inr r, st1) \<and>
    rd_FamilyID r = ''46'' \<and> rd_ClientID r = ''ui'' \<and> refresh_tokens st1 = []"
  by (simp add: RedeemAuthorizationCode_def sampleStore_def ConsumeAuthCode_def sampleCode_def Second_def Minute_def)

lemma sample_code_grant:
  "\<exists>out sg' st'. authorizationCodeGrant sampleToken (sampleEnv (Hour + Second) ''t'') (sampleForm grantAuthorizationCode ''code'' ''c'') [] sampleSigner (sampleStore None [])
     = (Inr out, sg', st')"
proof -
  obtain r st1 where r: "RedeemAuthorizationCode sampleToken (Some ''F'') (Hour + Second) (codeRequest (sampleForm grantAuthorizationCode ''code'' ''c'') []) (sampleStore None []) = (Inr r, st1)"
    "rd_FamilyID r = ''46''" "rd_ClientID r = ''ui''" "refresh_tokens st1 = []" using sample_redeem by blast
  have "\<exists>out sg' st'. issue sampleToken (sampleEnv (Hour + Second) ''t'') 2 (rd_Identity r) (rd_ClientID r) (rd_Nonce r) \<lparr>li_familyID = rd_FamilyID r, li_authTime = Hour + Second\<rparr> sampleSigner st1 = (Inr out, sg', st')"
    by (rule sample_issue) (simp_all add: r SaveRefresh_def)
  then show ?thesis by (auto simp: authorizationCodeGrant_def r)
qed

theorem code_grant_sound_witness:
  "\<exists>out sg' st' code fresh. authorizationCodeGrant sampleToken (sampleEnv (Hour + Second) ''t'') (sampleForm grantAuthorizationCode ''code'' ''c'') [] sampleSigner (sampleStore None [])
     = (Inr out, sg', st') \<and> code \<in> set (auth_codes (sampleStore None [])) \<and> acr_consumed_at code = None \<and>
     fresh \<in> set (refresh_tokens st') \<and> rr_token_hash fresh = Hash (to_RefreshToken out) \<and> rt_Email (rr_data fresh) = ac_Email (acr_data code)"
proof -
  obtain out sg' st' where g: "authorizationCodeGrant sampleToken (sampleEnv (Hour + Second) ''t'') (sampleForm grantAuthorizationCode ''code'' ''c'') [] sampleSigner
      (sampleStore None []) = (Inr out, sg', st')" using sample_code_grant by blast
  show ?thesis using code_grant_sound[OF _ _ g] g by (fastforce simp: issuedRefresh_def codeIdentity_def)
qed

text \<open>
  C4. What a rotated refresh token proves. When the refresh grant answers with tokens, the client was
  known, allowed the grant and authenticated; the presented token's row was in the table, neither used nor
  revoked, bound to that client, unexpired and inside the session's maximum lifetime; its connector is
  still configured, its email's domain still allowed and its account still granted something. Afterwards
  the presented token is marked used and one live token is added, with the same family, account, client
  and sign-in time, expiring no later than the session's end. When the grant refuses, whatever the reason,
  no refresh token is added.
\<close>

theorem refresh_grant_sound:
  assumes "wf_tokens st" "tk_store t = sqliteTokenStore" "\<forall>row\<in>set (refresh_tokens st). rt_FamilyID (rr_data row) \<noteq> []"
    "refreshTokenGrant t env form hdr sg st = (res, sg', st')"
  shows "case res of
      Inl e \<Rightarrow> rr_token_hash ` set (refresh_tokens st') = rr_token_hash ` set (refresh_tokens st)
    | Inr out \<Rightarrow> \<exists>c old used fresh granted jti sg1.
        clientOK t (fst (clientCredentials form hdr)) (snd (clientCredentials form hdr)) grantRefreshToken c \<and>
        old \<in> set (refresh_tokens st) \<and> rr_token_hash old = Hash (Get form ''refresh_token'') \<and> rr_consumed_at old = None \<and> rr_revoked_at old = None \<and>
        rt_ClientID (rr_data old) = fst (clientCredentials form hdr) \<and> refreshOK t (ev_clk env 0) (rr_data old) \<and>
        permitted (tk_authorizer t) (rt_Email (rr_data old)) = Inr (granted, True) \<and>
        Mint (tk_jwx t) sg (ev_jti env) (\<lambda>k. ev_clk env (2 + k)) (accessRequest t (refreshIdentity (rr_data old)) (rt_ClientID (rr_data old)) granted)
          = (Inr (to_AccessToken out, jti), sg1) \<and>
        used \<in> set (refresh_tokens st') \<and> rr_token_hash used = rr_token_hash old \<and> rr_consumed_at used \<noteq> None \<and>
        rr_token_hash ` set (refresh_tokens st') = insert (Hash (to_RefreshToken out)) (rr_token_hash ` set (refresh_tokens st)) \<and>
        fresh \<in> set (refresh_tokens st') \<and> rr_token_hash fresh = Hash (to_RefreshToken out) \<and> rr_consumed_at fresh = None \<and> rr_revoked_at fresh = None \<and>
        rr_data fresh = issuedRefresh t (ev_clk env 1) (refreshIdentity (rr_data old)) (rt_ClientID (rr_data old))
          \<lparr>li_familyID = rt_FamilyID (rr_data old), li_authTime = rt_AuthTime (rr_data old)\<rparr> jti [] \<and>
        rt_ExpiresAt (rr_data fresh) \<le> rt_AuthTime (rr_data old) + tk_refreshMaxLifetime t"
proof (cases res)
  case (Inl e)
  then show ?thesis using sqlite.refreshGrant_refused_dom[OF assms(1,2) assms(4)[unfolded Inl]] unfolding hashes_dom by simp
next
  case (Inr out)
  have ne: "\<forall>x\<in>ran (a_refresh (abs_tokens st)). rt_FamilyID (ab_data x) \<noteq> []"
    using assms(3) allRows_rows[OF assms(1), of "\<lambda>r. rt_FamilyID r \<noteq> []"] by (auto simp: allRows_def ran_def simp del: abs_tokens_lookup)
  let ?h = "Hash (Get form ''refresh_token'')" and ?h' = "Hash (to_RefreshToken out)"
  obtain c x granted jti sg1 where a: "clientOK t (fst (clientCredentials form hdr)) (snd (clientCredentials form hdr)) grantRefreshToken c"
    "a_refresh (abs_tokens st) ?h = Some x" "\<not> ab_consumed x" "\<not> ab_revoked x"
    "rt_ClientID (ab_data x) = fst (clientCredentials form hdr)" "refreshOK t (ev_clk env 0) (ab_data x)"
    "permitted (tk_authorizer t) (rt_Email (ab_data x)) = Inr (granted, True)"
    "Mint (tk_jwx t) sg (ev_jti env) (\<lambda>k. ev_clk env (2 + k)) (accessRequest t (refreshIdentity (ab_data x)) (rt_ClientID (ab_data x)) granted)
       = (Inr (to_AccessToken out, jti), sg1)"
    and n: "a_refresh (abs_tokens st) ?h' = None"
    and b: "a_refresh (abs_tokens st') = (a_refresh (abs_tokens st))(?h \<mapsto> x\<lparr>ab_consumed := True\<rparr>, ?h' \<mapsto>
       freshRow (issuedRefresh t (ev_clk env 1) (refreshIdentity (ab_data x)) (rt_ClientID (ab_data x))
         \<lparr>li_familyID = rt_FamilyID (ab_data x), li_authTime = rt_AuthTime (ab_data x)\<rparr> jti (to_RefreshToken out)))"
    and wf: "wf_tokens st'"
    by (rule sqlite.refreshGrant_sound[OF assms(1,2) assms(4)[unfolded Inr] ne])
  obtain old where old: "old \<in> set (refresh_tokens st)" "rr_token_hash old = ?h" "x = abs_refresh old"
    using a(2) refresh_row[OF assms(1)] by blast
  have "?h \<noteq> ?h'" using a(2) n by (intro notI) (simp del: abs_tokens_lookup)
  then have "a_refresh (abs_tokens st') ?h = Some (x\<lparr>ab_consumed := True\<rparr>)" unfolding b by simp
  then obtain used where used: "used \<in> set (refresh_tokens st')" "rr_token_hash used = ?h" "abs_refresh used = x\<lparr>ab_consumed := True\<rparr>"
    unfolding refresh_row[OF wf] by metis
  then have used': "rr_consumed_at used \<noteq> None" using abs_refresh_simps(2)[of used] by simp
  have "a_refresh (abs_tokens st') ?h' = Some (freshRow (issuedRefresh t (ev_clk env 1) (refreshIdentity (ab_data x)) (rt_ClientID (ab_data x))
         \<lparr>li_familyID = rt_FamilyID (ab_data x), li_authTime = rt_AuthTime (ab_data x)\<rparr> jti (to_RefreshToken out)))"
    by (simp only: b fun_upd_same)
  from fresh_row[OF wf this] obtain fresh where fresh: "fresh \<in> set (refresh_tokens st')" "rr_token_hash fresh = ?h'"
    "rr_consumed_at fresh = None" "rr_revoked_at fresh = None"
    "rr_data fresh = issuedRefresh t (ev_clk env 1) (refreshIdentity (rr_data old)) (rt_ClientID (rr_data old))
         \<lparr>li_familyID = rt_FamilyID (rr_data old), li_authTime = rt_AuthTime (rr_data old)\<rparr> jti []"
    by (auto simp: issuedRefresh_def old(3))
  then have "rt_ExpiresAt (rr_data fresh) \<le> rt_AuthTime (rr_data old) + tk_refreshMaxLifetime t" by (simp add: issuedRefresh_def issueExpiry_def Let_def)
  moreover have "rr_token_hash ` set (refresh_tokens st') = insert ?h' (rr_token_hash ` set (refresh_tokens st))"
    unfolding hashes_dom b using a(2) by (auto simp: dom_def)
  ultimately show ?thesis
    unfolding Inr sum.case
    by (intro exI[of _ c] exI[of _ old] exI[of _ used] exI[of _ fresh] exI[of _ granted] exI[of _ jti] exI[of _ sg1] conjI)
       (use a old used used' fresh in simp_all)
qed

theorem refresh_grant_sound_witness:
  "rr_token_hash ` set (refresh_tokens (snd (snd (refreshTokenGrant sampleToken (sampleEnv (Hour + 10 * DefaultRefreshTokenTTL) ''t'')
      (sampleForm grantRefreshToken ''refresh_token'' ''r'') [] sampleSigner (sampleStore None [None]))))) = {Hash ''r''}"
proof -
  let ?g = "refreshTokenGrant sampleToken (sampleEnv (Hour + 10 * DefaultRefreshTokenTTL) ''t'') (sampleForm grantRefreshToken ''refresh_token'' ''r'') [] sampleSigner (sampleStore None [None])"
  have "fst ?g = Inl (OAuthErr 400 invalid_grant ''refresh token expired'')"
    by (simp add: refreshTokenGrant_def Let_def ConsumeRefresh_def sampleStore_def scanRefresh_def sampleRefresh_def
        DefaultRefreshTokenTTL_def Hour_def Minute_def Second_def)
  moreover obtain res sg' st' where g: "?g = (res, sg', st')" by (metis prod_cases3)
  ultimately have res: "res = Inl (OAuthErr 400 invalid_grant ''refresh token expired'')" by simp
  have ne: "\<forall>row\<in>set (refresh_tokens (sampleStore None [None])). rt_FamilyID (rr_data row) \<noteq> []"
    by (simp add: sampleStore_def sampleRefresh_def)
  have h: "rr_token_hash ` set (refresh_tokens (sampleStore None [None])) = {Hash ''r''}" by (simp add: sampleStore_def)
  from refresh_grant_sound[OF sample_wf(1) sample_config(1) ne g] show ?thesis unfolding res sum.case g snd_conv h .
qed

end
