(* ===== verification/Token_Sessions.thy ===== *)
theory Token_Sessions
  imports Token_Endpoint
begin

text \<open>
  Sessions at the token endpoint, over the SQLite store: every credential is accepted once, reuse of a
  refresh token or of a code ends the session for good, a session ends at its maximum lifetime, a device
  code yields tokens only for the approved account, and a request whose client does not authenticate
  changes nothing.
\<close>

section \<open>Reuse\<close>

lemma revokeFamily_sqlite:
  assumes "wf_tokens st" "tk_store t = sqliteTokenStore" "row \<in> set (refresh_tokens st)"
  shows "\<exists>st'. revokeFamily t (rt_FamilyID (rr_data row)) now st = (None, st') \<and> wf_tokens st' \<and> fam_dead (abs_tokens st') (rt_FamilyID (rr_data row))"
proof -
  let ?F = "rt_FamilyID (rr_data row)"
  obtain res st' where r: "RevokeRefreshFamily st ?F now = (res, st')" by fastforce
  have "a_family (abs_tokens st) ?F \<noteq> {}" using abs_family_empty[OF assms(1)] assms(3) by blast
  then obtain n where "res = Inr n" using RevokeRefreshFamily_refines[OF assms(1) r] by (auto simp: spec_RevokeRefreshFamily_def)
  then have "revokeFamily t ?F now st = (None, st')" using r assms(2) by (simp add: revokeFamily_def)
  then show ?thesis using sqlite.revokeFamily_dead[OF assms(1,2)] by blast
qed

lemma ConsumeRefresh_reused:
  assumes "wf_tokens st" "row \<in> set (refresh_tokens st)" "rr_token_hash row = Hash tok" "rr_consumed_at row \<noteq> None" "rt_ClientID (rr_data row) = cid"
  shows "ConsumeRefresh st tok cid now = (Reused ((rr_data row)\<lparr>rt_Token := tok\<rparr>), st)"
proof -
  have d: "distinct (map rr_token_hash (refresh_tokens st))" using assms(1) by (simp add: wf_tokens_def)
  have "find (\<lambda>r. rr_token_hash r = Hash tok) (refresh_tokens st) = Some row" using assms(2,3) by (simp add: find_key_Some_iff[OF d])
  then show ?thesis using assms(4,5) by (simp add: ConsumeRefresh_def Let_def find_key_and[OF d] scanRefresh_def)
qed

lemma ConsumeAuthCode_reused:
  assumes "wf_tokens st" "row \<in> set (auth_codes st)" "acr_code_hash row = Hash code" "acr_consumed_at row \<noteq> None"
  shows "ConsumeAuthCode st code fam now = (Reused (tombstoneCode code (acr_data row)), st)"
proof -
  have d: "distinct (map acr_code_hash (auth_codes st))" using assms(1) by (simp add: wf_tokens_def)
  have "find (\<lambda>r. acr_code_hash r = Hash code) (auth_codes st) = Some row" using assms(2,3) by (simp add: find_key_Some_iff[OF d])
  then show ?thesis using assms(4) by (simp add: ConsumeAuthCode_def Let_def find_key_and[OF d])
qed

text \<open>A dead family stays dead under any later requests.\<close>

lemma serve_dead:
  assumes "wf_tokens st" "wf_devices st" "tk_store t = sqliteTokenStore" "tk_devices t \<in> {None, Some sqliteDeviceStore}" "fam_dead (abs_tokens st) F"
    "serve t qs sg st = (rs, sg', st')"
  shows "familyRevoked st' F"
  using sqlite_oidc.serve_keeps[OF assms(3,4,1,2,6)] fam_dead_advances[OF _ assms(5)] fam_dead_rows by blast

section \<open>Device codes\<close>

context oidc_store
begin

lemma deviceGrant_sound:
  assumes "inv st" "dinv st" "tk_store t = ops" "tk_devices t = Some dops" "deviceCodeGrant t env form hdr sg st = (Inr out, sg', st')" "ev_family env \<noteq> Some []"
  obtains c d fam granted jti where
    "clientOK t (fst (clientCredentials form hdr)) (snd (clientCredentials form hdr)) grantDeviceCode c"
    "dabs st (Hash (Get form ''device_code'')) = Some d" "dc_ClientID d = fst (clientCredentials form hdr)" "ev_clk env 0 \<le> dc_ExpiresAt d"
    "dc_DeniedAt d = None" "dc_ApprovedAt d \<noteq> None" "\<not> tooFast (dc_LastPolledAt d) (dc_IntervalSeconds d) (ev_clk env 0)" "dc_Subject d \<noteq> []"
    "permitted (tk_authorizer t) (dc_Email d) = Inr (granted, True)" "randomFamilyID (ev_family env) = Some fam"
    "a_refresh (abs st') = (a_refresh (abs st))(Hash (to_RefreshToken out) \<mapsto> freshRow (issuedRefresh t (ev_clk env 1) (deviceIdentity d) (dc_ClientID d)
       \<lparr>li_familyID = fam, li_authTime = ev_clk env 1\<rparr> jti (to_RefreshToken out)))"
    "dabs st' (Hash (Get form ''device_code'')) = None" "inv st'" "dinv st'"
proof -
  let ?c = "Get form ''device_code''" and ?now = "ev_clk env 0"
  obtain dev c dc st1 st2 dfin where dev0: "tk_devices t = Some dev" and c: "clientOK t (fst (clientCredentials form hdr)) (snd (clientCredentials form hdr)) grantDeviceCode c"
    and g0: "ds_LookupDeviceCodeByDeviceCode dev st ?c = Inr dc" "ds_PollDeviceCode dev st ?c ?now = (Inr False, st1)" "ds_ConsumeDeviceCode dev st1 ?c = (Inr dfin, st2)"
    and dc: "dc_ClientID dc = fst (clientCredentials form hdr)" "?now \<le> dc_ExpiresAt dc" "dc_DeniedAt dc = None" "dc_ApprovedAt dc \<noteq> None" "dc_Subject dfin \<noteq> []"
    and i: "issue t env 1 (deviceIdentity dfin) (dc_ClientID dfin) [] \<lparr>li_familyID = [], li_authTime = zeroTime\<rparr> sg st2 = (Inr out, sg', st')"
    by (rule deviceGrant_ok_cases[OF assms(5) prod.collapse[symmetric]])
  have dev: "dev = dops" using dev0 assms(4) by simp
  note g = g0[unfolded dev]
  obtain d where d: "dabs st (Hash ?c) = Some d" "dc = d\<lparr>dc_Code := ?c\<rparr>"
    using lookup[OF assms(2), of ?c] g(1) by (auto simp: spec_LookupDeviceCode_def split: option.splits)
  have p: "dinv st1" "dabs st1 = (dabs st)(Hash ?c \<mapsto> polled ?now d)" "\<not> tooFast (dc_LastPolledAt d) (dc_IntervalSeconds d) ?now"
    using poll[OF assms(2) g(2)] d(1) by (auto simp: spec_PollDeviceCode_def split: option.splits)
  have q: "dinv st2" "dfin = (polled ?now d)\<lparr>dc_Code := ?c\<rparr>"
    using consume[OF p(1) g(3)] p(2) by (auto simp: spec_ConsumeDeviceCode_def split: option.splits)
  have f: "inv st2" "abs st2 = abs st"
    using poll_frame[of st ?c ?now] consume_frame[of st1 ?c] assms(1) g(2,3) by auto
  have ident: "deviceIdentity dfin = deviceIdentity d" "dc_ClientID dfin = dc_ClientID d" "dc_Subject dfin = dc_Subject d" "id_Email (deviceIdentity d) = dc_Email d"
    by (simp_all add: q(2) polled_def deviceIdentity_def)
  obtain fam granted jti where j: "permitted (tk_authorizer t) (dc_Email d) = Inr (granted, True)" "randomFamilyID (ev_family env) = Some fam"
    "abs st' = (abs st)\<lparr>a_refresh := (a_refresh (abs st))(Hash (to_RefreshToken out) \<mapsto> freshRow (issuedRefresh t (ev_clk env 1) (deviceIdentity d) (dc_ClientID d)
       \<lparr>li_familyID = fam, li_authTime = ev_clk env 1\<rparr> jti (to_RefreshToken out)))\<rparr>"
    using issue_saved[OF f(1) assms(3) i] unfolding ident f(2) by (auto simp: Let_def)
  have "inv st'" "dinv st'" "dabs st' (Hash ?c) = None"
    using issue_advances[OF f(1) assms(3) i] issue_devices[OF assms(3) i] q(1) deviceGrant_spends[OF assms(1-3) _ assms(5)] assms(4) by auto
  then show thesis
    using that[of c d granted fam jti] c d dc p(3) ident j by simp
qed

end

section \<open>Properties\<close>

text \<open>
  C1. Every credential is accepted at most once. Over any sequence of token requests against the SQLite
  store, an authorization code, a refresh token and a device code are each exchanged for tokens at most
  once, whichever clients present them and whatever else is requested in between.
\<close>

theorem credentials_single_use:
  assumes "wf_tokens st" "wf_devices st" "tk_store t = sqliteTokenStore" "tk_devices t \<in> {None, Some sqliteDeviceStore}"
  shows "accepted (presents grantAuthorizationCode ''code'' code) qs (fst (serve t qs sg st)) \<le> 1 \<and>
    accepted (presents grantRefreshToken ''refresh_token'' token) qs (fst (serve t qs sg st)) \<le> 1 \<and>
    accepted (presents grantDeviceCode ''device_code'' dcode) qs (fst (serve t qs sg st)) \<le> 1"
  by (rule sqlite_oidc.serve_single_use[OF assms])

theorem credentials_single_use_witness:
  "let q = \<lparr>tr_env = sampleEnv (Hour + Second) ''t'', tr_form = sampleForm grantAuthorizationCode ''code'' ''c'', tr_auth = []\<rparr> in
   accepted (presents grantAuthorizationCode ''code'' ''c'') [q, q] (fst (serve sampleToken [q, q] sampleSigner (sampleStore None []))) \<le> 1"
  unfolding Let_def by (rule credentials_single_use[THEN conjunct1]) simp_all

text \<open>
  C2. Reuse of a refresh token ends its session. A client that authenticates and presents a token of its
  own that was already used is refused with invalid_grant, every token of that family is then revoked, and
  after any further requests it still is: no token of the family is ever live again.
\<close>

theorem refresh_reuse_revokes:
  assumes "wf_tokens st" "wf_devices st" "tk_store t = sqliteTokenStore" "tk_devices t \<in> {None, Some sqliteDeviceStore}"
    "clientCredentials form hdr = (cid, secret)" "clientOK t cid secret grantRefreshToken c" "Get form ''refresh_token'' \<noteq> []"
    "row \<in> set (refresh_tokens st)" "rr_token_hash row = Hash (Get form ''refresh_token'')" "rr_consumed_at row \<noteq> None" "rt_ClientID (rr_data row) = cid"
  shows "\<exists>st1. refreshTokenGrant t env form hdr sg st = (Inl (OAuthErr 400 invalid_grant ''refresh token already used; the session has been revoked''), sg, st1) \<and>
    familyRevoked st1 (rt_FamilyID (rr_data row)) \<and>
    (\<forall>qs sg0. familyRevoked (snd (snd (serve t qs sg0 st1))) (rt_FamilyID (rr_data row)))"
proof -
  let ?F = "rt_FamilyID (rr_data row)"
  obtain st1 where st1: "revokeFamily t ?F (ev_clk env 0) st = (None, st1)" "wf_tokens st1" "fam_dead (abs_tokens st1) ?F"
    using revokeFamily_sqlite[OF assms(1,3,8)] by blast
  have "refreshTokenGrant t env form hdr sg st = (Inl (OAuthErr 400 invalid_grant ''refresh token already used; the session has been revoked''), sg, st1)"
    using assms(3,5,6,7) st1(1) ConsumeRefresh_reused[OF assms(1,8-11)]
    by (simp add: refreshTokenGrant_def Let_def revokeAndRefuse_def flip: authenticateClient_iff)
  moreover have "wf_devices st1" using sqlite_oidc.revokeFamily_devices[OF assms(3) st1(1)] assms(2) by simp
  ultimately show ?thesis
    using serve_dead[OF st1(2) _ assms(3,4) st1(3)] fam_dead_rows[OF st1(2)] st1(3) by (metis prod.collapse)
qed

theorem refresh_reuse_revokes_witness:
  "\<exists>st1. refreshTokenGrant sampleToken (sampleEnv (Hour + Second) ''t'') (sampleForm grantRefreshToken ''refresh_token'' ''r'') [] sampleSigner (sampleStore None [Some Hour])
     = (Inl (OAuthErr 400 invalid_grant ''refresh token already used; the session has been revoked''), sampleSigner, st1) \<and> familyRevoked st1 ''46''"
proof -
  have row: "\<lparr>rr_token_hash = Hash ''r'', rr_data = sampleRefresh, rr_consumed_at = Some Hour, rr_revoked_at = None\<rparr> \<in> set (refresh_tokens (sampleStore None [Some Hour]))"
    by (simp add: sampleStore_def)
  from refresh_reuse_revokes[OF sample_wf sample_config(1) _ _ _ _ row, of "sampleForm grantRefreshToken ''refresh_token'' ''r''" "[]" "''ui''" "''s3cret''" sampleClient
      "sampleEnv (Hour + Second) ''t''" sampleSigner] show ?thesis
    by (auto simp: sampleRefresh_def authenticateClient_iff[symmetric])
qed

text \<open>
  C11. Replay of an authorization code ends the session it started. Once the first redemption's refresh
  token is stored, any later presentation of the code by a client that authenticates and passes the
  request checks is refused with invalid_grant, every token of the family the code started is revoked, and
  after any further requests it still is.
\<close>

theorem code_replay_revokes:
  assumes "wf_tokens st" "wf_devices st" "tk_store t = sqliteTokenStore" "tk_devices t \<in> {None, Some sqliteDeviceStore}"
    "row \<in> set (auth_codes st)" "acr_code_hash row = Hash (Get form ''code'')" "acr_consumed_at row \<noteq> None"
    "issued \<in> set (refresh_tokens st)" "ac_FamilyID (acr_data row) = rt_FamilyID (rr_data issued)" "rt_FamilyID (rr_data issued) \<noteq> []"
    "Get form ''code'' \<noteq> []" "clientCredentials form hdr = (cid, secret)" "clientOK t cid secret grantAuthorizationCode c"
    "ci_Secret c = [] \<longrightarrow> Get form ''code_verifier'' \<noteq> []" "Get form ''code_verifier'' = [] \<or> validCodeVerifier (Get form ''code_verifier'')" "ev_family env \<noteq> None"
  shows "\<exists>st1. authorizationCodeGrant t env form hdr sg st = (Inl (OAuthErr 400 invalid_grant ''unknown or already-redeemed authorization code''), sg, st1) \<and>
    familyRevoked st1 (ac_FamilyID (acr_data row)) \<and> (\<forall>qs sg0. familyRevoked (snd (snd (serve t qs sg0 st1))) (ac_FamilyID (acr_data row)))"
proof -
  obtain st1 where st1: "revokeFamily t (rt_FamilyID (rr_data issued)) (ev_clk env 0) st = (None, st1)" "wf_tokens st1" "fam_dead (abs_tokens st1) (rt_FamilyID (rr_data issued))"
    using revokeFamily_sqlite[OF assms(1,3,8)] by blast
  obtain fam where fam: "randomFamilyID (ev_family env) = Some fam" using assms(16) by (auto simp: randomFamilyID_def)
  have a: "authenticateClient t cid secret grantAuthorizationCode = Inr c" using assms(13) by (simp add: authenticateClient_iff)
  have tomb: "ac_FamilyID (tombstoneCode k ac) = ac_FamilyID ac" for k ac by (simp add: tombstoneCode_def)
  have "RedeemAuthorizationCode t (ev_family env) (ev_clk env 0) (codeRequest form hdr) st = (Inl (OAuthErr 400 invalid_grant ''unknown or already-redeemed authorization code''), st1)"
    using assms(3,9-12,14,15) st1(1) ConsumeAuthCode_reused[OF assms(1,5-7), of fam] fam a tomb by (auto simp: RedeemAuthorizationCode_def)
  then have "authorizationCodeGrant t env form hdr sg st = (Inl (OAuthErr 400 invalid_grant ''unknown or already-redeemed authorization code''), sg, st1)"
    by (simp add: authorizationCodeGrant_def)
  moreover have "wf_devices st1" using sqlite_oidc.revokeFamily_devices[OF assms(3) st1(1)] assms(2) by simp
  ultimately show ?thesis
    using serve_dead[OF st1(2) _ assms(3,4) st1(3)] fam_dead_rows[OF st1(2)] st1(3) assms(9) by (metis prod.collapse)
qed

theorem code_replay_revokes_witness:
  "\<exists>st1. authorizationCodeGrant sampleToken (sampleEnv (Hour + Second) ''t'') (sampleForm grantAuthorizationCode ''code'' ''c'') [] sampleSigner (sampleStore (Some Hour) [None])
     = (Inl (OAuthErr 400 invalid_grant ''unknown or already-redeemed authorization code''), sampleSigner, st1) \<and> familyRevoked st1 ''46''"
proof -
  have rows: "\<lparr>acr_code_hash = Hash ''c'', acr_data = sampleCode\<lparr>ac_FamilyID := ''46''\<rparr>, acr_consumed_at = Some Hour\<rparr> \<in> set (auth_codes (sampleStore (Some Hour) [None]))"
    "\<lparr>rr_token_hash = Hash ''r'', rr_data = sampleRefresh, rr_consumed_at = None, rr_revoked_at = None\<rparr> \<in> set (refresh_tokens (sampleStore (Some Hour) [None]))"
    by (simp_all add: sampleStore_def)
  from code_replay_revokes[OF sample_wf sample_config(1) _ rows(1) _ _ rows(2), of "sampleForm grantAuthorizationCode ''code'' ''c''" "[]" "''ui''" "''s3cret''" sampleClient
      "sampleEnv (Hour + Second) ''t''" sampleSigner] show ?thesis
    by (auto simp: sampleRefresh_def authenticateClient_iff[symmetric])
qed

text \<open>
  C40. A replay that overtakes the first redemption leaves it untouched. Between the first redemption's
  consumption of the code and the storing of its refresh token, a second presentation of the code finds no
  row of the family to revoke: it is answered with a server error instead of invalid_grant and changes
  nothing in the store, so the first redemption then goes on to store its refresh token as if the code had
  not been replayed.
\<close>

theorem replay_before_refresh:
  assumes "wf_tokens st" "tk_store t = sqliteTokenStore" "RedeemAuthorizationCode t rnd now req st = (Inr r, st1)" "rnd \<noteq> Some []"
    "\<forall>row\<in>set (refresh_tokens st). rt_FamilyID (rr_data row) \<noteq> rd_FamilyID r" "rnd' \<noteq> None"
  shows "RedeemAuthorizationCode t rnd' now' req st1 = (Inl (ServerErr ''oidc: revoke refresh token family''), st1)"
proof -
  obtain c fam ac where c: "clientOK t (rq_ClientID req) (rq_ClientSecret req) grantAuthorizationCode c" "randomFamilyID rnd = Some fam"
    "ConsumeAuthCode st (rq_Code req) fam now = (Live ac, st1)" "rd_FamilyID r = fam"
    by (rule redeem_ok_cases[OF assms(3)]) (simp add: assms(2))
  have wf: "wf_tokens st1" using ConsumeAuthCode_refines[OF assms(1) c(3)] by blast
  have same: "refresh_tokens st1 = refresh_tokens st" using c(3) by (auto simp: ConsumeAuthCode_def Let_def split: option.splits)
  obtain x :: AbsCode where "abs_tokens st1 = (abs_tokens st)\<lparr>a_codes := (a_codes (abs_tokens st))(Hash (rq_Code req) \<mapsto> \<lparr>acd_data = (acd_data x)\<lparr>ac_FamilyID := fam\<rparr>, acd_consumed = True\<rparr>)\<rparr>"
    by (rule sqlite.consume_live[OF assms(1), of "rq_Code req" fam now ac st1]) (simp_all add: c(3))
  then have "a_codes (abs_tokens st1) (Hash (rq_Code req)) = Some \<lparr>acd_data = (acd_data x)\<lparr>ac_FamilyID := fam\<rparr>, acd_consumed = True\<rparr>"
    by (simp del: abs_tokens_lookup)
  then obtain row where row: "row \<in> set (auth_codes st1)" "acr_code_hash row = Hash (rq_Code req)" "abs_code row = \<lparr>acd_data = (acd_data x)\<lparr>ac_FamilyID := fam\<rparr>, acd_consumed = True\<rparr>"
    unfolding code_row[OF wf] by metis
  then have row': "acr_consumed_at row \<noteq> None" "ac_FamilyID (acr_data row) = fam" by (auto simp: abs_code_def)
  have fam: "fam \<noteq> []" using randomFamilyID_Some[OF c(2) assms(4)] .
  obtain fam' where fam': "randomFamilyID rnd' = Some fam'" using assms(6) by (auto simp: randomFamilyID_def)
  have none: "\<forall>row\<in>set (refresh_tokens st1). rt_FamilyID (rr_data row) \<noteq> fam" using assms(5) same c(4) by simp
  then have "RevokeRefreshFamily st1 fam now' = (Inl ErrSessionNotFound, st1)"
    by (auto simp: RevokeRefreshFamily_def revokeRefresh_def Let_def update_where_none count_where_def)
  then have "revokeFamily t fam now' st1 = (Some (ServerErr ''oidc: revoke refresh token family''), st1)" using assms(2) by (simp add: revokeFamily_def)
  moreover have "ac_FamilyID (tombstoneCode k ac) = ac_FamilyID ac" for k ac by (simp add: tombstoneCode_def)
  moreover have "rq_Code req \<noteq> []" "ci_Secret c = [] \<longrightarrow> rq_CodeVerifier req \<noteq> []" "rq_CodeVerifier req = [] \<or> validCodeVerifier (rq_CodeVerifier req)"
    using assms(3) c(1)[folded authenticateClient_iff] by (auto simp: RedeemAuthorizationCode_def split: if_splits)
  ultimately show ?thesis
    using c(1)[folded authenticateClient_iff] ConsumeAuthCode_reused[OF wf row(1,2) row'(1), of fam' now'] row'(2) fam fam' assms(2)
    by (auto simp: RedeemAuthorizationCode_def)
qed

theorem replay_before_refresh_witness:
  "\<exists>r st1. RedeemAuthorizationCode sampleToken (Some ''F'') (Hour + Second) (codeRequest (sampleForm grantAuthorizationCode ''code'' ''c'') []) (sampleStore None []) = (Inr r, st1) \<and>
     RedeemAuthorizationCode sampleToken (Some ''G'') (Hour + Second) (codeRequest (sampleForm grantAuthorizationCode ''code'' ''c'') []) st1
       = (Inl (ServerErr ''oidc: revoke refresh token family''), st1)"
proof -
  obtain r st1 where r: "RedeemAuthorizationCode sampleToken (Some ''F'') (Hour + Second) (codeRequest (sampleForm grantAuthorizationCode ''code'' ''c'') []) (sampleStore None []) = (Inr r, st1)"
    using sample_redeem by blast
  have "refresh_tokens (sampleStore None []) = []" by (simp add: sampleStore_def)
  then show ?thesis using r replay_before_refresh[OF sample_wf(1) sample_config(1) r, of "Some ''G''" "Hour + Second"] by auto
qed

text \<open>
  C31. A request whose client does not authenticate changes nothing. If the client it names is unknown,
  fails to prove its secret or is not allowed the requested grant, every grant answers with an OAuth2 error
  and leaves store and signer as they were, so a failed or cross-client attempt never burns a code, a
  refresh token or a device code.
\<close>

theorem unauthenticated_no_effect:
  fixes t :: "('st, 'key, 'pub, 'set, 'tok) Token"
  assumes "clientCredentials form hdr = (cid, secret)"
    "g \<in> {grantAuthorizationCode, grantRefreshToken, grantDeviceCode}" "Get form ''grant_type'' = g" "\<nexists>c. clientOK t cid secret g c"
  shows "\<exists>status code desc. dispatch t env form hdr sg st = (Inl (OAuthErr status code desc), sg, st)"
proof -
  obtain e where e: "authenticateClient t cid secret g = Inl e" using assms(4) by (cases "authenticateClient t cid secret g") (auto simp: authenticateClient_iff)
  then obtain status code desc where e': "e = OAuthErr status code desc" by (auto simp: authenticateClient_def split: option.splits if_splits)
  have p: "checkParamLengths caps = Some e \<Longrightarrow> \<exists>status code desc. e = OAuthErr status code desc" for caps e
    by (induction caps rule: checkParamLengths.induct) (auto split: if_splits simp del: digits.simps)
  define P where "P r = (\<exists>status code desc. r = (Inl (OAuthErr status code desc), sg, st))" for r :: "(HandlerError + 'tok tokenOutput) \<times> 'key Signer \<times> 'st"
  have "P (authorizationCodeGrant t env form hdr sg st)" if "g = grantAuthorizationCode"
    using e e' assms(1) that by (simp add: P_def authorizationCodeGrant_def RedeemAuthorizationCode_def)
  moreover have "P (refreshTokenGrant t env form hdr sg st)" if "g = grantRefreshToken"
    using e e' assms(1) that by (simp add: P_def refreshTokenGrant_def Let_def)
  moreover have "P (deviceCodeGrant t env form hdr sg st)" if "g = grantDeviceCode"
    using e e' assms(1) that by (cases "tk_devices t") (simp_all add: P_def deviceCodeGrant_def Let_def)
  moreover have "P (Inl e, sg, st)" if "checkParamLengths caps = Some e" for caps e
    using p[OF that] by (auto simp: P_def)
  ultimately have "P (dispatch t env form hdr sg st)"
    using assms(2) unfolding dispatch_def assms(3) by (auto split: option.split simp del: checkParamLengths.simps)
  then show ?thesis by (simp add: P_def)
qed

theorem unauthenticated_no_effect_witness:
  "\<exists>status code desc. dispatch sampleToken (sampleEnv (Hour + Second) ''t'') [(''grant_type'', grantAuthorizationCode), (''code'', ''c''), (''client_id'', ''other'')] [] sampleSigner (sampleStore None [])
     = (Inl (OAuthErr status code desc), sampleSigner, sampleStore None [])"
proof (rule unauthenticated_no_effect)
  show "clientCredentials [(''grant_type'', grantAuthorizationCode), (''code'', ''c''), (''client_id'', ''other'')] [] = (''other'', [])"
    by (simp add: clientCredentials_def parseBasicAuth_def hasBasicScheme_def Get_def)
  show "\<nexists>c. clientOK sampleToken ''other'' [] grantAuthorizationCode c" by (simp add: clientOK_def Lookup_def sampleToken_def NewToken_def)
qed (simp_all add: Get_def)

text \<open>
  C12. What a redeemed device code proves. When the device grant answers with tokens over the SQLite store,
  the client authenticated for it and is the one the code was issued to; the code was stored, unexpired,
  approved and not denied, and was not polled faster than its interval. The code is gone afterwards, and
  the live refresh token added belongs to the account that approved it, in a fresh family whose session
  starts now.
\<close>

theorem device_grant_sound:
  assumes "wf_tokens st" "wf_devices st" "tk_store t = sqliteTokenStore" "tk_devices t = Some sqliteDeviceStore"
    "deviceCodeGrant t env form hdr sg st = (Inr out, sg', st')" "ev_family env \<noteq> Some []"
  shows "\<exists>c row fresh fam granted jti. clientOK t (fst (clientCredentials form hdr)) (snd (clientCredentials form hdr)) grantDeviceCode c \<and>
    row \<in> set (device_codes st) \<and> dr_device_code_hash row = Hash (Get form ''device_code'') \<and> dc_ClientID (dr_data row) = fst (clientCredentials form hdr) \<and>
    ev_clk env 0 \<le> dc_ExpiresAt (dr_data row) \<and> dc_DeniedAt (dr_data row) = None \<and> dc_ApprovedAt (dr_data row) \<noteq> None \<and> dc_Subject (dr_data row) \<noteq> [] \<and>
    \<not> tooFast (dc_LastPolledAt (dr_data row)) (dc_IntervalSeconds (dr_data row)) (ev_clk env 0) \<and>
    permitted (tk_authorizer t) (dc_Email (dr_data row)) = Inr (granted, True) \<and>
    Hash (Get form ''device_code'') \<notin> dr_device_code_hash ` set (device_codes st') \<and>
    fresh \<in> set (refresh_tokens st') \<and> rr_token_hash fresh = Hash (to_RefreshToken out) \<and> rr_consumed_at fresh = None \<and> rr_revoked_at fresh = None \<and>
    randomFamilyID (ev_family env) = Some fam \<and>
    rr_data fresh = issuedRefresh t (ev_clk env 1) (deviceIdentity (dr_data row)) (dc_ClientID (dr_data row)) \<lparr>li_familyID = fam, li_authTime = ev_clk env 1\<rparr> jti []"
proof -
  let ?h = "Hash (Get form ''device_code'')"
  obtain c d fam granted jti where a: "clientOK t (fst (clientCredentials form hdr)) (snd (clientCredentials form hdr)) grantDeviceCode c"
    "abs_devices st ?h = Some d" "dc_ClientID d = fst (clientCredentials form hdr)" "ev_clk env 0 \<le> dc_ExpiresAt d"
    "dc_DeniedAt d = None" "dc_ApprovedAt d \<noteq> None" "\<not> tooFast (dc_LastPolledAt d) (dc_IntervalSeconds d) (ev_clk env 0)" "dc_Subject d \<noteq> []"
    "permitted (tk_authorizer t) (dc_Email d) = Inr (granted, True)" "randomFamilyID (ev_family env) = Some fam"
    and b: "a_refresh (abs_tokens st') = (a_refresh (abs_tokens st))(Hash (to_RefreshToken out) \<mapsto> freshRow (issuedRefresh t (ev_clk env 1) (deviceIdentity d) (dc_ClientID d)
       \<lparr>li_familyID = fam, li_authTime = ev_clk env 1\<rparr> jti (to_RefreshToken out)))"
    and e: "abs_devices st' ?h = None" "wf_tokens st'" "wf_devices st'"
    by (rule sqlite_oidc.deviceGrant_sound[OF assms])
  obtain row where row: "row \<in> set (device_codes st)" "dr_device_code_hash row = ?h" "dr_data row = d" using a(2) abs_devices_Some[OF assms(2)] by blast
  have "a_refresh (abs_tokens st') (Hash (to_RefreshToken out)) = Some (freshRow (issuedRefresh t (ev_clk env 1) (deviceIdentity d) (dc_ClientID d)
       \<lparr>li_familyID = fam, li_authTime = ev_clk env 1\<rparr> jti (to_RefreshToken out)))" unfolding b by simp
  from fresh_row[OF e(2) this] obtain fresh where fresh: "fresh \<in> set (refresh_tokens st')" "rr_token_hash fresh = Hash (to_RefreshToken out)" "rr_consumed_at fresh = None"
    "rr_revoked_at fresh = None" "rr_data fresh = issuedRefresh t (ev_clk env 1) (deviceIdentity d) (dc_ClientID d) \<lparr>li_familyID = fam, li_authTime = ev_clk env 1\<rparr> jti []"
    by (auto simp: issuedRefresh_def)
  have "?h \<notin> dr_device_code_hash ` set (device_codes st')" using e(1) by (simp add: abs_devices_def find_key_None_iff)
  then show ?thesis
    by (intro exI[of _ c] exI[of _ row] exI[of _ fresh] exI[of _ fam] exI[of _ granted] exI[of _ jti] conjI) (use a row fresh in simp_all)
qed

theorem device_grant_sound_witness:
  "\<exists>out sg' st' fresh. deviceCodeGrant sampleToken (sampleEnv (Hour + Second) ''t'') (sampleForm grantDeviceCode ''device_code'' ''d'') [] sampleSigner (sampleStore None [])
     = (Inr out, sg', st') \<and> fresh \<in> set (refresh_tokens st') \<and> rr_token_hash fresh = Hash (to_RefreshToken out) \<and> rt_FamilyID (rr_data fresh) = ''46''"
proof -
  let ?st = "(sampleStore None [])\<lparr>device_codes := []\<rparr>"
  have "\<exists>out sg' st'. issue sampleToken (sampleEnv (Hour + Second) ''t'') 1 \<lparr>id_ConnectorID = ''google'', id_Subject = ''1'', id_Email = ''a@x''\<rparr> ''ui'' []
      \<lparr>li_familyID = [], li_authTime = zeroTime\<rparr> sampleSigner ?st = (Inr out, sg', st')"
    by (rule sample_issue) (simp_all add: SaveRefresh_def sampleStore_def emptyStore_def)
  then obtain out sg' st' where i: "issue sampleToken (sampleEnv (Hour + Second) ''t'') 1 \<lparr>id_ConnectorID = ''google'', id_Subject = ''1'', id_Email = ''a@x''\<rparr> ''ui'' []
      \<lparr>li_familyID = [], li_authTime = zeroTime\<rparr> sampleSigner ?st = (Inr out, sg', st')" by blast
  have g: "deviceCodeGrant sampleToken (sampleEnv (Hour + Second) ''t'') (sampleForm grantDeviceCode ''device_code'' ''d'') [] sampleSigner (sampleStore None []) = (Inr out, sg', st')"
    using i by (simp add: deviceCodeGrant_def Let_def sqliteDeviceStore_def LookupDeviceCodeByDeviceCode_def lookupDeviceCode_def sampleStore_def PollDeviceCode_def pollRead_def
        tooFast_def pollSwap_def updateDevice_def count_where_def update_where_def ConsumeDeviceCode_def Hour_def Minute_def Second_def emptyStore_def)
  show ?thesis using device_grant_sound[OF sample_wf sample_config g] g by (fastforce simp: issuedRefresh_def)
qed

text \<open>
  C8. A session ends at its maximum lifetime. Take a family whose tokens all carry the sign-in time
  \<^verbatim>\<open>a\<close> and expire by \<^verbatim>\<open>a\<close> plus the configured maximum. After any requests whose fresh family ids differ from
  it, every token of the family still carries that sign-in time and expires by that moment, and from that
  moment on no token of the family can be refreshed.
\<close>

theorem session_lifetime:
  assumes "wf_tokens st" "wf_devices st" "tk_store t = sqliteTokenStore" "tk_devices t \<in> {None, Some sqliteDeviceStore}"
    "\<forall>row\<in>set (refresh_tokens st). rt_FamilyID (rr_data row) \<noteq> [] \<and> (rt_FamilyID (rr_data row) = F \<longrightarrow>
       rt_AuthTime (rr_data row) = a \<and> rt_ExpiresAt (rr_data row) \<le> a + tk_refreshMaxLifetime t)"
    "\<forall>q\<in>set qs. ev_family (tr_env q) \<noteq> Some [] \<and> randomFamilyID (ev_family (tr_env q)) \<noteq> Some F"
    "serve t qs sg st = (rs, sg', st')" "row \<in> set (refresh_tokens st')" "rt_FamilyID (rr_data row) = F"
  shows "rt_AuthTime (rr_data row) = a \<and> rt_ExpiresAt (rr_data row) \<le> a + tk_refreshMaxLifetime t \<and>
    (\<forall>env form hdr sg. Hash (Get form ''refresh_token'') = rr_token_hash row \<longrightarrow> a + tk_refreshMaxLifetime t \<le> ev_clk env 0 \<longrightarrow>
       isl (fst (refreshTokenGrant t env form hdr sg st')))"
proof -
  define Q where "Q r \<longleftrightarrow> rt_FamilyID r \<noteq> [] \<and> (rt_FamilyID r = F \<longrightarrow> rt_AuthTime r = a \<and> rt_ExpiresAt r \<le> a + tk_refreshMaxLifetime t)" for r :: Refresh
  have "allRows Q (abs_tokens st)" using assms(5) by (simp add: allRows_rows[OF assms(1)] Q_def)
  then have all: "allRows Q (abs_tokens st')"
  proof (rule sqlite_oidc.serve_allRows[OF assms(3,4) _ _ _ assms(1,2) _ assms(7), rotated -1])
    fix q :: TokenReq and now who cid fam at jti tok assume "q \<in> set qs" "randomFamilyID (ev_family (tr_env q)) = Some fam" "fam \<noteq> []"
    then show "Q ((issuedRefresh t now who cid \<lparr>li_familyID = fam, li_authTime = at\<rparr> jti tok)\<lparr>rt_Token := []\<rparr>)"
      using assms(6) by (auto simp: Q_def issuedRefresh_def)
  next
    fix q :: TokenReq assume "q \<in> set qs" then show "ev_family (tr_env q) \<noteq> Some []" using assms(6) by blast
  next
    fix now rt jti tok assume "Q rt"
    then show "rt_FamilyID rt \<noteq> [] \<and> Q ((issuedRefresh t now (refreshIdentity rt) (rt_ClientID rt) \<lparr>li_familyID = rt_FamilyID rt, li_authTime = rt_AuthTime rt\<rparr> jti tok)\<lparr>rt_Token := []\<rparr>)"
      by (auto simp: Q_def issuedRefresh_def issueExpiry_def Let_def)
  qed
  have wf: "wf_tokens st'" using sqlite_oidc.serve_keeps[OF assms(3,4,1,2,7)] by blast
  then have row: "rt_AuthTime (rr_data row) = a" "rt_ExpiresAt (rr_data row) \<le> a + tk_refreshMaxLifetime t"
    using all assms(8,9) by (auto simp: allRows_rows Q_def)
  have "isl (fst (refreshTokenGrant t env form hdr sg st'))"
    if h: "Hash (Get form ''refresh_token'') = rr_token_hash row" "a + tk_refreshMaxLifetime t \<le> ev_clk env 0" for env form hdr sg
  proof (rule ccontr)
    assume "\<not> ?thesis"
    then obtain out sg2 st2 where g: "refreshTokenGrant t env form hdr sg st' = (Inr out, sg2, st2)"
      by (metis fst_conv isl_def obj_sumE prod_cases3)
    obtain rt st3 where "ts_ConsumeRefresh (tk_store t) st' (Get form ''refresh_token'') (fst (clientCredentials form hdr)) (ev_clk env 0) = (Live rt, st3)"
      and ok: "refreshOK t (ev_clk env 0) rt"
      by (rule refreshGrant_ok_cases[OF g prod.collapse[symmetric]])
    then have c: "ConsumeRefresh st' (Get form ''refresh_token'') (fst (clientCredentials form hdr)) (ev_clk env 0) = (Live rt, st3)"
      by (simp add: assms(3))
    have "find (\<lambda>r. rr_token_hash r = Hash (Get form ''refresh_token'')) (refresh_tokens st') = Some row"
      using wf_tokens_find[OF wf] assms(8) h(1) by simp
    then have "rt = (rr_data row)\<lparr>rt_Token := Get form ''refresh_token''\<rparr>"
      using ConsumeRefresh_refines[OF wf c] by (auto simp: spec_ConsumeRefresh_def split: if_splits)
    then show False using ok row(1) h(2) by (simp add: refreshOK_def)
  qed
  then show ?thesis using row by blast
qed

theorem session_lifetime_witness:
  "\<exists>row. row \<in> set (refresh_tokens (snd (snd (serve sampleToken [] sampleSigner (sampleStore None [None]))))) \<and>
     rt_AuthTime (rr_data row) = Hour \<and> isl (fst (refreshTokenGrant sampleToken (sampleEnv (Hour + DefaultRefreshMaxLifetime) ''t'')
       (sampleForm grantRefreshToken ''refresh_token'' ''r'') [] sampleSigner (sampleStore None [None])))"
proof (intro exI conjI)
  let ?row = "\<lparr>rr_token_hash = Hash ''r'', rr_data = sampleRefresh, rr_consumed_at = None, rr_revoked_at = None\<rparr>"
  have row: "?row \<in> set (refresh_tokens (sampleStore None [None]))" by (simp add: sampleStore_def)
  then show "?row \<in> set (refresh_tokens (snd (snd (serve sampleToken [] sampleSigner (sampleStore None [None])))))" by simp
  have m: "tk_refreshMaxLifetime sampleToken = DefaultRefreshMaxLifetime" by (simp add: sampleToken_def NewToken_def)
  have all: "\<forall>row\<in>set (refresh_tokens (sampleStore None [None])). rt_FamilyID (rr_data row) \<noteq> [] \<and> (rt_FamilyID (rr_data row) = ''46'' \<longrightarrow>
       rt_AuthTime (rr_data row) = Hour \<and> rt_ExpiresAt (rr_data row) \<le> Hour + tk_refreshMaxLifetime sampleToken)"
    by (auto simp: sampleStore_def sampleRefresh_def m DefaultRefreshTokenTTL_def DefaultRefreshMaxLifetime_def)
  note l = session_lifetime[OF sample_wf sample_config(1) _ all _ serve.simps(1) row]
  show "rt_AuthTime (rr_data ?row) = Hour" using l by (simp add: sampleRefresh_def)
  show "isl (fst (refreshTokenGrant sampleToken (sampleEnv (Hour + DefaultRefreshMaxLifetime) ''t'')
       (sampleForm grantRefreshToken ''refresh_token'' ''r'') [] sampleSigner (sampleStore None [None])))"
    using l by (simp add: m) (simp add: sampleRefresh_def)
qed

end
