(* ===== verification/Postgres_Tokens.thy ===== *)
theory Postgres_Tokens
  imports Token_Sessions
begin

text \<open>
  The token tables of the PostgreSQL store: authorization codes and requests
  (src/state/postgres/authcode.go, authrequest.go) and refresh tokens (src/state/postgres/refresh.go).
  PostgreSQL runs transactions at READ COMMITTED, so a family of refresh tokens has a row of its own,
  \<^verbatim>\<open>refresh_families\<close>, that a rotation holds FOR SHARE and a revocation updates first; a transaction
  that holds these locks is one step of the model. The store refines the same specification as SQLite,
  and the token endpoint answers the same over either.
\<close>

section \<open>Schema\<close>

text \<open>Migration 0015 adds one table to those the two backends share.\<close>

record FamilyRow =
  fam_family_id :: string
  fam_revoked_at :: "Time option"

record PgStore =
  pg_tables :: Store
  refresh_families :: "FamilyRow list"

definition onTables :: "(Store \<Rightarrow> 'a \<times> Store) \<Rightarrow> PgStore \<Rightarrow> 'a \<times> PgStore" where
  "onTables f p = (case f (pg_tables p) of (r, s) \<Rightarrow> (r, p\<lparr>pg_tables := s\<rparr>))"

section \<open>Authorization requests and codes\<close>

definition pg_SaveAuthRequest :: "Store \<Rightarrow> AuthRequest \<Rightarrow> StoreError option \<times> Store" where
  "pg_SaveAuthRequest s ar =
     (if exists_where (\<lambda>r. ar_InternalState r = ar_InternalState ar) (auth_requests s)
      then (Some ErrDuplicateInternalState, s)
      else (None, s\<lparr>auth_requests := auth_requests s @ [ar]\<rparr>))"

definition pg_ConsumeAuthRequest :: "Store \<Rightarrow> string \<Rightarrow> (StoreError + AuthRequest) \<times> Store" where
  "pg_ConsumeAuthRequest s internalState =
     (case filter (\<lambda>r. ar_InternalState r = internalState) (auth_requests s) of
        [] \<Rightarrow> (Inl ErrAuthRequestNotFound, s)
      | ar # _ \<Rightarrow> (Inr ar, s\<lparr>auth_requests := filter (\<lambda>r. ar_InternalState r \<noteq> internalState) (auth_requests s)\<rparr>))"

definition pg_SaveAuthCode :: "Store \<Rightarrow> AuthCode \<Rightarrow> StoreError option \<times> Store" where
  "pg_SaveAuthCode s ac =
     (if exists_where (\<lambda>r. acr_code_hash r = Hash (ac_Code ac)) (auth_codes s)
      then (Some ErrDuplicateAuthCode, s)
      else (None, s\<lparr>auth_codes := auth_codes s @
        [\<lparr>acr_code_hash = Hash (ac_Code ac), acr_data = ac\<lparr>ac_Code := [], ac_FamilyID := []\<rparr>, acr_consumed_at = None\<rparr>]\<rparr>))"

text \<open>\<^verbatim>\<open>UPDATE ... RETURNING\<close> returns the row as updated; the key is unique, so at most one.\<close>

definition pg_ConsumeAuthCode :: "Store \<Rightarrow> string \<Rightarrow> string \<Rightarrow> Time \<Rightarrow> AuthCode Consumed \<times> Store" where
  "pg_ConsumeAuthCode s code familyID at =
     (let live = (\<lambda>r. acr_code_hash r = Hash code \<and> acr_consumed_at r = None);
          mark = (\<lambda>r. r\<lparr>acr_consumed_at := Some at, acr_data := (acr_data r)\<lparr>ac_FamilyID := familyID\<rparr>\<rparr>)
      in case map mark (filter live (auth_codes s)) of
           r # _ \<Rightarrow> (Live ((acr_data r)\<lparr>ac_Code := code\<rparr>), s\<lparr>auth_codes := update_where live mark (auth_codes s)\<rparr>)
         | [] \<Rightarrow> (case find (\<lambda>r. acr_code_hash r = Hash code \<and> acr_consumed_at r \<noteq> None) (auth_codes s) of
               None \<Rightarrow> (Miss ErrAuthCodeNotFound, s)
             | Some r \<Rightarrow> (Reused (tombstoneCode code (acr_data r)), s)))"

section \<open>Refresh tokens\<close>

text \<open>
  The loop of \<^verbatim>\<open>lockFamily\<close>: read the family's row, or insert it and read again. It ends because an
  insert that does nothing means the row is there.
\<close>

function lockFamily :: "string \<Rightarrow> FamilyRow list \<Rightarrow> bool \<times> FamilyRow list" where
  "lockFamily familyID fams = (case find (\<lambda>f. fam_family_id f = familyID) fams of
     Some f \<Rightarrow> (fam_revoked_at f \<noteq> None, fams)
   | None \<Rightarrow> lockFamily familyID
       (if exists_where (\<lambda>f. fam_family_id f = familyID) fams then fams
        else fams @ [\<lparr>fam_family_id = familyID, fam_revoked_at = None\<rparr>]))"
  by pat_completeness auto
termination
  by (relation "measure (\<lambda>(F, fams). if F \<in> fam_family_id ` set fams then 0 else 1)")
     (auto simp: find_None_iff)

declare lockFamily.simps [simp del]

definition pg_SaveRefresh :: "PgStore \<Rightarrow> Refresh \<Rightarrow> StoreError option \<times> PgStore" where
  "pg_SaveRefresh p r = (case lockFamily (rt_FamilyID r) (refresh_families p) of (revoked, fams) \<Rightarrow>
     if revoked then (Some ErrRefreshFamilyRevoked, p)
     else if exists_where (\<lambda>row. rr_token_hash row = Hash (rt_Token r)) (refresh_tokens (pg_tables p))
     then (Some ErrDuplicateRefreshToken, p)
     else (None, \<lparr>pg_tables = (pg_tables p)\<lparr>refresh_tokens := refresh_tokens (pg_tables p) @
          [\<lparr>rr_token_hash = Hash (rt_Token r), rr_data = r\<lparr>rt_Token := []\<rparr>, rr_consumed_at = None, rr_revoked_at = None\<rparr>]\<rparr>,
          refresh_families = fams\<rparr>))"

definition pg_ConsumeRefresh :: "Store \<Rightarrow> string \<Rightarrow> string \<Rightarrow> Time \<Rightarrow> Refresh Consumed \<times> Store" where
  "pg_ConsumeRefresh s token clientID at =
     (let hash = Hash token;
          live = (\<lambda>row. rr_token_hash row = hash \<and> rt_ClientID (rr_data row) = clientID
                        \<and> rr_consumed_at row = None \<and> rr_revoked_at row = None)
      in case filter live (refresh_tokens s) of
           row # _ \<Rightarrow> (Live (scanRefresh token row),
              s\<lparr>refresh_tokens := update_where live (\<lambda>row. row\<lparr>rr_consumed_at := Some at\<rparr>) (refresh_tokens s)\<rparr>)
         | [] \<Rightarrow> (case find (\<lambda>row. rr_token_hash row = hash \<and> rt_ClientID (rr_data row) = clientID
                                    \<and> rr_consumed_at row \<noteq> None) (refresh_tokens s) of
               None \<Rightarrow> (Miss ErrRefreshNotFound, s)
             | Some row \<Rightarrow> (Reused (scanRefresh token row), s)))"

definition revokeTokens :: "string list \<Rightarrow> Store \<Rightarrow> Time \<Rightarrow> nat \<times> Store" where
  "revokeTokens families s at =
     (let hit = (\<lambda>row. rt_FamilyID (rr_data row) \<in> set families \<and> rr_revoked_at row = None)
      in (count_where (\<lambda>row. rr_consumed_at row = None) (filter hit (refresh_tokens s)),
          s\<lparr>refresh_tokens := update_where hit (\<lambda>row. row\<lparr>rr_revoked_at := Some at\<rparr>) (refresh_tokens s)\<rparr>))"

text \<open>\<^verbatim>\<open>SET revoked_at = coalesce(revoked_at, at)\<close>\<close>

definition stampFamily :: "Time \<Rightarrow> FamilyRow \<Rightarrow> FamilyRow" where
  "stampFamily at f = f\<lparr>fam_revoked_at := Some (case fam_revoked_at f of None \<Rightarrow> at | Some t \<Rightarrow> t)\<rparr>"

definition pg_RevokeRefreshFamily :: "PgStore \<Rightarrow> string \<Rightarrow> Time \<Rightarrow> (StoreError + nat) \<times> PgStore" where
  "pg_RevokeRefreshFamily p familyID at =
     (let mine = (\<lambda>f. fam_family_id f = familyID) in
      if count_where mine (refresh_families p) = 0 then (Inl ErrSessionNotFound, p)
      else case revokeTokens [familyID] (pg_tables p) at of (live, s) \<Rightarrow>
        (Inr live, \<lparr>pg_tables = s, refresh_families = update_where mine (stampFamily at) (refresh_families p)\<rparr>))"

definition revokeFamiliesWhere :: "(Refresh \<Rightarrow> bool) \<Rightarrow> PgStore \<Rightarrow> Time \<Rightarrow> nat \<times> PgStore" where
  "revokeFamiliesWhere sel p at =
     (let matching = map (\<lambda>row. rt_FamilyID (rr_data row)) (filter (\<lambda>row. sel (rr_data row)) (refresh_tokens (pg_tables p)));
          locked = sort (map fam_family_id (filter (\<lambda>f. fam_family_id f \<in> set matching) (refresh_families p)))
      in case revokeTokens locked (pg_tables p) at of (live, s) \<Rightarrow>
        (live, \<lparr>pg_tables = s,
                refresh_families = update_where (\<lambda>f. fam_family_id f \<in> set locked) (stampFamily at) (refresh_families p)\<rparr>))"

definition pg_RevokeRefreshByEmail :: "PgStore \<Rightarrow> string \<Rightarrow> Time \<Rightarrow> nat \<times> PgStore" where
  "pg_RevokeRefreshByEmail p email at = revokeFamiliesWhere (\<lambda>r. ToLower (rt_Email r) = ToLower email) p at"

definition pg_RevokeRefreshBySubject :: "PgStore \<Rightarrow> string \<Rightarrow> string \<Rightarrow> Time \<Rightarrow> nat \<times> PgStore" where
  "pg_RevokeRefreshBySubject p connectorID subject at =
     revokeFamiliesWhere (\<lambda>r. rt_ConnectorID r = connectorID \<and> rt_Subject r = subject) p at"

definition pg_ListRefreshSessions :: "Store \<Rightarrow> RefreshSessionFilter \<Rightarrow> Time \<Rightarrow> RefreshSession list" where
  "pg_ListRefreshSessions s f now =
     sort_key rs_Email (sort_key rs_AuthTime (map refreshSession
       (filter (\<lambda>row. rr_consumed_at row = None \<and> rr_revoked_at row = None \<and> now < rt_ExpiresAt (rr_data row)
          \<and> (rf_Email f = [] \<or> ToLower (rt_Email (rr_data row)) = ToLower (rf_Email f))
          \<and> (rf_ConnectorID f = [] \<or> rt_ConnectorID (rr_data row) = rf_ConnectorID f)
          \<and> (rf_Subject f = [] \<or> rt_Subject (rr_data row) = rf_Subject f)) (refresh_tokens s))))"

definition postgresTokenStore :: "PgStore TokenStore" where
  "postgresTokenStore = \<lparr>ts_ConsumeAuthCode = (\<lambda>p code f at. onTables (\<lambda>s. pg_ConsumeAuthCode s code f at) p),
     ts_SaveRefresh = pg_SaveRefresh,
     ts_ConsumeRefresh = (\<lambda>p token cid at. onTables (\<lambda>s. pg_ConsumeRefresh s token cid at) p),
     ts_RevokeRefreshFamily = pg_RevokeRefreshFamily\<rparr>"

definition pgDevices :: "PgStore DeviceCodeStore" where
  "pgDevices = \<lparr>ds_SaveDeviceCode = (\<lambda>p d. onTables (\<lambda>s. pg_SaveDeviceCode s d) p),
     ds_LookupDeviceCodeByDeviceCode = (\<lambda>p. pg_LookupDeviceCodeByDeviceCode (pg_tables p)),
     ds_LookupDeviceCodeByUserCode = (\<lambda>p. ds_LookupDeviceCodeByUserCode postgresDeviceStore (pg_tables p)),
     ds_PollDeviceCode = (\<lambda>p c now. onTables (\<lambda>s. pg_PollDeviceCode s c now) p),
     ds_ApproveDeviceCode = (\<lambda>p uc who now. onTables (\<lambda>s. pg_ApproveDeviceCode s uc who now) p),
     ds_DenyDeviceCode = (\<lambda>p uc now. onTables (\<lambda>s. pg_DenyDeviceCode s uc now) p),
     ds_ConsumeDeviceCode = (\<lambda>p c. onTables (\<lambda>s. pg_ConsumeDeviceCode s c) p)\<rparr>"

section \<open>Refinement\<close>

lemma filter_find: "(case filter P xs of [] \<Rightarrow> a | x # _ \<Rightarrow> f x) = (case find P xs of None \<Rightarrow> a | Some x \<Rightarrow> f x)"
  by (induction xs) simp_all

lemma map_filter_find: "(case map g (filter P xs) of [] \<Rightarrow> a | x # _ \<Rightarrow> f x) = (case find P xs of None \<Rightarrow> a | Some x \<Rightarrow> f (g x))"
  by (induction xs) simp_all

lemma pg_tables_same:
  "pg_SaveAuthRequest = SaveAuthRequest" "pg_ConsumeAuthRequest = ConsumeAuthRequest" "pg_SaveAuthCode = SaveAuthCode"
  "pg_ConsumeAuthCode = ConsumeAuthCode" "pg_ConsumeRefresh = ConsumeRefresh"
  by (simp_all add: fun_eq_iff pg_SaveAuthRequest_def SaveAuthRequest_def pg_ConsumeAuthRequest_def ConsumeAuthRequest_def
      pg_SaveAuthCode_def SaveAuthCode_def pg_ConsumeAuthCode_def ConsumeAuthCode_def pg_ConsumeRefresh_def ConsumeRefresh_def
      Let_def filter_find map_filter_find)

text \<open>
  The invariant of the schema: the families are exactly those with a token, and a family is stamped
  revoked together with all its tokens.
\<close>

definition familyIDs :: "Store \<Rightarrow> string set" where
  "familyIDs s = (\<lambda>row. rt_FamilyID (rr_data row)) ` set (refresh_tokens s)"

definition wf_families :: "PgStore \<Rightarrow> bool" where
  "wf_families p = (distinct (map fam_family_id (refresh_families p)) \<and>
     fam_family_id ` set (refresh_families p) = familyIDs (pg_tables p) \<and>
     (\<forall>f\<in>set (refresh_families p). \<forall>row\<in>set (refresh_tokens (pg_tables p)).
        rt_FamilyID (rr_data row) = fam_family_id f \<longrightarrow> (rr_revoked_at row \<noteq> None \<longleftrightarrow> fam_revoked_at f \<noteq> None)))"

definition wf_pg :: "PgStore \<Rightarrow> bool" where
  "wf_pg p = (wf_tokens (pg_tables p) \<and> wf_families p)"

definition abs_pg :: "PgStore \<Rightarrow> AbsTokens" where
  "abs_pg p = abs_tokens (pg_tables p)"

lemma lockFamily_eq:
  "lockFamily F fams = (case find (\<lambda>f. fam_family_id f = F) fams of
     Some f \<Rightarrow> (fam_revoked_at f \<noteq> None, fams)
   | None \<Rightarrow> (False, fams @ [\<lparr>fam_family_id = F, fam_revoked_at = None\<rparr>]))"
proof (cases "find (\<lambda>f. fam_family_id f = F) fams")
  case None
  then have "\<not> exists_where (\<lambda>f. fam_family_id f = F) fams" by (simp add: find_None_iff)
  then show ?thesis using None
    by (simp add: lockFamily.simps[of F fams] lockFamily.simps[of F "fams @ _"] find_append_new)
qed (simp add: lockFamily.simps)

lemma wf_families_family: "wf_families p \<Longrightarrow> f \<in> set (refresh_families p) \<Longrightarrow> fam_family_id f \<in> familyIDs (pg_tables p)"
  by (metis imageI wf_families_def)

lemma wf_families_unique:
  "wf_families p \<Longrightarrow> f \<in> set (refresh_families p) \<Longrightarrow> f' \<in> set (refresh_families p) \<Longrightarrow> fam_family_id f' = fam_family_id f \<Longrightarrow> f' = f"
  by (metis distinct_map inj_onD wf_families_def)

lemma wf_families_revoked:
  assumes "wf_families p" "find (\<lambda>f. fam_family_id f = F) (refresh_families p) = Some f"
  shows "fam_revoked_at f \<noteq> None \<longleftrightarrow> (\<exists>row\<in>set (refresh_tokens (pg_tables p)). rt_FamilyID (rr_data row) = F \<and> rr_revoked_at row \<noteq> None)"
proof -
  have f: "f \<in> set (refresh_families p)" "fam_family_id f = F" using assms(2) by (auto dest: find_SomeD)
  then obtain row where row: "row \<in> set (refresh_tokens (pg_tables p))" "rt_FamilyID (rr_data row) = F"
    using wf_families_family[OF assms(1) f(1)] by (auto simp: familyIDs_def)
  have "rr_revoked_at row' \<noteq> None \<longleftrightarrow> fam_revoked_at f \<noteq> None"
    if "row' \<in> set (refresh_tokens (pg_tables p))" "rt_FamilyID (rr_data row') = F" for row'
    using assms(1) f that unfolding wf_families_def by metis
  then show ?thesis using row by metis
qed

lemma wf_families_absent:
  assumes "wf_families p" "find (\<lambda>f. fam_family_id f = F) (refresh_families p) = None"
  shows "F \<notin> familyIDs (pg_tables p)" "\<forall>row\<in>set (refresh_tokens (pg_tables p)). rt_FamilyID (rr_data row) \<noteq> F"
proof -
  show F: "F \<notin> familyIDs (pg_tables p)" using assms unfolding wf_families_def by (metis find_key_None_iff)
  then show "\<forall>row\<in>set (refresh_tokens (pg_tables p)). rt_FamilyID (rr_data row) \<noteq> F" by (auto simp: familyIDs_def)
qed

text \<open>\<^verbatim>\<open>SaveRefresh\<close> answers as SQLite's does and leaves the same tokens.\<close>

lemma pg_SaveRefresh_tables:
  assumes "wf_families p"
  shows "fst (pg_SaveRefresh p r) = fst (SaveRefresh (pg_tables p) r)"
    "pg_tables (snd (pg_SaveRefresh p r)) = snd (SaveRefresh (pg_tables p) r)"
proof -
  have "fst (pg_SaveRefresh p r) = fst (SaveRefresh (pg_tables p) r) \<and>
      pg_tables (snd (pg_SaveRefresh p r)) = snd (SaveRefresh (pg_tables p) r)"
  proof (cases "find (\<lambda>f. fam_family_id f = rt_FamilyID r) (refresh_families p)")
    case None
    then show ?thesis using wf_families_absent(2)[OF assms None]
      by (auto simp: pg_SaveRefresh_def SaveRefresh_def lockFamily_eq)
  next
    case (Some f)
    then show ?thesis using wf_families_revoked[OF assms Some]
      by (simp add: pg_SaveRefresh_def SaveRefresh_def lockFamily_eq)
  qed
  then show "fst (pg_SaveRefresh p r) = fst (SaveRefresh (pg_tables p) r)"
    "pg_tables (snd (pg_SaveRefresh p r)) = snd (SaveRefresh (pg_tables p) r)" by simp_all
qed

lemma pg_SaveRefresh_families:
  assumes "wf_families p"
  shows "wf_families (snd (pg_SaveRefresh p r))"
proof (cases "find (\<lambda>f. fam_family_id f = rt_FamilyID r) (refresh_families p)")
  case None
  have "rt_FamilyID r \<notin> fam_family_id ` set (refresh_families p)" using None by (simp add: find_key_None_iff)
  then show ?thesis using assms None wf_families_absent(2)[OF assms None]
    by (auto simp: pg_SaveRefresh_def lockFamily_eq wf_families_def familyIDs_def)
next
  case (Some f)
  have f: "f \<in> set (refresh_families p)" "fam_family_id f = rt_FamilyID r" using Some by (auto dest: find_SomeD)
  have one: "f' = f" if "f' \<in> set (refresh_families p)" "fam_family_id f' = rt_FamilyID r" for f'
    using wf_families_unique[OF assms f(1)] f(2) that by simp
  have "rt_FamilyID r \<in> familyIDs (pg_tables p)" using wf_families_family[OF assms f(1)] f(2) by simp
  then show ?thesis using assms Some one
    by (auto simp: pg_SaveRefresh_def lockFamily_eq wf_families_def familyIDs_def)
qed

text \<open>Stamping a set of families together with their unrevoked tokens keeps the invariant.\<close>

definition stampRow :: "Time \<Rightarrow> RefreshRow \<Rightarrow> RefreshRow" where
  "stampRow at row = row\<lparr>rr_revoked_at := Some at\<rparr>"

lemma stamp_simps [simp]:
  "fam_family_id (stampFamily at f) = fam_family_id f" "fam_revoked_at (stampFamily at f) \<noteq> None"
  "rr_data (stampRow at row) = rr_data row" "rr_revoked_at (stampRow at row) = Some at"
  by (simp_all add: stampFamily_def stampRow_def)

lemma stamp_wf_families:
  assumes "wf_families p"
  shows "wf_families \<lparr>pg_tables = (pg_tables p)\<lparr>refresh_tokens := update_where (\<lambda>row. rt_FamilyID (rr_data row) \<in> X \<and> rr_revoked_at row = None)
        (stampRow at) (refresh_tokens (pg_tables p))\<rparr>,
      refresh_families = update_where (\<lambda>f. fam_family_id f \<in> X) (stampFamily at) (refresh_families p)\<rparr>"
  unfolding wf_families_def
proof (intro conjI ballI impI)
  let ?hit = "\<lambda>row. rt_FamilyID (rr_data row) \<in> X \<and> rr_revoked_at row = None"
  have "familyIDs ((pg_tables p)\<lparr>refresh_tokens := update_where ?hit (stampRow at) (refresh_tokens (pg_tables p))\<rparr>) = familyIDs (pg_tables p)"
    by (simp add: familyIDs_def image_update_where)
  then show "fam_family_id ` set (refresh_families \<lparr>pg_tables = (pg_tables p)\<lparr>refresh_tokens := update_where ?hit (stampRow at) (refresh_tokens (pg_tables p))\<rparr>,
      refresh_families = update_where (\<lambda>f. fam_family_id f \<in> X) (stampFamily at) (refresh_families p)\<rparr>) =
      familyIDs (pg_tables \<lparr>pg_tables = (pg_tables p)\<lparr>refresh_tokens := update_where ?hit (stampRow at) (refresh_tokens (pg_tables p))\<rparr>,
      refresh_families = update_where (\<lambda>f. fam_family_id f \<in> X) (stampFamily at) (refresh_families p)\<rparr>)"
    using assms by (simp add: wf_families_def image_update_where)
  fix f row
  assume "f \<in> set (refresh_families \<lparr>pg_tables = (pg_tables p)\<lparr>refresh_tokens := update_where ?hit (stampRow at) (refresh_tokens (pg_tables p))\<rparr>,
      refresh_families = update_where (\<lambda>f. fam_family_id f \<in> X) (stampFamily at) (refresh_families p)\<rparr>)"
    and "row \<in> set (refresh_tokens (pg_tables \<lparr>pg_tables = (pg_tables p)\<lparr>refresh_tokens := update_where ?hit (stampRow at) (refresh_tokens (pg_tables p))\<rparr>,
      refresh_families = update_where (\<lambda>f. fam_family_id f \<in> X) (stampFamily at) (refresh_families p)\<rparr>))"
    and fam: "rt_FamilyID (rr_data row) = fam_family_id f"
  then obtain f0 row0 where
    f0: "f0 \<in> set (refresh_families p)" "f = (if fam_family_id f0 \<in> X then stampFamily at f0 else f0)" and
    row0: "row0 \<in> set (refresh_tokens (pg_tables p))" "row = (if ?hit row0 then stampRow at row0 else row0)"
    by (auto simp: in_update_where)
  have "fam_family_id f = fam_family_id f0" "rr_data row = rr_data row0" using f0(2) row0(2) by simp_all
  moreover have "rr_revoked_at row0 \<noteq> None \<longleftrightarrow> fam_revoked_at f0 \<noteq> None"
    if "rt_FamilyID (rr_data row0) = fam_family_id f0"
    using assms f0(1) row0(1) that unfolding wf_families_def by metis
  ultimately show "rr_revoked_at row \<noteq> None \<longleftrightarrow> fam_revoked_at f \<noteq> None"
    using fam f0(2) row0(2) by (auto simp: stampRow_def stampFamily_def)
qed (use assms in \<open>simp add: wf_families_def update_where_key\<close>)

lemma revokeTokens_eq:
  "revokeTokens families s at = (count_where (\<lambda>row. (rt_FamilyID (rr_data row) \<in> set families \<and> rr_revoked_at row = None) \<and> rr_consumed_at row = None) (refresh_tokens s),
     s\<lparr>refresh_tokens := update_where (\<lambda>row. rt_FamilyID (rr_data row) \<in> set families \<and> rr_revoked_at row = None) (stampRow at) (refresh_tokens s)\<rparr>)"
  by (simp add: revokeTokens_def Let_def count_where_def stampRow_def[abs_def])

lemma revokeRefresh_tokens: "revokeTokens [F] = revokeRefresh (\<lambda>r. rt_FamilyID r = F)"
  by (simp add: fun_eq_iff revokeTokens_eq revokeRefresh_def Let_def stampRow_def[abs_def])

lemma familyIDs_exists: "exists_where (\<lambda>row. rt_FamilyID (rr_data row) = F) (refresh_tokens s) \<longleftrightarrow> F \<in> familyIDs s"
  by (auto simp: familyIDs_def)

lemma RevokeRefreshFamily_eq:
  "RevokeRefreshFamily s F at = (if F \<notin> familyIDs s then (Inl ErrSessionNotFound, s)
     else case revokeRefresh (\<lambda>r. rt_FamilyID r = F) s at of (n, s') \<Rightarrow> (Inr n, s'))"
proof (cases "F \<in> familyIDs s")
  case False
  then have "\<forall>row\<in>set (refresh_tokens s). rt_FamilyID (rr_data row) \<noteq> F" by (auto simp: familyIDs_def)
  then show ?thesis using False
    by (simp add: RevokeRefreshFamily_def revokeRefresh_def Let_def update_where_none count_where_zero)
next
  case True
  have "familyIDs (snd (revokeRefresh (\<lambda>r. rt_FamilyID r = F) s at)) = familyIDs s"
    by (simp add: familyIDs_def revokeRefresh_def Let_def image_update_where)
  then have "exists_where (\<lambda>row. rt_FamilyID (rr_data row) = F) (refresh_tokens (snd (revokeRefresh (\<lambda>r. rt_FamilyID r = F) s at)))"
    using True unfolding familyIDs_exists by simp
  then show ?thesis using True
    by (auto simp: RevokeRefreshFamily_def split: prod.splits)
qed

lemma pg_RevokeRefreshFamily_eq:
  assumes "wf_families p"
  shows "fst (pg_RevokeRefreshFamily p F at) = fst (RevokeRefreshFamily (pg_tables p) F at)"
    "pg_tables (snd (pg_RevokeRefreshFamily p F at)) = snd (RevokeRefreshFamily (pg_tables p) F at)"
    "wf_families (snd (pg_RevokeRefreshFamily p F at))"
proof -
  have "fam_family_id ` set (refresh_families p) = familyIDs (pg_tables p)" using assms by (simp add: wf_families_def)
  then have "count_where (\<lambda>f. fam_family_id f = F) (refresh_families p) = 0 \<longleftrightarrow> F \<notin> familyIDs (pg_tables p)"
    unfolding count_where_zero by (metis imageE imageI)
  then show "fst (pg_RevokeRefreshFamily p F at) = fst (RevokeRefreshFamily (pg_tables p) F at)"
    "pg_tables (snd (pg_RevokeRefreshFamily p F at)) = snd (RevokeRefreshFamily (pg_tables p) F at)"
    by (simp_all add: pg_RevokeRefreshFamily_def RevokeRefreshFamily_eq revokeRefresh_tokens Let_def split: prod.split)
  show "wf_families (snd (pg_RevokeRefreshFamily p F at))"
    using assms stamp_wf_families[OF assms, of "{F}" at]
    by (simp add: pg_RevokeRefreshFamily_def Let_def revokeTokens_eq)
qed

lemma revokeFamiliesWhere_wf:
  assumes "wf_pg p"
  shows "wf_pg (snd (revokeFamiliesWhere sel p at))"
  using assms stamp_wf_families[of p _ at]
  by (simp add: wf_pg_def revokeFamiliesWhere_def Let_def revokeTokens_eq wf_tokens_def update_where_key stampRow_def[abs_def])

lemma onTables_simps [simp]:
  "fst (onTables f p) = fst (f (pg_tables p))" "pg_tables (snd (onTables f p)) = snd (f (pg_tables p))"
  "refresh_families (snd (onTables f p)) = refresh_families p"
  by (simp_all add: onTables_def split: prod.split)

lemma onTables_wf_families:
  assumes "map (\<lambda>row. (rt_FamilyID (rr_data row), rr_revoked_at row)) (refresh_tokens (snd (f (pg_tables p)))) =
      map (\<lambda>row. (rt_FamilyID (rr_data row), rr_revoked_at row)) (refresh_tokens (pg_tables p))"
  shows "wf_families (snd (onTables f p)) = wf_families p"
proof -
  let ?k = "\<lambda>row. (rt_FamilyID (rr_data row), rr_revoked_at row)"
  have wf: "wf_families q \<longleftrightarrow> distinct (map fam_family_id (refresh_families q)) \<and>
      fam_family_id ` set (refresh_families q) = fst ` set (map ?k (refresh_tokens (pg_tables q))) \<and>
      (\<forall>f\<in>set (refresh_families q). \<forall>(F, r)\<in>set (map ?k (refresh_tokens (pg_tables q))). F = fam_family_id f \<longrightarrow> (r \<noteq> None \<longleftrightarrow> fam_revoked_at f \<noteq> None))" for q
    by (simp add: wf_families_def familyIDs_def image_image)
  show ?thesis unfolding wf onTables_simps assms ..
qed

lemma tokens_keep_families:
  "map (\<lambda>row. (rt_FamilyID (rr_data row), rr_revoked_at row)) (refresh_tokens (snd (ConsumeRefresh s token c at))) =
     map (\<lambda>row. (rt_FamilyID (rr_data row), rr_revoked_at row)) (refresh_tokens s)"
  "refresh_tokens (snd (ConsumeAuthCode s code f at)) = refresh_tokens s"
  by (auto simp: ConsumeRefresh_def ConsumeAuthCode_def Let_def update_where_key split: option.splits)

lemma pg_store_simps [simp]:
  "ts_ConsumeAuthCode postgresTokenStore = (\<lambda>p code f at. onTables (\<lambda>s. ConsumeAuthCode s code f at) p)"
  "ts_SaveRefresh postgresTokenStore = pg_SaveRefresh"
  "ts_ConsumeRefresh postgresTokenStore = (\<lambda>p token cid at. onTables (\<lambda>s. ConsumeRefresh s token cid at) p)"
  "ts_RevokeRefreshFamily postgresTokenStore = pg_RevokeRefreshFamily"
  by (simp_all add: postgresTokenStore_def pg_tables_same)

text \<open>Each operation answers as SQLite does on the shared tables, and keeps the families in step.\<close>

lemma pg_token_ops:
  assumes "wf_families p"
  shows "fst (ts_ConsumeAuthCode postgresTokenStore p code f at) = fst (ConsumeAuthCode (pg_tables p) code f at)"
    "pg_tables (snd (ts_ConsumeAuthCode postgresTokenStore p code f at)) = snd (ConsumeAuthCode (pg_tables p) code f at)"
    "wf_families (snd (ts_ConsumeAuthCode postgresTokenStore p code f at))"
    "fst (ts_ConsumeRefresh postgresTokenStore p token c at) = fst (ConsumeRefresh (pg_tables p) token c at)"
    "pg_tables (snd (ts_ConsumeRefresh postgresTokenStore p token c at)) = snd (ConsumeRefresh (pg_tables p) token c at)"
    "wf_families (snd (ts_ConsumeRefresh postgresTokenStore p token c at))"
  using assms by (simp_all add: onTables_wf_families tokens_keep_families)

lemma pg_refines:
  assumes "wf_pg p"
  shows "ts_ConsumeAuthCode postgresTokenStore p code f at = (res, p') \<Longrightarrow> wf_pg p' \<and> (res, abs_pg p') = spec_ConsumeAuthCode (abs_pg p) code f"
    "ts_SaveRefresh postgresTokenStore p r = (err, p') \<Longrightarrow> wf_pg p' \<and> (err, abs_pg p') = spec_SaveRefresh (abs_pg p) r"
    "ts_ConsumeRefresh postgresTokenStore p token c at = (res2, p') \<Longrightarrow> wf_pg p' \<and> (res2, abs_pg p') = spec_ConsumeRefresh (abs_pg p) token c"
    "ts_RevokeRefreshFamily postgresTokenStore p F at = (res3, p') \<Longrightarrow> wf_pg p' \<and> (res3, abs_pg p') = spec_RevokeRefreshFamily (abs_pg p) F"
proof -
  have wf: "wf_tokens (pg_tables p)" and fam: "wf_families p" using assms by (simp_all add: wf_pg_def)
  note ops = pg_token_ops[OF fam] pg_SaveRefresh_tables[OF fam] pg_SaveRefresh_families[OF fam] pg_RevokeRefreshFamily_eq[OF fam]
  have pair: "x = (fst x, snd x)" for x :: "'x \<times> 'y" by simp
  show "wf_pg p' \<and> (res, abs_pg p') = spec_ConsumeAuthCode (abs_pg p) code f" if "ts_ConsumeAuthCode postgresTokenStore p code f at = (res, p')"
    using ConsumeAuthCode_refines[OF wf pair] ops(1-3)[of code f at] unfolding wf_pg_def abs_pg_def that by simp
  show "wf_pg p' \<and> (err, abs_pg p') = spec_SaveRefresh (abs_pg p) r" if "ts_SaveRefresh postgresTokenStore p r = (err, p')"
    using SaveRefresh_refines[OF wf pair] ops(7-9)[of r] that[unfolded pg_store_simps] unfolding wf_pg_def abs_pg_def by simp
  show "wf_pg p' \<and> (res2, abs_pg p') = spec_ConsumeRefresh (abs_pg p) token c" if "ts_ConsumeRefresh postgresTokenStore p token c at = (res2, p')"
    using ConsumeRefresh_refines[OF wf pair] ops(4-6)[of token c at] unfolding wf_pg_def abs_pg_def that by simp
  show "wf_pg p' \<and> (res3, abs_pg p') = spec_RevokeRefreshFamily (abs_pg p) F" if "ts_RevokeRefreshFamily postgresTokenStore p F at = (res3, p')"
    using RevokeRefreshFamily_refines[OF wf pair] ops(10-12)[of F at] that[unfolded pg_store_simps] unfolding wf_pg_def abs_pg_def by simp
qed

interpretation postgres: token_store postgresTokenStore wf_pg abs_pg
  by unfold_locales (blast dest: pg_refines)+

subsection \<open>With the device codes\<close>

definition wf_pg_devices :: "PgStore \<Rightarrow> bool" where
  "wf_pg_devices p = wf_devices (pg_tables p)"

definition abs_pg_devices :: "PgStore \<Rightarrow> AbsDevices" where
  "abs_pg_devices p = abs_devices (pg_tables p)"

lemma pgDevices_simps [simp]:
  "ds_SaveDeviceCode pgDevices p d = onTables (\<lambda>s. ds_SaveDeviceCode postgresDeviceStore s d) p"
  "ds_LookupDeviceCodeByDeviceCode pgDevices p c = ds_LookupDeviceCodeByDeviceCode postgresDeviceStore (pg_tables p) c"
  "ds_LookupDeviceCodeByUserCode pgDevices p uc = ds_LookupDeviceCodeByUserCode postgresDeviceStore (pg_tables p) uc"
  "ds_PollDeviceCode pgDevices p c now = onTables (\<lambda>s. ds_PollDeviceCode postgresDeviceStore s c now) p"
  "ds_ApproveDeviceCode pgDevices p uc who now = onTables (\<lambda>s. ds_ApproveDeviceCode postgresDeviceStore s uc who now) p"
  "ds_DenyDeviceCode pgDevices p uc now = onTables (\<lambda>s. ds_DenyDeviceCode postgresDeviceStore s uc now) p"
  "ds_ConsumeDeviceCode pgDevices p c = onTables (\<lambda>s. ds_ConsumeDeviceCode postgresDeviceStore s c) p"
  by (simp_all add: pgDevices_def postgresDeviceStore_def)

lemma onTables_elim:
  assumes "onTables f p = (r, p')"
  shows "f (pg_tables p) = (r, pg_tables p')"
  using assms by (auto simp: onTables_def split: prod.splits)

interpretation postgres_device_codes: device_store pgDevices wf_pg_devices abs_pg_devices
  unfolding wf_pg_devices_def[abs_def] abs_pg_devices_def[abs_def]
  by unfold_locales
     (auto dest!: onTables_elim simp del: split_paired_Ex
       dest: postgres_devices.unique postgres_devices.lookup_user postgres_devices.save postgres_devices.poll
        postgres_devices.approve postgres_devices.deny postgres_devices.consume postgres_devices.lookup)

text \<open>Device operations leave the token tables alone, and token operations the device table.\<close>

lemma pg_device_frame:
  "refresh_tokens (snd (ds_SaveDeviceCode postgresDeviceStore s d)) = refresh_tokens s \<and> auth_codes (snd (ds_SaveDeviceCode postgresDeviceStore s d)) = auth_codes s"
  "refresh_tokens (snd (ds_PollDeviceCode postgresDeviceStore s c now)) = refresh_tokens s \<and> auth_codes (snd (ds_PollDeviceCode postgresDeviceStore s c now)) = auth_codes s"
  "refresh_tokens (snd (ds_ApproveDeviceCode postgresDeviceStore s uc who now)) = refresh_tokens s \<and> auth_codes (snd (ds_ApproveDeviceCode postgresDeviceStore s uc who now)) = auth_codes s"
  "refresh_tokens (snd (ds_DenyDeviceCode postgresDeviceStore s uc now)) = refresh_tokens s \<and> auth_codes (snd (ds_DenyDeviceCode postgresDeviceStore s uc now)) = auth_codes s"
  "refresh_tokens (snd (ds_ConsumeDeviceCode postgresDeviceStore s c)) = refresh_tokens s \<and> auth_codes (snd (ds_ConsumeDeviceCode postgresDeviceStore s c)) = auth_codes s"
  by (auto simp: postgresDeviceStore_def pg_SaveDeviceCode_def pg_PollDeviceCode_def pg_ApproveDeviceCode_def pg_DenyDeviceCode_def
      pg_decideDeviceCode_def pg_ConsumeDeviceCode_def updateDevice_def Let_def split: option.split)

lemma pg_keep:
  assumes "refresh_tokens (snd (f (pg_tables p))) = refresh_tokens (pg_tables p) \<and> auth_codes (snd (f (pg_tables p))) = auth_codes (pg_tables p)"
  shows "wf_pg (snd (onTables f p)) = wf_pg p \<and> abs_pg (snd (onTables f p)) = abs_pg p"
  using assms by (simp add: wf_pg_def abs_pg_def wf_tokens_def abs_tokens_def onTables_wf_families)

lemma devices_keep:
  assumes "device_codes (pg_tables q) = device_codes (pg_tables p)"
  shows "wf_pg_devices q = wf_pg_devices p \<and> abs_pg_devices q = abs_pg_devices p"
  using assms by (simp add: wf_pg_devices_def abs_pg_devices_def wf_devices_def abs_devices_def fun_eq_iff)

lemma pg_token_devices:
  "device_codes (pg_tables (snd (ts_ConsumeAuthCode postgresTokenStore p c f now))) = device_codes (pg_tables p)"
  "device_codes (pg_tables (snd (ts_SaveRefresh postgresTokenStore p r))) = device_codes (pg_tables p)"
  "device_codes (pg_tables (snd (ts_ConsumeRefresh postgresTokenStore p token cid now))) = device_codes (pg_tables p)"
  "device_codes (pg_tables (snd (ts_RevokeRefreshFamily postgresTokenStore p F now))) = device_codes (pg_tables p)"
  by (auto simp: ConsumeAuthCode_def ConsumeRefresh_def pg_SaveRefresh_def pg_RevokeRefreshFamily_def revokeTokens_def Let_def
      split: option.split prod.split)

interpretation postgres_oidc: oidc_store postgresTokenStore wf_pg abs_pg pgDevices wf_pg_devices abs_pg_devices
  by unfold_locales
     (simp_all only: pgDevices_simps, (rule pg_keep pg_device_frame devices_keep pg_token_devices)+)

end
