(* ===== verification/Backends.thy ===== *)
theory Backends
  imports Postgres_Tokens
begin

text \<open>
  The token endpoint over two stores that answer alike. The locale \<^verbatim>\<open>backend_sim\<close> relates the states of
  two stores and asks each operation for equal answers and related states; inside it every handler of
  src/oidc/token.go and src/oidc/device_token.go is shown to answer alike. Its interpretation relates
  SQLite to PostgreSQL.
\<close>

definition sameConfig :: "('a, 'key, 'pub, 'set, 'tok) Token \<Rightarrow> ('b, 'key, 'pub, 'set, 'tok) Token \<Rightarrow> bool" where
  "sameConfig t u = (tk_jwx t = tk_jwx u \<and> tk_clients t = tk_clients u \<and> tk_connectors t = tk_connectors u \<and>
     tk_allowedDomains t = tk_allowedDomains u \<and> tk_authorizer t = tk_authorizer u \<and> tk_accessTTL t = tk_accessTTL u \<and>
     tk_refreshTTL t = tk_refreshTTL u \<and> tk_refreshMaxLifetime t = tk_refreshMaxLifetime u)"

locale backend_sim =
  fixes sim :: "'a \<Rightarrow> 'b \<Rightarrow> bool"
    and ops1 :: "'a TokenStore" and ops2 :: "'b TokenStore"
    and dev1 :: "'a DeviceCodeStore" and dev2 :: "'b DeviceCodeStore"
  assumes code_sim: "sim a b \<Longrightarrow> rel_prod (=) sim (ts_ConsumeAuthCode ops1 a c f now) (ts_ConsumeAuthCode ops2 b c f now)"
    and save_sim: "sim a b \<Longrightarrow> rel_prod (=) sim (ts_SaveRefresh ops1 a r) (ts_SaveRefresh ops2 b r)"
    and refresh_sim: "sim a b \<Longrightarrow> rel_prod (=) sim (ts_ConsumeRefresh ops1 a token cid now) (ts_ConsumeRefresh ops2 b token cid now)"
    and revoke_sim: "sim a b \<Longrightarrow> rel_prod (=) sim (ts_RevokeRefreshFamily ops1 a F now) (ts_RevokeRefreshFamily ops2 b F now)"
    and lookup_sim: "sim a b \<Longrightarrow> ds_LookupDeviceCodeByDeviceCode dev1 a dc = ds_LookupDeviceCodeByDeviceCode dev2 b dc"
    and poll_sim: "sim a b \<Longrightarrow> rel_prod (=) sim (ds_PollDeviceCode dev1 a dc now) (ds_PollDeviceCode dev2 b dc now)"
    and consume_sim: "sim a b \<Longrightarrow> rel_prod (=) sim (ds_ConsumeDeviceCode dev1 a dc) (ds_ConsumeDeviceCode dev2 b dc)"

text \<open>Two runs related through every branch they share.\<close>

lemma rel_pair: "R a b \<Longrightarrow> rel_prod (=) R (r, a) (r, b)"
  by simp

lemma rel_case_prod:
  "rel_prod (=) S x y \<Longrightarrow> (\<And>r a b. S a b \<Longrightarrow> rel_prod (=) R (f r a) (g r b)) \<Longrightarrow>
   rel_prod (=) R (case x of (r, a) \<Rightarrow> f r a) (case y of (r, b) \<Rightarrow> g r b)"
  by (cases x; cases y) auto

lemma rel_case_same:
  "(\<And>r s. rel_prod (=) R (f r s) (g r s)) \<Longrightarrow> rel_prod (=) R (case z of (r, s) \<Rightarrow> f r s) (case z of (r, s) \<Rightarrow> g r s)"
  by (cases z) auto

lemma rel_if:
  "(c \<Longrightarrow> rel_prod (=) R a b) \<Longrightarrow> (\<not> c \<Longrightarrow> rel_prod (=) R a' b') \<Longrightarrow> rel_prod (=) R (if c then a else a') (if c then b else b')"
  by simp

lemma rel_case_option:
  "rel_prod (=) R a b \<Longrightarrow> (\<And>z. rel_prod (=) R (f z) (g z)) \<Longrightarrow>
   rel_prod (=) R (case x of None \<Rightarrow> a | Some z \<Rightarrow> f z) (case x of None \<Rightarrow> b | Some z \<Rightarrow> g z)"
  by (cases x) auto

lemma rel_case_sum:
  "(\<And>z. rel_prod (=) R (f z) (g z)) \<Longrightarrow> (\<And>z. rel_prod (=) R (f' z) (g' z)) \<Longrightarrow>
   rel_prod (=) R (case x of Inl z \<Rightarrow> f z | Inr z \<Rightarrow> f' z) (case x of Inl z \<Rightarrow> g z | Inr z \<Rightarrow> g' z)"
  by (cases x) auto

lemma rel_case_Consumed:
  "(\<And>z. rel_prod (=) R (f z) (g z)) \<Longrightarrow> (\<And>z. rel_prod (=) R (f' z) (g' z)) \<Longrightarrow> (\<And>z. rel_prod (=) R (f'' z) (g'' z)) \<Longrightarrow>
   rel_prod (=) R (case x of Live z \<Rightarrow> f z | Reused z \<Rightarrow> f' z | Miss z \<Rightarrow> f'' z) (case x of Live z \<Rightarrow> g z | Reused z \<Rightarrow> g' z | Miss z \<Rightarrow> g'' z)"
  by (cases x) auto

lemma rel_case_HandlerError:
  "(\<And>x y z. rel_prod (=) R (f x y z) (g x y z)) \<Longrightarrow> rel_prod (=) R a b \<Longrightarrow> (\<And>z. rel_prod (=) R (f' z) (g' z)) \<Longrightarrow>
   rel_prod (=) R (case e of OAuthErr x y z \<Rightarrow> f x y z | ErrNoPermissions \<Rightarrow> a | ServerErr z \<Rightarrow> f' z)
     (case e of OAuthErr x y z \<Rightarrow> g x y z | ErrNoPermissions \<Rightarrow> b | ServerErr z \<Rightarrow> g' z)"
  by (cases e) auto

lemmas sim_intro = rel_pair rel_case_same rel_case_prod rel_if rel_case_option rel_case_sum rel_case_Consumed rel_case_HandlerError

context backend_sim
begin

definition over :: "('a, 'key, 'pub, 'set, 'tok) Token \<Rightarrow> ('b, 'key, 'pub, 'set, 'tok) Token \<Rightarrow> bool" where
  "over t u = (sameConfig t u \<and> tk_store t = ops1 \<and> tk_store u = ops2 \<and>
     (tk_devices t = None \<and> tk_devices u = None \<or> tk_devices t = Some dev1 \<and> tk_devices u = Some dev2))"

abbreviation answers :: "'r \<times> 'sg \<times> 'a \<Rightarrow> 'r \<times> 'sg \<times> 'b \<Rightarrow> bool" where
  "answers \<equiv> rel_prod (=) (rel_prod (=) sim)"

lemma over_config:
  assumes "over t u"
  shows "authenticateClient t = authenticateClient u" "connectorConfigured t = connectorConfigured u"
    "accessRequest t = accessRequest u" "issuedRefresh t = issuedRefresh u" "tk_jwx t = tk_jwx u" "tk_authorizer t = tk_authorizer u"
    "tk_allowedDomains t = tk_allowedDomains u" "tk_accessTTL t = tk_accessTTL u" "tk_refreshMaxLifetime t = tk_refreshMaxLifetime u"
    "tk_store t = ops1" "tk_store u = ops2"
proof -
  have s: "sameConfig t u" "tk_store t = ops1" "tk_store u = ops2" using assms by (simp_all add: over_def)
  show "authenticateClient t = authenticateClient u" "connectorConfigured t = connectorConfigured u"
    "accessRequest t = accessRequest u" "issuedRefresh t = issuedRefresh u" "tk_jwx t = tk_jwx u" "tk_authorizer t = tk_authorizer u"
    "tk_allowedDomains t = tk_allowedDomains u" "tk_accessTTL t = tk_accessTTL u" "tk_refreshMaxLifetime t = tk_refreshMaxLifetime u"
    "tk_store t = ops1" "tk_store u = ops2"
    using s by (simp_all add: sameConfig_def fun_eq_iff authenticateClient_def connectorConfigured_def accessRequest_def
        issuedRefresh_def issueExpiry_def split: option.split)
qed

lemma revokeFamily_sim:
  assumes "over t u" "sim a b"
  shows "rel_prod (=) sim (revokeFamily t F now a) (revokeFamily u F now b)"
  unfolding revokeFamily_def over_config[OF assms(1)] by (rule sim_intro revoke_sim assms(2) | assumption)+

lemma revokeAndRefuse_sim:
  assumes "over t u" "sim a b"
  shows "rel_prod (=) sim (revokeAndRefuse t F now e a) (revokeAndRefuse u F now e b)"
  unfolding revokeAndRefuse_def by (rule sim_intro revokeFamily_sim assms | assumption)+

lemma redeem_sim:
  assumes "over t u" "sim a b"
  shows "rel_prod (=) sim (RedeemAuthorizationCode t rnd now req a) (RedeemAuthorizationCode u rnd now req b)"
  unfolding RedeemAuthorizationCode_def over_config[OF assms(1)]
  by (rule sim_intro code_sim revokeFamily_sim assms | assumption)+

lemma issue_sim:
  assumes "over t u" "sim a b"
  shows "answers (issue t env i who cid nonce l sg a) (issue u env i who cid nonce l sg b)"
  unfolding issue_def over_config[OF assms(1)] Let_def
  by (rule sim_intro save_sim assms | assumption)+

lemma codeGrant_sim:
  assumes "over t u" "sim a b"
  shows "answers (authorizationCodeGrant t env form hdr sg a) (authorizationCodeGrant u env form hdr sg b)"
  unfolding authorizationCodeGrant_def by (rule sim_intro redeem_sim issue_sim assms | assumption)+

lemma refreshGrant_sim:
  assumes "over t u" "sim a b"
  shows "answers (refreshTokenGrant t env form hdr sg a) (refreshTokenGrant u env form hdr sg b)"
  unfolding refreshTokenGrant_def over_config[OF assms(1)] Let_def
  by (rule sim_intro refresh_sim revokeAndRefuse_sim issue_sim assms | assumption)+

lemma deviceGrant_sim:
  assumes "over t u" "sim a b"
  shows "answers (deviceCodeGrant t env form hdr sg a) (deviceCodeGrant u env form hdr sg b)"
proof (cases "tk_devices t")
  case None
  then have "tk_devices u = None" using assms(1) by (auto simp: over_def)
  then show ?thesis using None assms(2) by (simp add: deviceCodeGrant_def)
next
  case (Some d)
  then have d: "tk_devices t = Some dev1" "tk_devices u = Some dev2" using assms(1) by (auto simp: over_def)
  have gone: "sim (snd (ds_ConsumeDeviceCode dev1 x c)) (snd (ds_ConsumeDeviceCode dev2 y c))" if "sim x y" for x y c
    using consume_sim[OF that, of c] by (auto simp: rel_prod_sel)
  show ?thesis
    unfolding deviceCodeGrant_def d option.case over_config[OF assms(1)] Let_def lookup_sim[OF assms(2)]
    by (rule sim_intro poll_sim consume_sim issue_sim assms | assumption | erule gone)+
qed

lemma dispatch_sim:
  assumes "over t u" "sim a b"
  shows "answers (dispatch t env form hdr sg a) (dispatch u env form hdr sg b)"
  unfolding dispatch_def by (rule sim_intro codeGrant_sim refreshGrant_sim deviceGrant_sim assms)+

lemma serve_sim:
  assumes "over t u" "sim a b"
  shows "answers (serve t qs sg a) (serve u qs sg b)"
  using assms(2)
proof (induction qs arbitrary: sg a b)
  case (Cons q qs)
  from dispatch_sim[OF assms(1) Cons.prems, of "tr_env q" "tr_form q" "tr_auth q" sg]
  obtain r sg1 a1 b1 where d: "dispatch t (tr_env q) (tr_form q) (tr_auth q) sg a = (r, sg1, a1)"
    "dispatch u (tr_env q) (tr_form q) (tr_auth q) sg b = (r, sg1, b1)" "sim a1 b1"
    by (auto simp: rel_prod_conv split: prod.splits)
  show ?case using Cons.IH[OF d(3), of sg1] d(1,2) by (auto simp: rel_prod_conv split: prod.splits)
qed simp

end

section \<open>SQLite and PostgreSQL\<close>

text \<open>Two databases hold the same tokens and device codes; order, rowids and stamps may differ.\<close>

definition sameTokens :: "Store \<Rightarrow> PgStore \<Rightarrow> bool" where
  "sameTokens s p = (wf_tokens s \<and> wf_devices s \<and> wf_pg p \<and> wf_pg_devices p \<and> abs_pg p = abs_tokens s \<and> abs_pg_devices p = abs_devices s)"

lemma token_op_sim:
  assumes "sameTokens s p"
    and "wf_tokens s \<Longrightarrow> wf_tokens (snd x) \<and> (fst x, abs_tokens (snd x)) = S (abs_tokens s)"
    and "wf_pg p \<Longrightarrow> wf_pg (snd y) \<and> (fst y, abs_pg (snd y)) = S (abs_pg p)"
    and "wf_devices (snd x) = wf_devices s \<and> abs_devices (snd x) = abs_devices s"
    and "wf_pg_devices (snd y) = wf_pg_devices p \<and> abs_pg_devices (snd y) = abs_pg_devices p"
  shows "rel_prod (=) sameTokens x y"
proof -
  have "(fst x, abs_tokens (snd x)) = (fst y, abs_pg (snd y))" using assms(1-3) by (simp add: sameTokens_def)
  then show ?thesis using assms by (auto simp: rel_prod_sel sameTokens_def)
qed

lemma device_op_sim:
  assumes "sameTokens s p"
    and "wf_devices s \<Longrightarrow> wf_devices (snd x) \<and> (fst x, abs_devices (snd x)) = S (abs_devices s)"
    and "wf_devices (pg_tables p) \<Longrightarrow> wf_devices (snd (f (pg_tables p))) \<and> (fst (f (pg_tables p)), abs_devices (snd (f (pg_tables p)))) = S (abs_devices (pg_tables p))"
    and "wf_tokens (snd x) = wf_tokens s \<and> abs_tokens (snd x) = abs_tokens s"
    and "wf_pg (snd (onTables f p)) = wf_pg p \<and> abs_pg (snd (onTables f p)) = abs_pg p"
  shows "rel_prod (=) sameTokens x (onTables f p)"
proof -
  have "(fst x, abs_devices (snd x)) = (fst (onTables f p), abs_pg_devices (snd (onTables f p)))"
    using assms(1-3) by (simp add: sameTokens_def wf_pg_devices_def abs_pg_devices_def)
  then show ?thesis using assms by (auto simp: rel_prod_sel sameTokens_def wf_pg_devices_def)
qed

interpretation sqlite_postgres: backend_sim sameTokens sqliteTokenStore postgresTokenStore sqliteDeviceStore pgDevices
proof
  fix s p assume sp: "sameTokens s p"
  have pair: "x = (fst x, snd x)" for x :: "'x \<times> 'y" by simp
  show "rel_prod (=) sameTokens (ts_ConsumeAuthCode sqliteTokenStore s c f now) (ts_ConsumeAuthCode postgresTokenStore p c f now)" for c f now
    by (rule token_op_sim[OF sp _ _ sqlite_oidc.code_frame postgres_oidc.code_frame])
       (simp_all only: sqliteTokenStore_simps, (erule ConsumeAuthCode_refines[OF _ pair] pg_refines(1)[OF _ pair])+)
  show "rel_prod (=) sameTokens (ts_SaveRefresh sqliteTokenStore s r) (ts_SaveRefresh postgresTokenStore p r)" for r
    by (rule token_op_sim[OF sp _ _ sqlite_oidc.saveRefresh_frame postgres_oidc.saveRefresh_frame])
       (simp_all only: sqliteTokenStore_simps, (erule SaveRefresh_refines[OF _ pair] pg_refines(2)[OF _ pair])+)
  show "rel_prod (=) sameTokens (ts_ConsumeRefresh sqliteTokenStore s tok cid now) (ts_ConsumeRefresh postgresTokenStore p tok cid now)" for tok cid now
    by (rule token_op_sim[OF sp _ _ sqlite_oidc.refresh_frame postgres_oidc.refresh_frame])
       (simp_all only: sqliteTokenStore_simps, (erule ConsumeRefresh_refines[OF _ pair] pg_refines(3)[OF _ pair])+)
  show "rel_prod (=) sameTokens (ts_RevokeRefreshFamily sqliteTokenStore s F now) (ts_RevokeRefreshFamily postgresTokenStore p F now)" for F now
    by (rule token_op_sim[OF sp _ _ sqlite_oidc.revoke_frame postgres_oidc.revoke_frame])
       (simp_all only: sqliteTokenStore_simps, (erule RevokeRefreshFamily_refines[OF _ pair] pg_refines(4)[OF _ pair])+)
  show "ds_LookupDeviceCodeByDeviceCode sqliteDeviceStore s dc = ds_LookupDeviceCodeByDeviceCode pgDevices p dc" for dc
    using sp by (simp add: sqliteDeviceStore_def postgresDeviceStore_def pg_same LookupDeviceCode_refines sameTokens_def abs_pg_devices_def)
  have pgp: "ds_PollDeviceCode postgresDeviceStore = pg_PollDeviceCode" "ds_ConsumeDeviceCode postgresDeviceStore = ConsumeDeviceCode"
    "ds_PollDeviceCode sqliteDeviceStore = PollDeviceCode" "ds_ConsumeDeviceCode sqliteDeviceStore = ConsumeDeviceCode"
    by (simp_all add: postgresDeviceStore_def sqliteDeviceStore_def pg_same)
  show "rel_prod (=) sameTokens (ds_PollDeviceCode sqliteDeviceStore s dc now) (ds_PollDeviceCode pgDevices p dc now)" for dc now
    unfolding pgDevices_simps
    by (rule device_op_sim[OF sp _ _ sqlite_oidc.poll_frame postgres_oidc.poll_frame[unfolded pgDevices_simps]])
       (simp_all only: pgp, (erule PollDeviceCode_refines[OF _ pair] pg_PollDeviceCode_refines[OF _ pair])+)
  show "rel_prod (=) sameTokens (ds_ConsumeDeviceCode sqliteDeviceStore s dc) (ds_ConsumeDeviceCode pgDevices p dc)" for dc
    unfolding pgDevices_simps
    by (rule device_op_sim[OF sp _ _ sqlite_oidc.consume_frame postgres_oidc.consume_frame[unfolded pgDevices_simps]])
       (simp_all only: pgp, (erule ConsumeDeviceCode_refines[OF _ pair])+)
qed

section \<open>Properties\<close>

text \<open>
  C7. The token endpoint behaves the same over both databases. When a SQLite and a PostgreSQL database
  hold the same codes, refresh tokens and device codes and the two endpoints are configured alike, every
  sequence of token requests gets the same responses from both, leaves the signer in the same state, and
  leaves the databases holding the same tokens again; in particular PostgreSQL's family rows stay in step
  with its tokens.
\<close>

theorem backends_agree:
  assumes "sameTokens s p" "sameConfig t u" "tk_store t = sqliteTokenStore" "tk_store u = postgresTokenStore"
    "tk_devices t = None \<and> tk_devices u = None \<or> tk_devices t = Some sqliteDeviceStore \<and> tk_devices u = Some pgDevices"
    "serve t qs sg s = (rs, sg', s')" "serve u qs sg p = (rs2, sg2, p')"
  shows "rs2 = rs \<and> sg2 = sg' \<and> sameTokens s' p'"
proof -
  have "sqlite_postgres.over t u" using assms by (simp add: sqlite_postgres.over_def)
  from sqlite_postgres.serve_sim[OF this assms(1), of qs sg] show ?thesis using assms(6,7) by simp
qed

text \<open>The sample endpoint over PostgreSQL.\<close>

definition samplePgToken :: "(PgStore, string, string, (string \<times> string) list, string \<times> JwsHeader \<times> Claims) Token" where
  "samplePgToken = (NewToken postgresTokenStore plainJwx [(''ui'', sampleClient)])\<lparr>tk_devices := Some pgDevices, tk_connectors := Some [''google''],
     tk_allowedDomains := [''x''], tk_authorizer := (\<lambda>_. Inr (Some \<lparr>perms = [(''orders'', ''write'')]\<rparr>))\<rparr>"

definition samplePg :: "Time option \<Rightarrow> Time option list \<Rightarrow> PgStore" where
  "samplePg usedCode refreshes = \<lparr>pg_tables = sampleStore usedCode refreshes,
     refresh_families = map (\<lambda>_. \<lparr>fam_family_id = ''46'', fam_revoked_at = None\<rparr>) (take 1 refreshes)\<rparr>"

lemma sample_pg_wf [simp]: "wf_pg (samplePg a b)" "wf_pg_devices (samplePg a b)"
  by (cases b; simp add: wf_pg_def wf_families_def familyIDs_def samplePg_def sampleStore_def[of a] sampleRefresh_def wf_pg_devices_def wf_tokens_def wf_devices_def)+

lemma sample_same: "sameTokens (sampleStore a b) (samplePg a b)" "sameConfig sampleToken samplePgToken"
  by (simp_all add: sameTokens_def abs_pg_def abs_pg_devices_def, simp_all add: samplePg_def sameConfig_def sampleToken_def samplePgToken_def NewToken_def)

lemma sample_pg_config [simp]: "tk_store samplePgToken = postgresTokenStore" "tk_devices samplePgToken = Some pgDevices"
  by (simp_all add: samplePgToken_def NewToken_def)

definition sampleRequest :: TokenReq where
  "sampleRequest = \<lparr>tr_env = sampleEnv (Hour + Second) ''t'', tr_form = sampleForm grantAuthorizationCode ''code'' ''c'', tr_auth = []\<rparr>"

lemma sample_serve: "\<exists>out sg' s'. serve sampleToken [sampleRequest] sampleSigner (sampleStore None []) = ([Inr out], sg', s')"
proof -
  obtain out sg' st' where "authorizationCodeGrant sampleToken (sampleEnv (Hour + Second) ''t'') (sampleForm grantAuthorizationCode ''code'' ''c'') [] sampleSigner
      (sampleStore None []) = (Inr out, sg', st')" using sample_code_grant by blast
  moreover have "Get (sampleForm g ''code'' v) ''grant_type'' = g" "Get (sampleForm g ''code'' v) ''client_id'' = ''ui''"
    "Get (sampleForm g ''code'' v) ''refresh_token'' = []" "Get (sampleForm g ''code'' v) ''device_code'' = []" for g v
    by (simp_all add: sampleForm_def Get_def)
  ultimately show ?thesis
    by (simp add: sampleRequest_def dispatch_def maxClientIDLen_def maxCredentialLen_def maxRedirectURILen_def del: digits.simps)
qed

theorem backends_agree_witness:
  "\<exists>out sg' s' p'. serve sampleToken [sampleRequest] sampleSigner (sampleStore None []) = ([Inr out], sg', s') \<and>
     serve samplePgToken [sampleRequest] sampleSigner (samplePg None []) = ([Inr out], sg', p') \<and> sameTokens s' p'"
proof -
  obtain out sg' s' where s: "serve sampleToken [sampleRequest] sampleSigner (sampleStore None []) = ([Inr out], sg', s')" using sample_serve by blast
  obtain rs sg2 p' where p: "serve samplePgToken [sampleRequest] sampleSigner (samplePg None []) = (rs, sg2, p')" by (metis prod_cases3)
  show ?thesis using backends_agree[OF sample_same(1,2) _ _ _ s p] s p by simp
qed

text \<open>
  Single use over PostgreSQL. Over any sequence of token requests against the PostgreSQL store, an
  authorization code, a refresh token and a device code are each exchanged for tokens at most once.
\<close>

theorem credentials_single_use_postgres:
  assumes "wf_pg st" "wf_pg_devices st" "tk_store t = postgresTokenStore" "tk_devices t \<in> {None, Some pgDevices}"
  shows "accepted (presents grantAuthorizationCode ''code'' code) qs (fst (serve t qs sg st)) \<le> 1 \<and>
    accepted (presents grantRefreshToken ''refresh_token'' token) qs (fst (serve t qs sg st)) \<le> 1 \<and>
    accepted (presents grantDeviceCode ''device_code'' dcode) qs (fst (serve t qs sg st)) \<le> 1"
  by (rule postgres_oidc.serve_single_use[OF assms])

theorem credentials_single_use_postgres_witness:
  "accepted (presents grantAuthorizationCode ''code'' ''c'') [sampleRequest, sampleRequest]
     (fst (serve samplePgToken [sampleRequest, sampleRequest] sampleSigner (samplePg None [None]))) \<le> 1"
  by (rule credentials_single_use_postgres[THEN conjunct1]) simp_all

end
