(* ===== verification/Admin.thy ===== *)
theory Admin
  imports Admin_Guard Key_Registry Backends
begin

text \<open>
  The admin API (src/admin): integration keys (model.go, keys.go), refresh sessions (sessions.go) and
  signing keys (signing_keys.go), over the registry of theory \<^verbatim>\<open>Key_Registry\<close>, the token stores and the key
  ring. A handler takes and returns the states it works on; the audit line it writes is part of its
  result. Error texts are shortened, and the calls to the log redactor are left out. \<^verbatim>\<open>uuid.Parse\<close>
  (github.com/google/uuid) is the parameter \<^verbatim>\<open>uuidOK\<close> and a generated id an input that may be missing.
\<close>

section \<open>The model\<close>

datatype ModelError = NamespaceRequired | OwnerRequired | InvalidRole | WorkerRole

definition Validate :: "IntegrationKey \<Rightarrow> ModelError option" where
  "Validate k =
     (if ik_Namespace k = [] then Some NamespaceRequired
      else if ik_Owner k = [] then Some OwnerRequired
      else if \<not> Valid (ik_Role k) then Some InvalidRole
      else if ik_Role k = RoleWorker then Some WorkerRole
      else None)"

definition keyGrant :: "IntegrationKey \<Rightarrow> Grant" where
  "keyGrant k = New [AddNamespace (ik_Namespace k) (ik_Role k)]"

text \<open>What a handler fails with: a status for the client, a store's sentinel, or an internal error.\<close>

datatype AdminError = StatusErr (ae_status: nat) (ae_detail: string) | StoreErr StoreError | InternalErr string

definition auditOutcome :: "AdminError option \<Rightarrow> string" where
  "auditOutcome err = (case err of
     None \<Rightarrow> ''success''
   | Some (StoreErr e) \<Rightarrow> if e = ErrIntegrationKeyNotFound \<or> e = ErrSessionNotFound then ''not_found'' else ''error''
   | Some (StatusErr st _) \<Rightarrow> if st = 403 then ''denied'' else if st = 400 then ''invalid'' else ''error''
   | Some (InternalErr _) \<Rightarrow> ''error'')"

definition errOf :: "'e + 'a \<Rightarrow> 'e option" where
  "errOf r = (case r of Inl e \<Rightarrow> Some e | Inr _ \<Rightarrow> None)"

record AuditLine =
  au_action :: string
  au_outcome :: string
  au_key :: IntegrationKey
  au_caller :: caller

section \<open>Integration keys\<close>

record ('st, 'key, 'pub, 'set, 'tok) AdminKeys =
  ak_registry :: "'st KeyRegistry"
  ak_jwx :: "('key, 'pub, 'set, 'tok) Jwx"
  ak_systemGrants :: bool
  ak_maxTTL :: Duration
  ak_defaultLimit :: int
  ak_maxLimit :: int

definition DefaultMaxTTL :: Duration where "DefaultMaxTTL = 90 * 24 * Hour"

definition NewAdminKeys :: "'st KeyRegistry \<Rightarrow> ('key, 'pub, 'set, 'tok) Jwx \<Rightarrow> ('st, 'key, 'pub, 'set, 'tok) AdminKeys" where
  "NewAdminKeys registry jx = \<lparr>ak_registry = registry, ak_jwx = jx, ak_systemGrants = False, ak_maxTTL = DefaultMaxTTL,
     ak_defaultLimit = 50, ak_maxLimit = 200\<rparr>"

record createBody =
  cb_Namespace :: string
  cb_Role :: string
  cb_Owner :: string
  cb_ExpiresAt :: "Time option"

record 'tok createOutput =
  co_Status :: nat
  co_ID :: string
  co_JWT :: 'tok
  co_ExpiresAt :: "Time option"

text \<open>The clock readings of a request in order, a fresh id and a fresh jti.\<close>

record AdminEnv =
  ae_clk :: "nat \<Rightarrow> Time"
  ae_id :: "string option"
  ae_jti :: "string option"

definition newKey :: "createBody \<Rightarrow> IntegrationKey" where
  "newKey b = \<lparr>ik_ID = [], ik_Namespace = cb_Namespace b, ik_Role = cb_Role b, ik_Owner = cb_Owner b, ik_JTI = [],
     ik_CreatedAt = zeroTime, ik_ExpiresAt = cb_ExpiresAt b, ik_RevokedAt = None\<rparr>"

definition keyRequest :: "IntegrationKey \<Rightarrow> Duration \<Rightarrow> MintRequest" where
  "keyRequest k ttl = \<lparr>mr_Subject = ik_Owner k, mr_Permissions = ToClaim (Some (keyGrant k)), mr_TTL = ttl,
     mr_Email = [], mr_IDP = [], mr_ClientID = []\<rparr>"

text \<open>\<^verbatim>\<open>mint\<close> stamps the key it was given once the JWT is signed, so it returns the key too.\<close>

definition mintKey :: "('st, 'key, 'pub, 'set, 'tok) AdminKeys \<Rightarrow> AdminEnv \<Rightarrow> IntegrationKey \<Rightarrow> 'key Signer \<Rightarrow> 'st
    \<Rightarrow> (AdminError + 'tok createOutput) \<times> IntegrationKey \<times> 'key Signer \<times> 'st" where
  "mintKey h env k sg st =
     (case Validate k of
        Some WorkerRole \<Rightarrow> (Inl (StatusErr 422 ''worker grants nothing''), k, sg, st)
      | Some _ \<Rightarrow> (Inl (StatusErr 400 ''invalid key''), k, sg, st)
      | None \<Rightarrow>
        if ik_Namespace k = SystemNamespace \<and> \<not> ak_systemGrants h
        then (Inl (StatusErr 403 ''system grants are disabled''), k, sg, st)
        else case ae_id env of
          None \<Rightarrow> (Inl (InternalErr ''admin: generate id''), k, sg, st)
        | Some i \<Rightarrow>
          let now = ae_clk env 0 in
          (case ik_ExpiresAt k of
             None \<Rightarrow> (Inl (StatusErr 400 ''expires_at is required''), k, sg, st)
           | Some exp \<Rightarrow>
             let ttl = exp - now in
             if ttl \<le> 0 then (Inl (StatusErr 400 ''expires_at must be in the future''), k, sg, st)
             else if ak_maxTTL h < ttl then (Inl (StatusErr 400 ''expires_at exceeds ADMIN_KEYS_MAX_TTL''), k, sg, st)
             else (case Mint (ak_jwx h) sg (ae_jti env) (\<lambda>n. ae_clk env (1 + n)) (keyRequest k ttl) of
                (Inl e, sg1) \<Rightarrow> (Inl (InternalErr ''admin: mint jwt''), k, sg1, st)
              | (Inr (jwt, jti), sg1) \<Rightarrow>
                  let k = k\<lparr>ik_ID := i, ik_JTI := jti, ik_CreatedAt := now\<rparr> in
                  (case kr_Save (ak_registry h) st k of
                     (Some e, st') \<Rightarrow> (Inl (InternalErr ''admin: save integration key''), k, sg1, st')
                   | (None, st') \<Rightarrow> (Inr \<lparr>co_Status = 201, co_ID = i, co_JWT = jwt, co_ExpiresAt = ik_ExpiresAt k\<rparr>, k, sg1, st')))))"

definition create :: "('st, 'key, 'pub, 'set, 'tok) AdminKeys \<Rightarrow> caller \<Rightarrow> AdminEnv \<Rightarrow> createBody \<Rightarrow> 'key Signer \<Rightarrow> 'st
    \<Rightarrow> (AdminError + 'tok createOutput) \<times> AuditLine \<times> 'key Signer \<times> 'st" where
  "create h c env b sg st = (case mintKey h env (newKey b) sg st of (out, k, sg', st') \<Rightarrow>
     (out, \<lparr>au_action = ''create'', au_outcome = auditOutcome (errOf out), au_key = k, au_caller = c\<rparr>, sg', st'))"

record keyView =
  kv_ID :: string
  kv_Namespace :: string
  kv_Role :: string
  kv_Owner :: string
  kv_CreatedAt :: Time
  kv_ExpiresAt :: "Time option"
  kv_RevokedAt :: "Time option"

definition viewOf :: "IntegrationKey \<Rightarrow> keyView" where
  "viewOf k = \<lparr>kv_ID = ik_ID k, kv_Namespace = ik_Namespace k, kv_Role = ik_Role k, kv_Owner = ik_Owner k,
     kv_CreatedAt = ik_CreatedAt k, kv_ExpiresAt = ik_ExpiresAt k, kv_RevokedAt = ik_RevokedAt k\<rparr>"

definition getKey :: "('st, 'key, 'pub, 'set, 'tok) AdminKeys \<Rightarrow> string \<Rightarrow> 'st \<Rightarrow> AdminError + keyView" where
  "getKey h i st = (case kr_ByID (ak_registry h) st i of
     Inl e \<Rightarrow> Inl (if e = ErrIntegrationKeyNotFound then StatusErr 404 ''integration key not found'' else InternalErr ''admin: get integration key'')
   | Inr row \<Rightarrow> Inr (viewOf row))"

record listInput =
  li_Owner :: string
  li_Namespace :: string
  li_Limit :: int
  li_Cursor :: string

record listBody =
  lb_Items :: "keyView list"
  lb_NextCursor :: string

definition clampLimit :: "('st, 'key, 'pub, 'set, 'tok) AdminKeys \<Rightarrow> int \<Rightarrow> int" where
  "clampLimit h limit = (if limit \<le> 0 then ak_defaultLimit h else if ak_maxLimit h < limit then ak_maxLimit h else limit)"

definition listKeys :: "('st, 'key, 'pub, 'set, 'tok) AdminKeys \<Rightarrow> (string \<Rightarrow> bool) \<Rightarrow> listInput \<Rightarrow> 'st \<Rightarrow> AdminError + listBody" where
  "listKeys h uuidOK inp st =
     (let limit = clampLimit h (li_Limit inp) in
      if li_Cursor inp \<noteq> [] \<and> \<not> uuidOK (li_Cursor inp) then Inl (StatusErr 400 ''cursor is not a valid id'')
      else case kr_List (ak_registry h) st \<lparr>lf_Owner = li_Owner inp, lf_Namespace = li_Namespace inp, lf_Limit = limit, lf_Cursor = li_Cursor inp\<rparr> of
          Inl e \<Rightarrow> Inl (InternalErr ''admin: list integration keys'')
        | Inr rows \<Rightarrow>
            Inr (if limit < int (length rows)
              then \<lparr>lb_Items = map viewOf (take (nat limit) rows), lb_NextCursor = ik_ID (rows ! (nat limit - 1))\<rparr>
              else \<lparr>lb_Items = map viewOf rows, lb_NextCursor = []\<rparr>))"

text \<open>The hydrator is the verifier's cache in this process, when it has one.\<close>

definition revokeKey :: "('st, 'key, 'pub, 'set, 'tok) AdminKeys \<Rightarrow> AdminEnv \<Rightarrow> string \<Rightarrow> DenylistCache option \<Rightarrow> 'st
    \<Rightarrow> (AdminError + string) \<times> DenylistCache option \<times> 'st" where
  "revokeKey h env i cache st = (case kr_MarkRevoked (ak_registry h) st i (ae_clk env 0) of
     (Inl e, st') \<Rightarrow> (Inl (StoreErr e), cache, st')
   | (Inr jti, st') \<Rightarrow> (Inr jti, map_option (Hydrate (ae_clk env 1) jti) cache, st'))"

definition deleteKey :: "('st, 'key, 'pub, 'set, 'tok) AdminKeys \<Rightarrow> caller \<Rightarrow> AdminEnv \<Rightarrow> string \<Rightarrow> DenylistCache option \<Rightarrow> 'st
    \<Rightarrow> (AdminError + nat) \<times> AuditLine \<times> DenylistCache option \<times> 'st" where
  "deleteKey h c env i cache st = (case revokeKey h env i cache st of (res, cache', st') \<Rightarrow>
     let bare = (newKey \<lparr>cb_Namespace = [], cb_Role = [], cb_Owner = [], cb_ExpiresAt = None\<rparr>)
                  \<lparr>ik_ID := i, ik_JTI := (case res of Inr jti \<Rightarrow> jti | Inl _ \<Rightarrow> [])\<rparr>;
         row = (case res of Inl _ \<Rightarrow> bare | Inr _ \<Rightarrow> (case kr_ByID (ak_registry h) st' i of Inr got \<Rightarrow> got | Inl _ \<Rightarrow> bare))
     in ((case res of Inr _ \<Rightarrow> Inr 204
          | Inl (StoreErr ErrIntegrationKeyNotFound) \<Rightarrow> Inl (StatusErr 404 ''integration key not found'')
          | Inl _ \<Rightarrow> Inl (InternalErr ''admin: revoke integration key'')),
         \<lparr>au_action = ''revoke'', au_outcome = auditOutcome (errOf res), au_key = row, au_caller = c\<rparr>, cache', st'))"

section \<open>Sessions\<close>

record 'st SessionStore =
  ss_List :: "'st \<Rightarrow> RefreshSessionFilter \<Rightarrow> Time \<Rightarrow> StoreError + RefreshSession list"
  ss_RevokeFamily :: "'st \<Rightarrow> string \<Rightarrow> Time \<Rightarrow> (StoreError + nat) \<times> 'st"
  ss_RevokeEmail :: "'st \<Rightarrow> string \<Rightarrow> Time \<Rightarrow> (StoreError + nat) \<times> 'st"
  ss_RevokeSubject :: "'st \<Rightarrow> string \<Rightarrow> string \<Rightarrow> Time \<Rightarrow> (StoreError + nat) \<times> 'st"

definition sqliteSessionStore :: "Store SessionStore" where
  "sqliteSessionStore = \<lparr>ss_List = (\<lambda>s f now. Inr (ListRefreshSessions s f now)), ss_RevokeFamily = RevokeRefreshFamily,
     ss_RevokeEmail = (\<lambda>s email at. case RevokeRefreshByEmail s email at of (n, s') \<Rightarrow> (Inr n, s')),
     ss_RevokeSubject = (\<lambda>s cid sub at. case RevokeRefreshBySubject s cid sub at of (n, s') \<Rightarrow> (Inr n, s'))\<rparr>"

definition postgresSessionStore :: "PgStore SessionStore" where
  "postgresSessionStore = \<lparr>ss_List = (\<lambda>p f now. Inr (pg_ListRefreshSessions (pg_tables p) f now)), ss_RevokeFamily = pg_RevokeRefreshFamily,
     ss_RevokeEmail = (\<lambda>p email at. case pg_RevokeRefreshByEmail p email at of (n, p') \<Rightarrow> (Inr n, p')),
     ss_RevokeSubject = (\<lambda>p cid sub at. case pg_RevokeRefreshBySubject p cid sub at of (n, p') \<Rightarrow> (Inr n, p'))\<rparr>"

record sessionView =
  sv_FamilyID :: string
  sv_ClientID :: string
  sv_Email :: string
  sv_Subject :: string
  sv_Connector :: string
  sv_AuthTime :: Time
  sv_LastRotationAt :: Time
  sv_ExpiresAt :: Time

definition parseSubject :: "string \<Rightarrow> AdminError + string \<times> string" where
  "parseSubject s = (case ParseTokenSubject s of None \<Rightarrow> Inl (StatusErr 400 ''subject must be a token sub'') | Some p \<Rightarrow> Inr p)"

definition sessionViewOf :: "RefreshSession \<Rightarrow> sessionView" where
  "sessionViewOf r = \<lparr>sv_FamilyID = rs_FamilyID r, sv_ClientID = rs_ClientID r, sv_Email = rs_Email r,
     sv_Subject = TokenSubject (rs_ConnectorID r) (rs_Subject r), sv_Connector = rs_ConnectorID r, sv_AuthTime = rs_AuthTime r,
     sv_LastRotationAt = rs_RotatedAt r, sv_ExpiresAt = rs_ExpiresAt r\<rparr>"

definition listSessions :: "'st SessionStore \<Rightarrow> Time \<Rightarrow> string \<Rightarrow> string \<Rightarrow> 'st \<Rightarrow> AdminError + sessionView list" where
  "listSessions store now email subject st =
     (case (if subject = [] then Inr ([], []) else parseSubject subject) of
        Inl e \<Rightarrow> Inl e
      | Inr (cid, sub) \<Rightarrow> (case ss_List store st \<lparr>rf_Email = email, rf_ConnectorID = cid, rf_Subject = sub\<rparr> now of
          Inl e \<Rightarrow> Inl (InternalErr ''admin: list sessions'')
        | Inr rows \<Rightarrow> Inr (map sessionViewOf rows)))"

record sessionRevokeBody =
  rb_Email :: string
  rb_Subject :: string
  rb_FamilyID :: string

definition fromStore :: "(StoreError + nat) \<times> 'st \<Rightarrow> (AdminError + nat) \<times> 'st" where
  "fromStore r = (case r of (Inl e, st) \<Rightarrow> (Inl (StoreErr e), st) | (Inr n, st) \<Rightarrow> (Inr n, st))"

definition revokeBy :: "'st SessionStore \<Rightarrow> Time \<Rightarrow> sessionRevokeBody \<Rightarrow> 'st \<Rightarrow> (AdminError + nat) \<times> 'st" where
  "revokeBy store now b st =
     (if length (filter (\<lambda>v. v \<noteq> []) [rb_Email b, rb_Subject b, rb_FamilyID b]) \<noteq> 1
      then (Inl (StatusErr 400 ''exactly one of email, subject or family_id must be non-empty''), st)
      else if rb_Email b \<noteq> [] then fromStore (ss_RevokeEmail store st (rb_Email b) now)
      else if rb_Subject b \<noteq> [] then
        (case parseSubject (rb_Subject b) of Inl e \<Rightarrow> (Inl e, st)
         | Inr (cid, sub) \<Rightarrow> fromStore (ss_RevokeSubject store st cid sub now))
      else fromStore (ss_RevokeFamily store st (rb_FamilyID b) now))"

record SessionAudit =
  sa_outcome :: string
  sa_selector :: sessionRevokeBody
  sa_revoked :: nat
  sa_caller :: caller

definition revokeSessions :: "'st SessionStore \<Rightarrow> caller \<Rightarrow> Time \<Rightarrow> sessionRevokeBody \<Rightarrow> 'st
    \<Rightarrow> (AdminError + nat) \<times> SessionAudit \<times> 'st" where
  "revokeSessions store c now b st = (case revokeBy store now b st of (res, st') \<Rightarrow>
     ((case res of Inr n \<Rightarrow> Inr n
       | Inl (StoreErr ErrSessionNotFound) \<Rightarrow> Inl (StatusErr 404 ''session not found'')
       | Inl (StatusErr code d) \<Rightarrow> Inl (StatusErr code d)
       | Inl _ \<Rightarrow> Inl (InternalErr ''admin: revoke sessions'')),
      \<lparr>sa_outcome = auditOutcome (errOf res), sa_selector = b, sa_revoked = (case res of Inr n \<Rightarrow> n | Inl _ \<Rightarrow> 0), sa_caller = c\<rparr>, st'))"

section \<open>Signing keys\<close>

record signingKeyView =
  sk_Kid :: string
  sk_Alg :: string
  sk_CreatedAt :: Time
  sk_RetiredAt :: "Time option"
  sk_Active :: bool
  sk_ActivatesAt :: "Time option"

definition signingKeyViewOf :: "Keypair \<Rightarrow> bool \<Rightarrow> signingKeyView" where
  "signingKeyViewOf kp active = \<lparr>sk_Kid = kp_Kid kp, sk_Alg = kp_Alg kp, sk_CreatedAt = kp_CreatedAt kp, sk_RetiredAt = kp_RetiredAt kp,
     sk_Active = active, sk_ActivatesAt = None\<rparr>"

definition listSigningKeys :: "'st KeyStore \<Rightarrow> Time \<Rightarrow> Keys \<Rightarrow> 'st \<Rightarrow> (AdminError + signingKeyView list) \<times> Keys" where
  "listSigningKeys ops now k st = (case Statuses ops now k st of
     (Inl e, k') \<Rightarrow> (Inl (InternalErr ''admin: list signing keys''), k')
   | (Inr sts, k') \<Rightarrow> (Inr (map (\<lambda>s. (signingKeyViewOf (st_Keypair s) (st_Signing s))\<lparr>sk_ActivatesAt := st_ActivatesAt s\<rparr>) sts), k'))"

record RetireAudit =
  ra_outcome :: string
  ra_kid :: string
  ra_force :: bool
  ra_caller :: caller

definition retireOutcome :: "KeyError + Keypair \<Rightarrow> string" where
  "retireOutcome res = (case res of Inr _ \<Rightarrow> ''success''
     | Inl (ErrKeyStore ErrKeypairNotFound) \<Rightarrow> ''not_found''
     | Inl (ErrKeyStore ErrLastActiveKeypair) \<Rightarrow> ''conflict''
     | Inl (ErrReplacementPending _ _) \<Rightarrow> ''replacement_pending''
     | Inl _ \<Rightarrow> ''error'')"

definition retireSigningKey :: "'st KeyStore \<Rightarrow> caller \<Rightarrow> (nat \<Rightarrow> Time) \<Rightarrow> string \<Rightarrow> bool \<Rightarrow> Keys \<Rightarrow> 'st
    \<Rightarrow> (AdminError + signingKeyView) \<times> RetireAudit \<times> Keys \<times> 'st" where
  "retireSigningKey ops c clk kid force k st = (case Retire ops force clk kid k st of (res, k', st') \<Rightarrow>
     ((case res of Inr kp \<Rightarrow> Inr (signingKeyViewOf kp False)
       | Inl (ErrKeyStore ErrKeypairNotFound) \<Rightarrow> Inl (StatusErr 404 ''signing key not found'')
       | Inl (ErrKeyStore ErrLastActiveKeypair) \<Rightarrow> Inl (StatusErr 409 ''this is the only active signing key'')
       | Inl (ErrReplacementPending _ _) \<Rightarrow> Inl (StatusErr 409 ''the replacement signing key is still inside KEYS_PUBLISH_DELAY'')
       | Inl _ \<Rightarrow> Inl (InternalErr ''admin: retire signing key'')),
      \<lparr>ra_outcome = retireOutcome res, ra_kid = kid, ra_force = force, ra_caller = c\<rparr>, k', st'))"

end
