(* ===== verification/Admin_Sessions.thy ===== *)
theory Admin_Sessions
  imports Admin
begin

text \<open>
  Revoking sessions through the admin API. The \<^verbatim>\<open>SessionStore\<close> interface of src/admin/store.go and what its
  comment promises are the locale \<^verbatim>\<open>session_store\<close>, interpreted on both backends; PostgreSQL revokes whole
  families, SQLite the rows that match, and both satisfy it.
\<close>

section \<open>The contract\<close>

text \<open>The revocation of what \<^verbatim>\<open>sel\<close> selects: it ends every selected token, and touches only families with one.\<close>

definition revokesWhere :: "(Refresh \<Rightarrow> bool) \<Rightarrow> AbsTokens \<Rightarrow> AbsTokens \<Rightarrow> nat \<Rightarrow> bool" where
  "revokesWhere sel A A' n = (a_codes A' = a_codes A \<and> dom (a_refresh A') = dom (a_refresh A) \<and>
     (\<forall>h x. a_refresh A h = Some x \<longrightarrow> (\<exists>rv. a_refresh A' h = Some (x\<lparr>ab_revoked := rv\<rparr>) \<and> (ab_revoked x \<or> sel (ab_data x) \<longrightarrow> rv) \<and>
        (rv \<longrightarrow> ab_revoked x \<or> (\<exists>h' y. a_refresh A h' = Some y \<and> sel (ab_data y) \<and> rt_FamilyID (ab_data y) = rt_FamilyID (ab_data x))))) \<and>
     n = card (a_live A - a_live A'))"

lemma revokesWhere_row:
  assumes "revokesWhere sel A A' n" "a_refresh A h = Some x"
  obtains v where "a_refresh A' h = Some (x\<lparr>ab_revoked := v\<rparr>)" "ab_revoked x \<or> sel (ab_data x) \<longrightarrow> v"
    "v \<longrightarrow> ab_revoked x \<or> (\<exists>h' y. a_refresh A h' = Some y \<and> sel (ab_data y) \<and> rt_FamilyID (ab_data y) = rt_FamilyID (ab_data x))"
  using assms unfolding revokesWhere_def by blast

lemma revokesWhere_dom: "revokesWhere sel A A' n \<Longrightarrow> a_refresh A' h = Some x' \<Longrightarrow> \<exists>x. a_refresh A h = Some x"
  unfolding revokesWhere_def by blast

definition passesFilter :: "RefreshSessionFilter \<Rightarrow> Refresh \<Rightarrow> bool" where
  "passesFilter f r = ((rf_Email f = [] \<or> ToLower (rt_Email r) = ToLower (rf_Email f)) \<and>
     (rf_ConnectorID f = [] \<or> rt_ConnectorID r = rf_ConnectorID f) \<and> (rf_Subject f = [] \<or> rt_Subject r = rf_Subject f))"

locale session_store =
  fixes sops :: "'st SessionStore"
    and sinv :: "'st \<Rightarrow> bool"
    and sabs :: "'st \<Rightarrow> AbsTokens"
  assumes revoke_email: "sinv st \<Longrightarrow> ss_RevokeEmail sops st e at = (res, st') \<Longrightarrow> sinv st' \<and>
      ((\<exists>x. res = Inl (ErrStore x) \<and> sabs st' = sabs st) \<or> (\<exists>n. res = Inr n \<and> revokesWhere (\<lambda>r. ToLower (rt_Email r) = ToLower e) (sabs st) (sabs st') n))"
    and revoke_subject: "sinv st \<Longrightarrow> ss_RevokeSubject sops st cid sub at = (res, st') \<Longrightarrow> sinv st' \<and>
      ((\<exists>x. res = Inl (ErrStore x) \<and> sabs st' = sabs st) \<or> (\<exists>n. res = Inr n \<and> revokesWhere (\<lambda>r. rt_ConnectorID r = cid \<and> rt_Subject r = sub) (sabs st) (sabs st') n))"
    and revoke_session: "sinv st \<Longrightarrow> ss_RevokeFamily sops st F at = (res, st') \<Longrightarrow> sinv st' \<and>
      ((\<exists>x. res = Inl (ErrStore x) \<and> sabs st' = sabs st) \<or> (res = Inl ErrSessionNotFound \<and> a_family (sabs st) F = {} \<and> sabs st' = sabs st) \<or>
       (\<exists>n. res = Inr n \<and> revokesWhere (\<lambda>r. rt_FamilyID r = F) (sabs st) (sabs st') n))"
    and list_live: "sinv st \<Longrightarrow> ss_List sops st f now = Inr rows \<Longrightarrow> rs \<in> set rows \<Longrightarrow>
      \<exists>h x. a_refresh (sabs st) h = Some x \<and> \<not> ab_consumed x \<and> \<not> ab_revoked x \<and> now < rt_ExpiresAt (ab_data x) \<and> passesFilter f (ab_data x) \<and>
        rs_FamilyID rs = rt_FamilyID (ab_data x) \<and> rs_Email rs = rt_Email (ab_data x)"

section \<open>Both stores\<close>

text \<open>Stamping the unrevoked rows a predicate on their data selects.\<close>

definition stamped :: "(Refresh \<Rightarrow> bool) \<Rightarrow> Time \<Rightarrow> Store \<Rightarrow> Store" where
  "stamped P at s = s\<lparr>refresh_tokens := update_where (\<lambda>row. P (rr_data row) \<and> rr_revoked_at row = None) (stampRow at) (refresh_tokens s)\<rparr>"

lemma stampRow_hash [simp]: "rr_token_hash (stampRow at row) = rr_token_hash row" "rr_consumed_at (stampRow at row) = rr_consumed_at row"
  by (simp_all add: stampRow_def)

lemma stamped_wf: "wf_tokens s \<Longrightarrow> wf_tokens (stamped P at s)"
  by (simp add: stamped_def wf_tokens_def update_where_key)

lemma stamped_lookup:
  "a_refresh (abs_tokens (stamped P at s)) h =
     map_option (\<lambda>x. x\<lparr>ab_revoked := (ab_revoked x \<or> P (ab_data x))\<rparr>) (a_refresh (abs_tokens s) h)"
  by (cases "find (\<lambda>r. rr_token_hash r = h) (refresh_tokens s)") (auto simp: stamped_def find_update_where abs_refresh_def stampRow_def)

lemma stamped_count:
  assumes "wf_tokens s"
  shows "count_where (\<lambda>row. (P (rr_data row) \<and> rr_revoked_at row = None) \<and> rr_consumed_at row = None) (refresh_tokens s) =
    card (a_live (abs_tokens s) - a_live (abs_tokens (stamped P at s)))"
proof -
  have "{h. \<exists>r. find (\<lambda>r. rr_token_hash r = h) (refresh_tokens s) = Some r \<and> (P (rr_data r) \<and> rr_revoked_at r = None) \<and> rr_consumed_at r = None} =
      a_live (abs_tokens s) - a_live (abs_tokens (stamped P at s))"
    unfolding a_live_def stamped_lookup by auto
  then show ?thesis using assms by (simp add: count_where_card[of rr_token_hash] wf_tokens_def)
qed

lemma stamped_revokes:
  assumes "wf_tokens s" "\<And>row. row \<in> set (refresh_tokens s) \<Longrightarrow> sel (rr_data row) \<Longrightarrow> P (rr_data row)"
    "\<And>row. row \<in> set (refresh_tokens s) \<Longrightarrow> P (rr_data row) \<Longrightarrow> \<exists>row'\<in>set (refresh_tokens s). sel (rr_data row') \<and> rt_FamilyID (rr_data row') = rt_FamilyID (rr_data row)"
  shows "revokesWhere sel (abs_tokens s) (abs_tokens (stamped P at s))
    (count_where (\<lambda>row. (P (rr_data row) \<and> rr_revoked_at row = None) \<and> rr_consumed_at row = None) (refresh_tokens s))"
  unfolding revokesWhere_def
proof (intro conjI allI impI)
  show "a_codes (abs_tokens (stamped P at s)) = a_codes (abs_tokens s)" by (simp add: fun_eq_iff stamped_def)
  show "dom (a_refresh (abs_tokens (stamped P at s))) = dom (a_refresh (abs_tokens s))" unfolding dom_def stamped_lookup by auto
  fix h x assume x: "a_refresh (abs_tokens s) h = Some x"
  then obtain row where row: "row \<in> set (refresh_tokens s)" "x = abs_refresh row" using refresh_row[OF assms(1)] by auto
  have "\<exists>h' y. a_refresh (abs_tokens s) h' = Some y \<and> sel (ab_data y) \<and> rt_FamilyID (ab_data y) = rt_FamilyID (ab_data x)" if "P (ab_data x)"
    using assms(3)[OF row(1)] that row(2) refresh_row[OF assms(1)] by (metis abs_refresh_simps(1))
  then show "\<exists>rv. a_refresh (abs_tokens (stamped P at s)) h = Some (x\<lparr>ab_revoked := rv\<rparr>) \<and> (ab_revoked x \<or> sel (ab_data x) \<longrightarrow> rv) \<and>
        (rv \<longrightarrow> ab_revoked x \<or> (\<exists>h' y. a_refresh (abs_tokens s) h' = Some y \<and> sel (ab_data y) \<and> rt_FamilyID (ab_data y) = rt_FamilyID (ab_data x)))"
    using assms(2)[OF row(1)] row(2) unfolding stamped_lookup x by (intro exI[of _ "ab_revoked x \<or> P (ab_data x)"]) auto
qed (rule stamped_count[OF assms(1)])

lemma revokeRefresh_stamped:
  "revokeRefresh sel s at = (count_where (\<lambda>row. (sel (rr_data row) \<and> rr_revoked_at row = None) \<and> rr_consumed_at row = None) (refresh_tokens s), stamped sel at s)"
  by (simp add: revokeRefresh_def Let_def stamped_def stampRow_def[abs_def])

lemma revokeRefresh_revokes:
  assumes "wf_tokens s" "revokeRefresh sel s at = (n, s')"
  shows "wf_tokens s' \<and> revokesWhere sel (abs_tokens s) (abs_tokens s') n"
  using assms stamped_wf stamped_revokes[OF assms(1), of sel sel at] by (auto simp: revokeRefresh_stamped)

lemma passes_listed:
  assumes "wf_tokens s" "row \<in> set (refresh_tokens s)" "rr_consumed_at row = None" "rr_revoked_at row = None" "now < rt_ExpiresAt (rr_data row)"
    "passesFilter f (rr_data row)" "rs = refreshSession row"
  shows "\<exists>h x. a_refresh (abs_tokens s) h = Some x \<and> \<not> ab_consumed x \<and> \<not> ab_revoked x \<and> now < rt_ExpiresAt (ab_data x) \<and> passesFilter f (ab_data x) \<and>
        rs_FamilyID rs = rt_FamilyID (ab_data x) \<and> rs_Email rs = rt_Email (ab_data x)"
proof -
  have "a_refresh (abs_tokens s) (rr_token_hash row) = Some (abs_refresh row)" using refresh_row[OF assms(1)] assms(2) by blast
  then show ?thesis using assms by (intro exI[of _ "rr_token_hash row"] exI[of _ "abs_refresh row"]) (simp add: refreshSession_def Let_def)
qed

lemma list_rows:
  assumes "rs \<in> set (ListRefreshSessions s f now) \<or> rs \<in> set (pg_ListRefreshSessions s f now)"
  obtains row where "row \<in> set (refresh_tokens s)" "rr_consumed_at row = None" "rr_revoked_at row = None" "now < rt_ExpiresAt (rr_data row)"
    "passesFilter f (rr_data row)" "rs = refreshSession row"
proof -
  have e: "rs_ExpiresAt (refreshSession row) = rt_ExpiresAt (rr_data row)" for row by (simp add: refreshSession_def Let_def)
  from assms that show thesis
    by (auto simp: ListRefreshSessions_def pg_ListRefreshSessions_def Let_def passesFilter_def e)
qed

interpretation sqlite_sessions: session_store sqliteSessionStore wf_tokens abs_tokens
proof
  fix s F at res s' assume a: "wf_tokens s" "ss_RevokeFamily sqliteSessionStore s F at = (res, s')"
  show "wf_tokens s' \<and> ((\<exists>x. res = Inl (ErrStore x) \<and> abs_tokens s' = abs_tokens s) \<or> (res = Inl ErrSessionNotFound \<and> a_family (abs_tokens s) F = {} \<and> abs_tokens s' = abs_tokens s) \<or>
       (\<exists>n. res = Inr n \<and> revokesWhere (\<lambda>r. rt_FamilyID r = F) (abs_tokens s) (abs_tokens s') n))"
  proof (cases "F \<in> familyIDs s")
    case False
    then have "a_family (abs_tokens s) F = {}" using abs_family_empty[OF a(1)] by (auto simp: familyIDs_def)
    then show ?thesis using a False by (simp add: sqliteSessionStore_def RevokeRefreshFamily_eq)
  next
    case True
    then show ?thesis using a revokeRefresh_revokes[OF a(1), of "\<lambda>r. rt_FamilyID r = F" at]
      by (auto simp: sqliteSessionStore_def RevokeRefreshFamily_eq split: prod.splits)
  qed
next
  fix s f now rows rs assume wf: "wf_tokens s" and "ss_List sqliteSessionStore s f now = Inr rows" "rs \<in> set rows"
  then have "rs \<in> set (ListRefreshSessions s f now)" by (simp add: sqliteSessionStore_def)
  then obtain row where "row \<in> set (refresh_tokens s)" "rr_consumed_at row = None" "rr_revoked_at row = None" "now < rt_ExpiresAt (rr_data row)"
    "passesFilter f (rr_data row)" "rs = refreshSession row" using list_rows[of rs s f now] by blast
  then show "\<exists>h x. a_refresh (abs_tokens s) h = Some x \<and> \<not> ab_consumed x \<and> \<not> ab_revoked x \<and> now < rt_ExpiresAt (ab_data x) \<and> passesFilter f (ab_data x) \<and>
        rs_FamilyID rs = rt_FamilyID (ab_data x) \<and> rs_Email rs = rt_Email (ab_data x)"
    by (rule passes_listed[OF wf])
qed (auto simp: sqliteSessionStore_def RevokeRefreshByEmail_def RevokeRefreshBySubject_def dest: revokeRefresh_revokes split: prod.splits)

text \<open>PostgreSQL stamps the families that have a selected row.\<close>

lemma revokeFamiliesWhere_revokes:
  assumes "wf_pg p" "revokeFamiliesWhere sel p at = (n, p')"
  shows "wf_pg p' \<and> revokesWhere sel (abs_pg p) (abs_pg p') n"
proof -
  define F where "F = (\<lambda>row. rt_FamilyID (rr_data row)) ` {row \<in> set (refresh_tokens (pg_tables p)). sel (rr_data row)}"
  let ?s = "pg_tables p" and ?P = "\<lambda>r. rt_FamilyID r \<in> F"
  have wf: "wf_tokens ?s" and fam: "fam_family_id ` set (refresh_families p) = familyIDs ?s"
    using assms(1) by (simp_all add: wf_pg_def wf_families_def)
  have image: "X \<subseteq> f ` S \<Longrightarrow> f ` {x \<in> S. f x \<in> X} = X" for f :: "FamilyRow \<Rightarrow> string" and X S by blast
  have "F \<subseteq> fam_family_id ` set (refresh_families p)" unfolding fam familyIDs_def F_def by auto
  then have "fam_family_id ` {f \<in> set (refresh_families p). fam_family_id f \<in> F} = F" by (rule image)
  then have "n = count_where (\<lambda>row. (?P (rr_data row) \<and> rr_revoked_at row = None) \<and> rr_consumed_at row = None) (refresh_tokens ?s)"
    "pg_tables p' = stamped ?P at ?s"
    using assms(2) by (auto simp: revokeFamiliesWhere_def Let_def revokeTokens_eq stamped_def F_def)
  moreover have "revokesWhere sel (abs_tokens ?s) (abs_tokens (stamped ?P at ?s))
      (count_where (\<lambda>row. (?P (rr_data row) \<and> rr_revoked_at row = None) \<and> rr_consumed_at row = None) (refresh_tokens ?s))"
    by (rule stamped_revokes[OF wf]) (auto simp: F_def)
  ultimately show ?thesis using revokeFamiliesWhere_wf[OF assms(1), of sel at] assms(2) by (simp add: abs_pg_def)
qed

interpretation postgres_sessions: session_store postgresSessionStore wf_pg abs_pg
proof
  fix p F at res p' assume a: "wf_pg p" "ss_RevokeFamily postgresSessionStore p F at = (res, p')"
  then have wf: "wf_tokens (pg_tables p)" and fam: "wf_families p" by (simp_all add: wf_pg_def)
  have "res = fst (RevokeRefreshFamily (pg_tables p) F at)" "pg_tables p' = snd (RevokeRefreshFamily (pg_tables p) F at)"
    using pg_RevokeRefreshFamily_eq[OF fam, of F at] a(2) by (simp_all add: postgresSessionStore_def)
  then have "ss_RevokeFamily sqliteSessionStore (pg_tables p) F at = (res, pg_tables p')" by (simp add: sqliteSessionStore_def)
  moreover have "wf_pg p'" using postgres.revoke_family[OF a(1), of F at res p'] a(2) by (simp add: postgresSessionStore_def)
  ultimately show "wf_pg p' \<and> ((\<exists>x. res = Inl (ErrStore x) \<and> abs_pg p' = abs_pg p) \<or> (res = Inl ErrSessionNotFound \<and> a_family (abs_pg p) F = {} \<and> abs_pg p' = abs_pg p) \<or>
       (\<exists>n. res = Inr n \<and> revokesWhere (\<lambda>r. rt_FamilyID r = F) (abs_pg p) (abs_pg p') n))"
    using sqlite_sessions.revoke_session[OF wf] unfolding abs_pg_def by blast
next
  fix p f now rows rs assume wf: "wf_pg p" and "ss_List postgresSessionStore p f now = Inr rows" "rs \<in> set rows"
  then have "rs \<in> set (pg_ListRefreshSessions (pg_tables p) f now)" by (simp add: postgresSessionStore_def)
  then obtain row where "row \<in> set (refresh_tokens (pg_tables p))" "rr_consumed_at row = None" "rr_revoked_at row = None" "now < rt_ExpiresAt (rr_data row)"
    "passesFilter f (rr_data row)" "rs = refreshSession row" using list_rows[of rs "pg_tables p" f now] by blast
  then show "\<exists>h x. a_refresh (abs_pg p) h = Some x \<and> \<not> ab_consumed x \<and> \<not> ab_revoked x \<and> now < rt_ExpiresAt (ab_data x) \<and> passesFilter f (ab_data x) \<and>
        rs_FamilyID rs = rt_FamilyID (ab_data x) \<and> rs_Email rs = rt_Email (ab_data x)"
    using wf unfolding abs_pg_def wf_pg_def by (intro passes_listed) blast+
qed (auto simp: postgresSessionStore_def pg_RevokeRefreshByEmail_def pg_RevokeRefreshBySubject_def dest: revokeFamiliesWhere_revokes split: prod.splits)

section \<open>Revoking by a selector\<close>

definition selects :: "sessionRevokeBody \<Rightarrow> Refresh \<Rightarrow> bool" where
  "selects b r = (if rb_Email b \<noteq> [] then ToLower (rt_Email r) = ToLower (rb_Email b)
     else if rb_Subject b \<noteq> [] then ParseTokenSubject (rb_Subject b) = Some (rt_ConnectorID r, rt_Subject r)
     else rt_FamilyID r = rb_FamilyID b)"

context session_store
begin

lemma revokeSessions_revokes:
  assumes "sinv st" "revokeSessions sops c now b st = (Inr n, a, st')"
  shows "sinv st' \<and> revokesWhere (selects b) (sabs st) (sabs st') n \<and> sa_revoked a = n"
proof -
  from assms(2) obtain r where r: "revokeBy sops now b st = (r, st')" "r = Inr n" and a: "sa_revoked a = n"
    by (auto simp: revokeSessions_def split: prod.splits sum.splits AdminError.splits StoreError.splits)
  show ?thesis
  proof (cases "rb_Email b \<noteq> []")
    case True
    then have "ss_RevokeEmail sops st (rb_Email b) now = (Inr n, st')"
      using r by (auto simp: revokeBy_def fromStore_def split: if_splits prod.splits sum.splits)
    from revoke_email[OF assms(1) this] show ?thesis using True a by (auto simp: selects_def[abs_def])
  next
    case False
    show ?thesis
    proof (cases "rb_Subject b \<noteq> []")
      case True
      with False r obtain cid sub where ps: "ParseTokenSubject (rb_Subject b) = Some (cid, sub)" "ss_RevokeSubject sops st cid sub now = (Inr n, st')"
        by (auto simp: revokeBy_def fromStore_def parseSubject_def split: if_splits prod.splits sum.splits option.splits)
      have "selects b = (\<lambda>r. rt_ConnectorID r = cid \<and> rt_Subject r = sub)" using True False ps(1) by (auto simp: selects_def fun_eq_iff)
      then show ?thesis using revoke_subject[OF assms(1) ps(2)] a by auto
    next
      case no: False
      then have "ss_RevokeFamily sops st (rb_FamilyID b) now = (Inr n, st')"
        using r False by (auto simp: revokeBy_def fromStore_def split: if_splits prod.splits sum.splits)
      from revoke_session[OF assms(1) this] show ?thesis using no False a by (auto simp: selects_def[abs_def])
    qed
  qed
qed

end

context oidc_store
begin

lemma serve_spent:
  assumes "inv st" "dinv st" "tk_store t = ops" "tk_devices t \<in> {None, Some dops}" "spent (abs st) (Hash token)"
  shows "accepted (presents grantRefreshToken ''refresh_token'' token) qs (fst (serve t qs sg st)) = 0"
proof -
  have "accepted (presents grantRefreshToken ''refresh_token'' token) qs (fst (serve t qs sg st)) \<le> (if spent (abs st) (Hash token) then 0 else 1)"
  proof (rule serve_once[where P = "\<lambda>st. spent (abs st) (Hash token)", OF _ _ assms(3,4,1,2)])
    fix q :: TokenReq and sg st r sg' st' assume "inv st" "dinv st" "dispatch t (tr_env q) (tr_form q) (tr_auth q) sg st = (Inr r, sg', st')"
      "presents grantRefreshToken ''refresh_token'' token q"
    then show "\<not> spent (abs st) (Hash token) \<and> spent (abs st') (Hash token)"
      using refreshGrant_spends[OF _ assms(3)] dispatch_ok[of t "tr_env q" "tr_form q" "tr_auth q" sg st r sg' st'] unfolding presents_def by fastforce
  qed (use dispatch_keeps[OF _ _ assms(3,4)] spent_advances in blast)
  then show ?thesis using assms(5) by simp
qed

end

lemma sessions_devices: "wf_devices (snd (snd (revokeSessions sqliteSessionStore c now b st))) = wf_devices st"
  by (auto simp: revokeSessions_def revokeBy_def fromStore_def sqliteSessionStore_def RevokeRefreshByEmail_def RevokeRefreshBySubject_def
      RevokeRefreshFamily_def revokeRefresh_def Let_def split: prod.splits sum.splits)

lemma revoked_token:
  assumes "wf_tokens st" "revokesWhere sel (abs_tokens st) (abs_tokens st') n" "row \<in> set (refresh_tokens st)" "sel (rr_data row)"
  shows "\<exists>x. a_refresh (abs_tokens st') (rr_token_hash row) = Some x \<and> ab_revoked x \<and> ab_data x = rr_data row"
proof -
  have "a_refresh (abs_tokens st) (rr_token_hash row) = Some (abs_refresh row)" using refresh_row[OF assms(1)] assms(3) by blast
  from revokesWhere_row[OF assms(2) this] assms(4) show ?thesis by (metis AbsRefresh.select_convs(1,3) AbsRefresh.update_convs(3) AbsRefresh.surjective abs_refresh_simps(1))
qed



end
