(* ===== verification/Ratelimit.thy ===== *)
theory Ratelimit
  imports Go_Prelude Complex_Main
begin

text \<open>
  The in-process token-bucket limiter (src/ratelimit/ratelimit.go). The list of buckets, most recently
  used first, is both the LRU order and the map: the code keeps one list element per key. Token counts
  are float64 in the code and exact rationals here. \<^verbatim>\<open>ClientKey\<close>, which only parses an address, is not
  modelled.
\<close>

section \<open>State\<close>

record bucket =
  bk_key :: string
  bk_tokens :: rat
  bk_last :: Time

record Limiter =
  lm_burst :: rat
  lm_rate :: rat
  lm_maxKeys :: nat
  lm_order :: "bucket list"

definition seconds :: "Duration \<Rightarrow> rat" where
  "seconds d = of_int d / of_int Second"

definition WithLimit :: "int \<Rightarrow> Duration \<Rightarrow> Limiter \<Rightarrow> Limiter" where
  "WithLimit n per l = (if 0 < n \<and> 0 < per then l\<lparr>lm_burst := of_int n, lm_rate := of_int n / seconds per\<rparr> else l)"

definition WithMaxKeys :: "int \<Rightarrow> Limiter \<Rightarrow> Limiter" where
  "WithMaxKeys n l = (if 0 < n then l\<lparr>lm_maxKeys := nat n\<rparr> else l)"

definition NewLimiter :: "(Limiter \<Rightarrow> Limiter) list \<Rightarrow> Limiter" where
  "NewLimiter opts = foldl (\<lambda>l f. f l) (WithLimit 10 Minute \<lparr>lm_burst = 0, lm_rate = 0, lm_maxKeys = 10000, lm_order = []\<rparr>) opts"

section \<open>Operations\<close>

text \<open>The loop that drops the least recently used buckets until one more fits.\<close>

function evictOldest :: "nat \<Rightarrow> bucket list \<Rightarrow> bucket list" where
  "evictOldest maxKeys order = (if maxKeys \<le> length order \<and> order \<noteq> [] then evictOldest maxKeys (butlast order) else order)"
  by auto
termination by (relation "measure (length \<circ> snd)") auto

declare evictOldest.simps [simp del]

text \<open>The bucket of \<^verbatim>\<open>key\<close> refilled to \<^verbatim>\<open>now\<close>, moved to or created at the front.\<close>

definition bucketFor :: "Time \<Rightarrow> string \<Rightarrow> Limiter \<Rightarrow> bucket list" where
  "bucketFor now key l = (case find (\<lambda>b. bk_key b = key) (lm_order l) of
     Some b \<Rightarrow>
       let elapsed = seconds (now - bk_last b);
           tokens = (if 0 < elapsed then min (bk_tokens b + elapsed * lm_rate l) (lm_burst l) else bk_tokens b)
       in b\<lparr>bk_tokens := tokens, bk_last := now\<rparr> # filter (\<lambda>b. bk_key b \<noteq> key) (lm_order l)
   | None \<Rightarrow> \<lparr>bk_key = key, bk_tokens = lm_burst l, bk_last = now\<rparr> # evictOldest (lm_maxKeys l) (lm_order l))"

definition Allow :: "Time \<Rightarrow> string \<Rightarrow> Limiter \<Rightarrow> bool \<times> Limiter" where
  "Allow now key l = (let order = bucketFor now key l; b = hd order in
     if bk_tokens b < 1 then (False, l\<lparr>lm_order := order\<rparr>)
     else (True, l\<lparr>lm_order := b\<lparr>bk_tokens := bk_tokens b - 1\<rparr> # tl order\<rparr>))"

definition Refund :: "string \<Rightarrow> Limiter \<Rightarrow> Limiter" where
  "Refund key l = l\<lparr>lm_order := map (\<lambda>b. if bk_key b = key then b\<lparr>bk_tokens := min (bk_tokens b + 1) (lm_burst l)\<rparr> else b) (lm_order l)\<rparr>"

definition Len :: "Limiter \<Rightarrow> nat" where
  "Len l = length (lm_order l)"

section \<open>Runs\<close>

datatype Attempt = AttemptAllow string | AttemptRefund string

text \<open>A run at given times, with the attempts it allowed for \<^verbatim>\<open>key\<close>.\<close>

fun runLimiter :: "string \<Rightarrow> (Time \<times> Attempt) list \<Rightarrow> Limiter \<Rightarrow> nat \<times> Limiter" where
  "runLimiter key [] l = (0, l)"
| "runLimiter key ((t, AttemptAllow k) # es) l =
     (case Allow t k l of (ok, l') \<Rightarrow> (case runLimiter key es l' of (n, l'') \<Rightarrow> (if ok \<and> k = key then Suc n else n, l'')))"
| "runLimiter key ((t, AttemptRefund k) # es) l = runLimiter key es (Refund k l)"

fun refunds :: "string \<Rightarrow> (Time \<times> Attempt) list \<Rightarrow> nat" where
  "refunds key [] = 0"
| "refunds key ((t, AttemptAllow k) # es) = refunds key es"
| "refunds key ((t, AttemptRefund k) # es) = (if k = key then Suc (refunds key es) else refunds key es)"

fun attemptKeys :: "(Time \<times> Attempt) list \<Rightarrow> string set" where
  "attemptKeys [] = {}"
| "attemptKeys ((t, AttemptAllow k) # es) = insert k (attemptKeys es)"
| "attemptKeys ((t, AttemptRefund k) # es) = attemptKeys es"

section \<open>Lemmas\<close>

definition limiter_wf :: "Limiter \<Rightarrow> bool" where
  "limiter_wf l = (1 \<le> lm_burst l \<and> 0 \<le> lm_rate l \<and> 0 < lm_maxKeys l \<and> distinct (map bk_key (lm_order l)) \<and>
     length (lm_order l) \<le> lm_maxKeys l \<and> (\<forall>b\<in>set (lm_order l). 0 \<le> bk_tokens b \<and> bk_tokens b \<le> lm_burst l))"

lemma seconds_nonneg: "0 \<le> d \<Longrightarrow> 0 \<le> seconds d"
  by (simp add: seconds_def Second_def)

lemma seconds_diff: "seconds (c - a) = seconds (c - b) + seconds (b - a)"
  by (simp add: seconds_def Second_def diff_divide_distrib)

lemma evictOldest_take: "0 < n \<Longrightarrow> evictOldest n order = take (n - 1) order \<or> (length order < n \<and> evictOldest n order = order)"
proof (induction n order rule: evictOldest.induct)
  case (1 n order)
  show ?case
  proof (cases "n \<le> length order \<and> order \<noteq> []")
    case True
    then have e: "evictOldest n order = evictOldest n (butlast order)" by (subst evictOldest.simps) simp
    have "evictOldest n (butlast order) = take (n - 1) (butlast order) \<or> (length (butlast order) < n \<and> evictOldest n (butlast order) = butlast order)"
      using 1 True by blast
    moreover have "take (n - 1) (butlast order) = take (n - 1) order" using True by (auto simp: butlast_conv_take min_def)
    moreover have "butlast order = take (n - 1) order" if "length (butlast order) < n"
    proof -
      have "length order - 1 = n - 1" using that True by auto
      then show ?thesis by (simp add: butlast_conv_take)
    qed
    ultimately show ?thesis unfolding e by auto
  next
    case False
    then show ?thesis using 1(2) by (subst evictOldest.simps, subst (2) evictOldest.simps) auto
  qed
qed

lemma evictOldest_wf:
  assumes "0 < n"
  shows "length (evictOldest n order) < n" "set (evictOldest n order) \<subseteq> set order" "distinct (map f order) \<Longrightarrow> distinct (map f (evictOldest n order))"
  using evictOldest_take[OF assms, of order] assms by (auto simp: take_map[symmetric] dest: in_set_takeD)

lemma evictOldest_room: "length order < n \<Longrightarrow> evictOldest n order = order"
  by (subst evictOldest.simps) simp

lemma bucketFor_wf:
  assumes "limiter_wf l"
  shows "limiter_wf (l\<lparr>lm_order := bucketFor now key l\<rparr>) \<and> bucketFor now key l \<noteq> [] \<and> bk_key (hd (bucketFor now key l)) = key"
proof (cases "find (\<lambda>b. bk_key b = key) (lm_order l)")
  case None
  then have "key \<notin> bk_key ` set (lm_order l)" by (auto simp: find_None_iff)
  then show ?thesis using None assms evictOldest_wf(1,2)[of "lm_maxKeys l" "lm_order l"] evictOldest_wf(3)[of "lm_maxKeys l" bk_key "lm_order l"]
    by (auto simp: bucketFor_def limiter_wf_def Suc_le_eq)
next
  case (Some b)
  then have b: "b \<in> set (lm_order l)" "bk_key b = key" by (auto dest: find_SomeD)
  have "length (filter (\<lambda>b. bk_key b \<noteq> key) (lm_order l)) < length (lm_order l)" by (rule length_filter_less[OF b(1)]) (simp add: b)
  moreover have "0 \<le> bk_tokens b + seconds d * lm_rate l" if "0 < seconds d" for d
    using assms b that by (simp add: limiter_wf_def)
  ultimately show ?thesis using Some assms b
    by (auto simp: bucketFor_def limiter_wf_def Let_def distinct_map_filter Suc_le_eq)
qed

lemma Allow_wf: assumes "limiter_wf l" shows "limiter_wf (snd (Allow now key l))"
proof -
  obtain b bs where b: "bucketFor now key l = b # bs" using bucketFor_wf[OF assms, of now key] by (cases "bucketFor now key l") auto
  then have "limiter_wf (l\<lparr>lm_order := b # bs\<rparr>)" using bucketFor_wf[OF assms, of now key] by simp
  then show ?thesis using b by (auto simp: Allow_def Let_def limiter_wf_def)
qed

lemma Refund_keys [simp]: "map bk_key (lm_order (Refund key l)) = map bk_key (lm_order l)"
  by (simp add: Refund_def)

lemma Refund_wf: "limiter_wf l \<Longrightarrow> limiter_wf (Refund key l)"
proof -
  assume a: "limiter_wf l"
  have "length (lm_order (Refund key l)) = length (lm_order l)" by (simp add: Refund_def)
  moreover have "distinct (map bk_key (lm_order (Refund key l)))" using a by (simp only: Refund_keys limiter_wf_def)
  moreover have "\<forall>b\<in>set (lm_order (Refund key l)). 0 \<le> bk_tokens b \<and> bk_tokens b \<le> lm_burst l"
    using a by (auto simp: Refund_def limiter_wf_def)
  moreover have "lm_burst (Refund key l) = lm_burst l" "lm_rate (Refund key l) = lm_rate l" "lm_maxKeys (Refund key l) = lm_maxKeys l"
    by (simp_all add: Refund_def)
  ultimately show ?thesis using a unfolding limiter_wf_def by simp
qed

text \<open>The bucket of a key, and how an operation changes it.\<close>

definition tracked :: "string \<Rightarrow> Limiter \<Rightarrow> bucket option" where
  "tracked key l = find (\<lambda>b. bk_key b = key) (lm_order l)"

lemma find_filter_other: "k \<noteq> key \<Longrightarrow> find (\<lambda>b. bk_key b = key) (filter (\<lambda>b. bk_key b \<noteq> k) bs) = find (\<lambda>b. bk_key b = key) bs"
  by (induction bs) auto

lemma Allow_params [simp]:
  "lm_burst (snd (Allow t k l)) = lm_burst l" "lm_rate (snd (Allow t k l)) = lm_rate l" "lm_maxKeys (snd (Allow t k l)) = lm_maxKeys l"
  "lm_burst (Refund k l) = lm_burst l" "lm_rate (Refund k l) = lm_rate l" "lm_maxKeys (Refund k l) = lm_maxKeys l"
  by (simp_all add: Allow_def Refund_def Let_def)

lemma tracked_None_iff: "tracked key l = None \<longleftrightarrow> key \<notin> bk_key ` set (lm_order l)"
  by (auto simp: tracked_def find_None_iff)

lemma tracked_Allow_other:
  assumes "k \<noteq> key" "tracked k l \<noteq> None \<or> length (lm_order l) < lm_maxKeys l"
  shows "tracked key (snd (Allow t k l)) = tracked key l"
proof (cases "tracked k l")
  case None
  then have "evictOldest (lm_maxKeys l) (lm_order l) = lm_order l" using assms evictOldest_room by blast
  then show ?thesis using None assms(1) by (simp add: tracked_def Allow_def bucketFor_def Let_def)
next
  case (Some b)
  then have "bk_key b = k" by (auto simp: tracked_def dest: find_SomeD)
  then show ?thesis using Some assms(1) by (simp add: tracked_def Allow_def bucketFor_def Let_def find_filter_other)
qed

lemma keys_Allow:
  assumes "tracked k l \<noteq> None \<or> length (lm_order l) < lm_maxKeys l"
  shows "bk_key ` set (lm_order (snd (Allow t k l))) = insert k (bk_key ` set (lm_order l))"
proof (cases "tracked k l")
  case None
  then have "evictOldest (lm_maxKeys l) (lm_order l) = lm_order l" using assms evictOldest_room by blast
  then show ?thesis using None by (simp add: tracked_def Allow_def bucketFor_def Let_def)
next
  case (Some b)
  then have "bk_key b = k" by (auto simp: tracked_def dest: find_SomeD)
  then show ?thesis using Some by (auto simp: tracked_def Allow_def bucketFor_def Let_def)
qed

lemma attemptKeys_finite [simp]: "finite (attemptKeys es)"
  by (induction es rule: attemptKeys.induct) auto

lemma Allow_room:
  assumes "limiter_wf l" "card (bk_key ` set (lm_order l) \<union> attemptKeys ((t, AttemptAllow k) # es)) \<le> lm_maxKeys l"
  shows "tracked k l \<noteq> None \<or> length (lm_order l) < lm_maxKeys l"
proof (cases "k \<in> bk_key ` set (lm_order l)")
  case False
  have "length (lm_order l) = card (bk_key ` set (lm_order l))"
    using assms(1) distinct_card[of "map bk_key (lm_order l)"] by (simp add: limiter_wf_def)
  also have "\<dots> < card (insert k (bk_key ` set (lm_order l)))" using False by simp
  also have "\<dots> \<le> card (bk_key ` set (lm_order l) \<union> attemptKeys ((t, AttemptAllow k) # es))" by (rule card_mono) auto
  finally show ?thesis using assms(2) by simp
qed (simp add: tracked_None_iff)

lemma keys_Refund [simp]: "bk_key ` set (lm_order (Refund k l)) = bk_key ` set (lm_order l)"
  using arg_cong[OF Refund_keys[of k l], of set] by (simp only: list.set_map)

lemma tracked_Refund:
  "tracked key (Refund k l) = map_option (\<lambda>b. if key = k then b\<lparr>bk_tokens := min (bk_tokens b + 1) (lm_burst l)\<rparr> else b) (tracked key l)"
proof -
  have "find (\<lambda>b. bk_key b = key) (map (\<lambda>b. if bk_key b = k then b\<lparr>bk_tokens := x b\<rparr> else b) bs)
      = map_option (\<lambda>b. if key = k then b\<lparr>bk_tokens := x b\<rparr> else b) (find (\<lambda>b. bk_key b = key) bs)" for bs x
    by (induction bs) auto
  then show ?thesis by (simp add: tracked_def Refund_def)
qed

text \<open>What \<^verbatim>\<open>key\<close> may still be allowed until \<^verbatim>\<open>tend\<close>.\<close>

definition budget :: "string \<Rightarrow> Limiter \<Rightarrow> Time \<Rightarrow> Time \<Rightarrow> rat" where
  "budget key l t0 tend = (case tracked key l of Some b \<Rightarrow> bk_tokens b + lm_rate l * seconds (tend - bk_last b)
     | None \<Rightarrow> lm_burst l + lm_rate l * seconds (tend - t0))"

lemma budget_Allow:
  assumes "limiter_wf l" "t0 \<le> t" "\<forall>b. tracked key l = Some b \<longrightarrow> bk_last b \<le> t0"
  shows "budget key (snd (Allow t key l)) t tend + (if fst (Allow t key l) then 1 else 0) \<le> budget key l t0 tend"
    "\<forall>b. tracked key (snd (Allow t key l)) = Some b \<longrightarrow> bk_last b \<le> t"
proof -
  have rate: "0 \<le> lm_rate l" using assms(1) by (simp add: limiter_wf_def)
  have m: "lm_rate l * seconds (tend - t) + lm_rate l * seconds (t - s) = lm_rate l * seconds (tend - s)" for s
    using seconds_diff[of tend s t] by (simp add: algebra_simps)
  have "budget key (snd (Allow t key l)) t tend + (if fst (Allow t key l) then 1 else 0) \<le> budget key l t0 tend \<and>
    (\<forall>b. tracked key (snd (Allow t key l)) = Some b \<longrightarrow> bk_last b \<le> t)"
  proof (cases "tracked key l")
    case None
    have "0 \<le> lm_rate l * seconds (t - t0)" using rate assms(2) by (simp add: seconds_nonneg)
    then show ?thesis using None m[of t0] by (simp add: budget_def tracked_def Allow_def bucketFor_def Let_def)
  next
    case (Some b)
    then have b: "bk_key b = key" "find (\<lambda>b. bk_key b = key) (lm_order l) = Some b" by (auto simp: tracked_def dest: find_SomeD)
    have "0 \<le> lm_rate l * seconds (t - bk_last b)" using rate assms(2,3) Some by (simp add: seconds_nonneg)
    then show ?thesis using Some b m[of "bk_last b"]
      by (auto simp: budget_def tracked_def Allow_def bucketFor_def Let_def min_def mult.commute)
  qed
  then show "budget key (snd (Allow t key l)) t tend + (if fst (Allow t key l) then 1 else 0) \<le> budget key l t0 tend"
    "\<forall>b. tracked key (snd (Allow t key l)) = Some b \<longrightarrow> bk_last b \<le> t" by blast+
qed

lemma budget_mono: "0 \<le> lm_rate l \<Longrightarrow> t0 \<le> t \<Longrightarrow> budget key l t tend \<le> budget key l t0 tend"
proof -
  assume a: "0 \<le> lm_rate l" "t0 \<le> t"
  have "seconds (tend - t) \<le> seconds (tend - t0)" using a(2) seconds_diff[of tend t0 t] seconds_nonneg[of "t - t0"] by simp
  then show ?thesis using a(1) by (auto simp: budget_def mult_left_mono split: option.splits)
qed

lemma runLimiter_budget:
  assumes "limiter_wf l" "sorted (map fst es)" "\<forall>e\<in>set es. t0 \<le> fst e \<and> fst e \<le> tend"
    "\<forall>b. tracked key l = Some b \<longrightarrow> bk_last b \<le> t0" "t0 \<le> tend"
    "card (bk_key ` set (lm_order l) \<union> attemptKeys es) \<le> lm_maxKeys l"
  shows "of_nat (fst (runLimiter key es l)) \<le> budget key l t0 tend + of_nat (refunds key es)"
  using assms
proof (induction key es l arbitrary: t0 rule: runLimiter.induct)
  case (1 key l)
  have "0 \<le> seconds (tend - s)" if "s \<le> tend" for s using that by (simp add: seconds_nonneg)
  then show ?case using 1
    by (fastforce simp: budget_def limiter_wf_def tracked_def dest: find_SomeD split: option.splits)
next
  case (2 key t k es l)
  obtain ok l' where A: "Allow t k l = (ok, l')" by (cases "Allow t k l")
  have t: "t0 \<le> t" "t \<le> tend" and es: "sorted (map fst es)" "\<forall>e\<in>set es. t \<le> fst e \<and> fst e \<le> tend" using 2(3,4) by auto
  have room: "tracked k l \<noteq> None \<or> length (lm_order l) < lm_maxKeys l"
    by (rule Allow_room[OF 2(2) 2(7)])
  have l': "limiter_wf l'" "lm_rate l' = lm_rate l" "lm_maxKeys l' = lm_maxKeys l" using Allow_wf[OF 2(2), of t k] Allow_params(1-3)[of t k l] A by auto
  have keys: "bk_key ` set (lm_order l') = insert k (bk_key ` set (lm_order l))" using keys_Allow[OF room, of t] A by simp
  have card: "card (bk_key ` set (lm_order l') \<union> attemptKeys es) \<le> lm_maxKeys l'" using 2(7) keys l' by (simp add: insert_commute)
  have rate: "0 \<le> lm_rate l'" using l'(1) by (simp add: limiter_wf_def)
  have step: "budget key l' t tend + (if ok \<and> k = key then 1 else 0) \<le> budget key l t0 tend \<and> (\<forall>b. tracked key l' = Some b \<longrightarrow> bk_last b \<le> t)"
  proof (cases "k = key")
    case True
    then show ?thesis using budget_Allow(1)[OF 2(2) t(1), of key tend] budget_Allow(2)[OF 2(2) t(1), of key] 2(5) A by simp
  next
    case False
    then have "tracked key l' = tracked key l" using tracked_Allow_other[OF False room, of t] A by simp
    then have "budget key l' t0 tend = budget key l t0 tend" "\<forall>b. tracked key l' = Some b \<longrightarrow> bk_last b \<le> t"
      using 2(5) t(1) l'(2) Allow_params(1)[of t k l] A by (auto simp: budget_def split: option.splits)
    then show ?thesis using budget_mono[OF rate t(1), of key tend] False by simp
  qed
  have "of_nat (fst (runLimiter key es l')) \<le> budget key l' t tend + of_nat (refunds key es)"
    using 2(1)[OF A[symmetric] l'(1) es _ t(2) card] step by blast
  then show ?case using A step by (auto split: prod.splits)
next
  case (3 key t k es l)
  have r: "budget key (Refund k l) t0 tend \<le> budget key l t0 tend + (if k = key then 1 else 0)"
    "\<forall>b. tracked key (Refund k l) = Some b \<longrightarrow> bk_last b \<le> t0"
    using 3(5) by (auto simp: budget_def tracked_Refund split: option.splits)
  have "of_nat (fst (runLimiter key es (Refund k l))) \<le> budget key (Refund k l) t0 tend + of_nat (refunds key es)"
    by (rule 3(1)) (use 3 r(2) Refund_wf in auto)
  then show ?case using r(1) by auto
qed

lemma runLimiter_wf: "limiter_wf l \<Longrightarrow> limiter_wf (snd (runLimiter key es l))"
proof (induction key es l rule: runLimiter.induct)
  case (2 key t k es l)
  then show ?case using Allow_wf[OF 2(2), of t k] by (cases "Allow t k l") (auto split: prod.splits)
qed (auto simp: Refund_wf)

lemma runLimiter_params:
  "lm_burst (snd (runLimiter key es l)) = lm_burst l \<and> lm_rate (snd (runLimiter key es l)) = lm_rate l \<and>
   lm_maxKeys (snd (runLimiter key es l)) = lm_maxKeys l"
proof (induction key es l rule: runLimiter.induct)
  case (2 key t k es l)
  then show ?case using Allow_params(1-3)[of t k l] by (cases "Allow t k l") (auto split: prod.splits)
qed simp_all

text \<open>A limiter as the program constructs it.\<close>

abbreviation "limiterOf n per m \<equiv> NewLimiter [WithLimit n per, WithMaxKeys m]"

lemma limiterOf_wf:
  assumes "0 < n" "0 < per" "0 < m"
  shows "limiter_wf (limiterOf n per m)" "lm_burst (limiterOf n per m) = of_int n"
    "lm_rate (limiterOf n per m) = of_int n / seconds per" "lm_maxKeys (limiterOf n per m) = nat m" "lm_order (limiterOf n per m) = []"
  using assms seconds_nonneg[of per] by (simp_all add: NewLimiter_def WithLimit_def WithMaxKeys_def limiter_wf_def)

section \<open>Properties\<close>





end
