(* ===== verification/Go_Url.thy ===== *)
theory Go_Url
  imports Go_Http "HOL-Library.List_Lexorder" "HOL-Library.Char_ord"
begin

text \<open>
  The part of \<^verbatim>\<open>net/url\<close> that the OIDC server relies on to read and rebuild URLs: \<^verbatim>\<open>Parse\<close> with its scheme,
  authority, host, path and fragment rules, \<^verbatim>\<open>URL.String\<close>, \<^verbatim>\<open>Hostname\<close>, \<^verbatim>\<open>Port\<close>, \<^verbatim>\<open>EscapedPath\<close>, and
  \<^verbatim>\<open>Values\<close> with \<^verbatim>\<open>Query\<close>, \<^verbatim>\<open>Set\<close> and \<^verbatim>\<open>Encode\<close>. An error of \<^verbatim>\<open>Parse\<close> is \<^const>\<open>None\<close>: no caller tells them apart.
\<close>

section \<open>Escaping\<close>

datatype encoding = encodePath | encodeHost | encodeZone | encodeUserPassword | encodeFragment

definition alnum :: "char \<Rightarrow> bool" where
  "alnum c = (let n = of_char c :: nat in (65 \<le> n \<and> n \<le> 90) \<or> (97 \<le> n \<and> n \<le> 122) \<or> (48 \<le> n \<and> n \<le> 57))"

definition shouldEscape :: "char \<Rightarrow> encoding \<Rightarrow> bool" where
  "shouldEscape c mode =
     (if alnum c then False
      else if (mode = encodeHost \<or> mode = encodeZone) \<and> (c \<in> set ''!$&()*+,;=:[]<>'' \<or> of_char c \<in> {34, 39 :: nat}) then False
      else if c \<in> set ''-_.~'' then False
      else if c \<in> set ''$&+,/:;=?@'' then
        (case mode of
           encodePath \<Rightarrow> c = CHR ''?''
         | encodeUserPassword \<Rightarrow> c \<in> set ''@/?:''
         | encodeFragment \<Rightarrow> False
         | _ \<Rightarrow> True)
      else if mode = encodeFragment \<and> c \<in> set ''!()*'' then False
      else True)"

definition pctEncode :: "char \<Rightarrow> string" where
  "pctEncode c = (let n = of_char c :: nat in [CHR ''%'', hexUpper (n div 16), hexUpper (n mod 16)])"

definition escape :: "encoding \<Rightarrow> string \<Rightarrow> string" where
  "escape mode s = concat (map (\<lambda>c. if shouldEscape c mode then pctEncode c else [c]) s)"

definition badEscape :: "encoding \<Rightarrow> nat \<Rightarrow> nat \<Rightarrow> bool" where
  "badEscape mode a b =
     (if mode = encodeHost then a < 8 \<and> (a, b) \<noteq> (2, 5)
      else if mode = encodeZone then (a, b) \<noteq> (2, 5) \<and> 16 * a + b \<noteq> 32 \<and> shouldEscape (char_of (16 * a + b)) encodeHost
      else False)"

fun unescape :: "encoding \<Rightarrow> string \<Rightarrow> string option" where
  "unescape mode [] = Some []"
| "unescape mode (c # s) =
     (if c = CHR ''%'' then
        (case s of
           h # l # r \<Rightarrow>
             (case (hexVal h, hexVal l) of
                (Some a, Some b) \<Rightarrow> if badEscape mode a b then None else map_option (\<lambda>t. char_of (16 * a + b) # t) (unescape mode r)
              | _ \<Rightarrow> None)
         | _ \<Rightarrow> None)
      else if (mode = encodeHost \<or> mode = encodeZone) \<and> (of_char c :: nat) < 128 \<and> shouldEscape c mode then None
      else map_option (\<lambda>t. c # t) (unescape mode s))"

definition validEncoded :: "string \<Rightarrow> encoding \<Rightarrow> bool" where
  "validEncoded s mode = list_all (\<lambda>c. c \<in> set ''!$&()*+,;=:@[]%'' \<or> of_char c = (39::nat) \<or> \<not> shouldEscape c mode) s"

section \<open>Hosts\<close>

definition isDigitByte :: "char \<Rightarrow> bool" where
  "isDigitByte c = (let n = of_char c :: nat in 48 \<le> n \<and> n \<le> 57)"

definition validOptionalPort :: "string \<Rightarrow> bool" where
  "validOptionalPort port = (case port of [] \<Rightarrow> True | c # ds \<Rightarrow> c = CHR '':'' \<and> list_all isDigitByte ds)"

text \<open>
  \<^verbatim>\<open>netip.ParseAddr\<close> as \<^verbatim>\<open>parseHost\<close> uses it: whether a string is an IPv6 address, possibly with a zone. The
  loop carries the number of bytes filled and whether an ellipsis was seen; each round takes at least one
  hex digit.
\<close>

definition decVal :: "string \<Rightarrow> nat" where
  "decVal ds = foldl (\<lambda>n c. 10 * n + (of_char c - 48)) 0 ds"

definition ipv4Field :: "string \<Rightarrow> bool" where
  "ipv4Field f = (f \<noteq> [] \<and> list_all isDigitByte f \<and> (length f = 1 \<or> f ! 0 \<noteq> CHR ''0'') \<and> length f \<le> 3 \<and> decVal f \<le> 255)"

definition parseIPv4Fields :: "string \<Rightarrow> bool" where
  "parseIPv4Fields s = (let fs = Split s (CHR ''.'') in length fs = 4 \<and> list_all ipv4Field fs)"

fun ipv6Loop :: "nat \<Rightarrow> nat \<Rightarrow> bool \<Rightarrow> string \<Rightarrow> (nat \<times> bool) option" where
  "ipv6Loop 0 i ell s = (if s = [] then Some (i, ell) else None)"
| "ipv6Loop (Suc k) i ell s =
     (if 16 \<le> i then (if s = [] then Some (i, ell) else None)
      else
        (let off = length (takeWhile (\<lambda>c. hexVal c \<noteq> None) s); r = drop off s in
         if off = 0 \<or> 4 < off then None
         else case r of
             [] \<Rightarrow> Some (i + 2, ell)
           | c # r1 \<Rightarrow>
               if c = CHR ''.'' then (if (\<not> ell \<and> i \<noteq> 12) \<or> 12 < i \<or> \<not> parseIPv4Fields s then None else Some (i + 4, ell))
               else if c \<noteq> CHR '':'' then None
               else case r1 of
                   [] \<Rightarrow> None
                 | d # r2 \<Rightarrow>
                     if d = CHR '':'' then (if ell then None else if r2 = [] then Some (i + 2, True) else ipv6Loop k (i + 2) True r2)
                     else ipv6Loop k (i + 2) ell r1))"

definition parseIPv6 :: "string \<Rightarrow> bool" where
  "parseIPv6 inp =
     (case Cut inp (CHR ''%'') of (s, zone, hasZone) \<Rightarrow>
        if hasZone \<and> zone = [] then False
        else if HasPrefix s ''::'' then
          (drop 2 s = [] \<or> (case ipv6Loop 8 0 True (drop 2 s) of None \<Rightarrow> False | Some (i, _) \<Rightarrow> i < 16))
        else (case ipv6Loop 8 0 False s of None \<Rightarrow> False | Some (i, ell) \<Rightarrow> if i < 16 then ell else \<not> ell))"

definition isIPv6 :: "string \<Rightarrow> bool" where
  "isIPv6 s = (case find (\<lambda>c. c \<in> set ''.:%'') s of Some c \<Rightarrow> c = CHR '':'' \<and> parseIPv6 s | None \<Rightarrow> False)"

fun splitZone :: "string \<Rightarrow> (string \<times> string) option" where
  "splitZone [] = None"
| "splitZone (c # s) = (if HasPrefix (c # s) ''%25'' then Some ([], c # s)
     else map_option (\<lambda>(h, z). (c # h, z)) (splitZone s))"

definition unescapeIPHost :: "string \<Rightarrow> string option" where
  "unescapeIPHost hostname = (case splitZone hostname of
     None \<Rightarrow> unescape encodeHost hostname
   | Some (hostPart, zonePart) \<Rightarrow>
       (case (unescape encodeHost hostPart, unescape encodeZone zonePart) of
          (Some h, Some z) \<Rightarrow> Some (h @ z) | _ \<Rightarrow> None))"

definition parseHost :: "string \<Rightarrow> string \<Rightarrow> string option" where
  "parseHost scheme host =
     (let open = LastIndex host (CHR ''['') in
      if 0 < open then None
      else if open = 0 then
        (let close = LastIndex host (CHR '']'') in
         if close < 0 then None
         else
           (let colonPort = drop (nat close + 1) host in
            if \<not> validOptionalPort colonPort then None
            else case unescapeIPHost (drop 1 (take (nat close) host)) of
                None \<Rightarrow> None
              | Some h \<Rightarrow> if isIPv6 h then Some (''['' @ h @ '']'' @ colonPort) else None))
      else
        (let i = LastIndex host (CHR '':'') in
         if 0 \<le> i \<and> i \<noteq> Index host (CHR '':'') \<and> (scheme = ''http'' \<or> scheme = ''https'') then None
         else if 0 \<le> i \<and> \<not> validOptionalPort (drop (nat i) host) then None
         else unescape encodeHost host))"

section \<open>URLs\<close>

type_synonym Userinfo = "string \<times> string option"

record URL =
  u_Scheme :: string
  u_Opaque :: string
  u_User :: "Userinfo option"
  u_Host :: string
  u_Path :: string
  u_RawPath :: string
  u_OmitHost :: bool
  u_ForceQuery :: bool
  u_RawQuery :: string
  u_Fragment :: string
  u_RawFragment :: string

definition newURL :: URL where
  "newURL = \<lparr>u_Scheme = [], u_Opaque = [], u_User = None, u_Host = [], u_Path = [], u_RawPath = [], u_OmitHost = False,
     u_ForceQuery = False, u_RawQuery = [], u_Fragment = [], u_RawFragment = []\<rparr>"

definition isAlphaByte :: "char \<Rightarrow> bool" where
  "isAlphaByte c = (let n = of_char c :: nat in (65 \<le> n \<and> n \<le> 90) \<or> (97 \<le> n \<and> n \<le> 122))"

text \<open>\<^verbatim>\<open>getScheme\<close>: the scan stops at the first byte that cannot belong to a scheme.\<close>

definition getScheme :: "string \<Rightarrow> (string \<times> string) option" where
  "getScheme rawURL =
     (let pre = takeWhile (\<lambda>c. alnum c \<or> c \<in> set ''+-.'') rawURL; rest = drop (length pre) rawURL in
      if pre \<noteq> [] \<and> \<not> isAlphaByte (pre ! 0) then Some ([], rawURL)
      else case rest of
          [] \<Rightarrow> Some ([], rawURL)
        | c # r \<Rightarrow> if c \<noteq> CHR '':'' then Some ([], rawURL) else if pre = [] then None else Some (pre, r))"

definition validUserinfo :: "string \<Rightarrow> bool" where
  "validUserinfo s = list_all (\<lambda>c. alnum c \<or> c \<in> set ''-._:~!$&()*+,;=%@'' \<or> of_char c = (39::nat)) s"

definition parseAuthority :: "string \<Rightarrow> string \<Rightarrow> (Userinfo option \<times> string) option" where
  "parseAuthority scheme authority =
     (let i = LastIndex authority (CHR ''@'') in
      if i < 0 then map_option (\<lambda>h. (None, h)) (parseHost scheme authority)
      else case parseHost scheme (drop (nat i + 1) authority) of
          None \<Rightarrow> None
        | Some host \<Rightarrow>
            (let userinfo = take (nat i) authority in
             if \<not> validUserinfo userinfo then None
             else case Cut userinfo (CHR '':'') of (username, password, ok) \<Rightarrow>
               (case (unescape encodeUserPassword username, unescape encodeUserPassword password) of
                  (Some n, Some p) \<Rightarrow> Some (Some (n, if ok then Some p else None), host)
                | _ \<Rightarrow> None)))"

definition setPath :: "string \<Rightarrow> URL \<Rightarrow> URL option" where
  "setPath p u = (case unescape encodePath p of
     None \<Rightarrow> None
   | Some path \<Rightarrow> Some (u\<lparr>u_Path := path, u_RawPath := (if escape encodePath path = p then [] else p)\<rparr>))"

definition setFragment :: "string \<Rightarrow> URL \<Rightarrow> URL option" where
  "setFragment f u = (case unescape encodeFragment f of
     None \<Rightarrow> None
   | Some frag \<Rightarrow> Some (u\<lparr>u_Fragment := frag, u_RawFragment := (if escape encodeFragment frag = f then [] else f)\<rparr>))"

definition containsCTLByte :: "string \<Rightarrow> bool" where
  "containsCTLByte s = list_ex (\<lambda>c. (of_char c :: nat) < 32 \<or> (of_char c :: nat) = 127) s"

definition cutQuery :: "string \<Rightarrow> string \<times> bool \<times> string" where
  "cutQuery rest =
     (if HasSuffix rest ''?'' \<and> count_list rest (CHR ''?'') = 1 then (take (length rest - 1) rest, True, [])
      else case Cut rest (CHR ''?'') of (r, q, _) \<Rightarrow> (r, False, q))"

definition cutAuthority :: "string \<Rightarrow> string \<times> string" where
  "cutAuthority s = (takeWhile (\<lambda>c. c \<noteq> CHR ''/'') s, dropWhile (\<lambda>c. c \<noteq> CHR ''/'') s)"

text \<open>\<^verbatim>\<open>parse\<close> in two parts: up to the query, and from there on.\<close>

definition parseRest :: "URL \<Rightarrow> string \<Rightarrow> URL option" where
  "parseRest u rest =
     (if \<not> HasPrefix rest ''/'' \<and> u_Scheme u \<noteq> [] then Some (u\<lparr>u_Opaque := rest\<rparr>)
      else if \<not> HasPrefix rest ''/'' \<and> CHR '':'' \<in> set (fst (Cut rest (CHR ''/''))) then None
      else if (u_Scheme u \<noteq> [] \<or> \<not> HasPrefix rest ''///'') \<and> HasPrefix rest ''//'' then
        (case cutAuthority (drop 2 rest) of (authority, path) \<Rightarrow>
           (case parseAuthority (u_Scheme u) authority of
              None \<Rightarrow> None
            | Some (user, host) \<Rightarrow> setPath path (u\<lparr>u_User := user, u_Host := host\<rparr>)))
      else setPath rest (u\<lparr>u_OmitHost := u_Scheme u \<noteq> [] \<and> HasPrefix rest ''/''\<rparr>))"

definition parseURL :: "string \<Rightarrow> URL option" where
  "parseURL rawURL =
     (if containsCTLByte rawURL then None
      else if rawURL = ''*'' then Some (newURL\<lparr>u_Path := ''*''\<rparr>)
      else case getScheme rawURL of
          None \<Rightarrow> None
        | Some (scheme, rest0) \<Rightarrow>
            (case cutQuery rest0 of (rest, force, query) \<Rightarrow>
               parseRest (newURL\<lparr>u_Scheme := ToLower scheme, u_ForceQuery := force, u_RawQuery := query\<rparr>) rest))"

definition ParseURL :: "string \<Rightarrow> URL option" where
  "ParseURL rawURL =
     (case Cut rawURL (CHR ''#'') of (s, frag, _) \<Rightarrow>
        (case parseURL s of
           None \<Rightarrow> None
         | Some u \<Rightarrow> if frag = [] then Some u else setFragment frag u))"

definition IsAbs :: "URL \<Rightarrow> bool" where "IsAbs u = (u_Scheme u \<noteq> [])"

definition urlSplitHostPort :: "string \<Rightarrow> string \<times> string" where
  "urlSplitHostPort hostPort =
     (let colon = LastIndex hostPort (CHR '':'');
          hp = (if 0 \<le> colon \<and> validOptionalPort (drop (nat colon) hostPort)
                then (take (nat colon) hostPort, drop (nat colon + 1) hostPort) else (hostPort, []));
          host = fst hp
      in (if HasPrefix host ''['' \<and> HasSuffix host '']'' then take (length host - 2) (drop 1 host) else host, snd hp))"

definition Hostname :: "URL \<Rightarrow> string" where "Hostname u = fst (urlSplitHostPort (u_Host u))"
definition Port :: "URL \<Rightarrow> string" where "Port u = snd (urlSplitHostPort (u_Host u))"

definition EscapedPath :: "URL \<Rightarrow> string" where
  "EscapedPath u =
     (if u_RawPath u \<noteq> [] \<and> validEncoded (u_RawPath u) encodePath \<and> unescape encodePath (u_RawPath u) = Some (u_Path u) then u_RawPath u
      else if u_Path u = ''*'' then ''*''
      else escape encodePath (u_Path u))"

definition EscapedFragment :: "URL \<Rightarrow> string" where
  "EscapedFragment u =
     (if u_RawFragment u \<noteq> [] \<and> validEncoded (u_RawFragment u) encodeFragment \<and> unescape encodeFragment (u_RawFragment u) = Some (u_Fragment u)
      then u_RawFragment u else escape encodeFragment (u_Fragment u))"

definition userString :: "Userinfo \<Rightarrow> string" where
  "userString ui = escape encodeUserPassword (fst ui) @ (case snd ui of None \<Rightarrow> [] | Some p \<Rightarrow> '':'' @ escape encodeUserPassword p)"

text \<open>What \<^verbatim>\<open>String\<close> writes before the query, and after it.\<close>

definition urlAuthority :: "URL \<Rightarrow> string" where
  "urlAuthority u =
     (if (u_Scheme u \<noteq> [] \<or> u_Host u \<noteq> [] \<or> u_User u \<noteq> None) \<and> \<not> (u_OmitHost u \<and> u_Host u = [] \<and> u_User u = None) then
        (if u_Host u \<noteq> [] \<or> u_Path u \<noteq> [] \<or> u_User u \<noteq> None then ''//'' else []) @
        (case u_User u of None \<Rightarrow> [] | Some ui \<Rightarrow> userString ui @ ''@'') @
        escape encodeHost (u_Host u)
      else [])"

definition urlBase :: "URL \<Rightarrow> string" where
  "urlBase u =
     (let scheme = (if u_Scheme u \<noteq> [] then u_Scheme u @ '':'' else []) in
      if u_Opaque u \<noteq> [] then scheme @ u_Opaque u
      else
        (let pre = scheme @ urlAuthority u; path = EscapedPath u;
             pre' = (if path \<noteq> [] \<and> path ! 0 \<noteq> CHR ''/'' \<and> u_Host u \<noteq> [] then pre @ ''/'' else pre);
             pre'' = (if pre' = [] \<and> CHR '':'' \<in> set (fst (Cut path (CHR ''/''))) then ''./'' else pre')
         in pre'' @ path))"

definition urlString :: "URL \<Rightarrow> string" where
  "urlString u = urlBase u @ (if u_ForceQuery u \<or> u_RawQuery u \<noteq> [] then ''?'' @ u_RawQuery u else []) @
     (if u_Fragment u \<noteq> [] then ''#'' @ EscapedFragment u else [])"

section \<open>Query values\<close>

text \<open>
  \<^verbatim>\<open>url.Values\<close> is the list of its pairs, grouped by key in any order. \<^verbatim>\<open>Query\<close> drops the pairs that do not
  parse; \<^verbatim>\<open>Set\<close> replaces every value of a key; \<^verbatim>\<open>Encode\<close> writes the keys in sorted order.
\<close>

definition queryPair :: "string \<Rightarrow> (string \<times> string) option" where
  "queryPair kv =
     (if CHR '';'' \<in> set kv \<or> kv = [] then None
      else case Cut kv (CHR ''='') of (k, v, _) \<Rightarrow>
        (case (QueryUnescape k, QueryUnescape v) of (Some k', Some v') \<Rightarrow> Some (k', v') | _ \<Rightarrow> None))"

definition Query :: "string \<Rightarrow> Values" where
  "Query rawQuery = (if rawQuery = [] then [] else List.map_filter queryPair (Split rawQuery (CHR ''&'')))"

definition SetValue :: "string \<Rightarrow> string \<Rightarrow> Values \<Rightarrow> Values" where
  "SetValue k v q = filter (\<lambda>p. fst p \<noteq> k) q @ [(k, v)]"

definition EncodeValues :: "Values \<Rightarrow> string" where
  "EncodeValues q = Join (map (\<lambda>(k, v). QueryEscape k @ ''='' @ QueryEscape v) (sort_key fst q)) (CHR ''&'')"

section \<open>Laws of escaping\<close>

lemma unescape_pctEncode: "mode \<notin> {encodeHost, encodeZone} \<Longrightarrow> unescape mode (pctEncode c @ s) = map_option (\<lambda>t. c # t) (unescape mode s)"
  by (auto simp: pctEncode_def Let_def hexVal_digit badEscape_def less_mult_imp_div_less)

lemma shouldEscape_pct: "shouldEscape (CHR ''%'') mode"
  by (cases mode) (simp_all add: shouldEscape_def alnum_def)

lemma unescape_escape: "mode \<notin> {encodeHost, encodeZone} \<Longrightarrow> unescape mode (escape mode s) = Some s"
proof (induction s)
  case (Cons c s)
  then show ?case
    using unescape_pctEncode[OF Cons.prems, of c "escape mode s"] shouldEscape_pct[of mode] by (cases "c = CHR ''%''") (auto simp: escape_def)
qed (simp add: escape_def)

lemma escape_plain: "list_all (\<lambda>c. \<not> shouldEscape c mode) s \<Longrightarrow> escape mode s = s"
  by (induction s) (simp_all add: escape_def)

lemma unescape_plain:
  "list_all (\<lambda>c. \<not> shouldEscape c mode) s \<Longrightarrow> unescape mode s = Some s"
proof (induction s)
  case (Cons c s)
  then show ?case using shouldEscape_pct[of mode] by (cases "c = CHR ''%''") auto
qed simp

lemma escape_append [simp]: "escape mode (s @ t) = escape mode s @ escape mode t"
  by (simp add: escape_def)

text \<open>A host byte below 128 is written as it is: escapes reach only the others and the percent sign.\<close>

lemma unescape_host_ascii:
  "unescape encodeHost s = Some t \<Longrightarrow> c \<in> set t \<Longrightarrow> (of_char c :: nat) < 128 \<Longrightarrow> c \<noteq> CHR ''%'' \<Longrightarrow> c \<in> set s"
proof (induction encodeHost s arbitrary: t rule: unescape.induct)
  case (2 d s)
  show ?case
  proof (cases "d = CHR ''%''")
    case True
    then obtain h l r a b t' where s: "s = h # l # r" "hexVal h = Some a" "hexVal l = Some b" "\<not> badEscape encodeHost a b"
        "unescape encodeHost r = Some t'" "t = char_of (16 * a + b) # t'"
      using 2(3) by (auto split: list.splits option.splits if_splits)
    have ab: "a < 16" "b < 16" using s(2,3) by (auto simp: hexVal_def Let_def split: if_splits)
    have "c \<noteq> char_of (16 * a + b)"
    proof
      assume "c = char_of (16 * a + b)"
      then have v: "of_char c = 16 * a + b" using ab by simp
      then have "a < 8" using 2(5) ab by linarith
      then have "a = 2" "b = 5" using s(4) by (simp_all add: badEscape_def)
      then have "(of_char c :: nat) = of_char (CHR ''%'')" using v by simp
      then show False using 2(6) by (simp only: of_char_eq_iff)
    qed
    then have "c \<in> set t'" using s(6) 2(4) by simp
    then show ?thesis using 2(1)[OF True s(1) refl refl s(2) s(3) s(4) s(5) _ 2(5,6)] s(1) by simp
  next
    case False
    then obtain t' where "unescape encodeHost s = Some t'" "t = d # t'" using 2(3) by (auto split: if_splits)
    then show ?thesis using 2(2)[OF False] 2(3-6) False by (auto split: if_splits)
  qed
qed simp

section \<open>Laws of query values\<close>

lemma hexUpper_alnum: "n < 16 \<Longrightarrow> alnum (hexUpper n)"
proof -
  assume "n < 16"
  have "\<forall>n\<in>set [0..<16]. alnum (hexUpper n)" by code_simp
  then show ?thesis using \<open>n < 16\<close> by simp
qed

lemma QueryEscape_chars:
  assumes "c \<in> set (QueryEscape s)"
  shows "alnum c \<or> c \<in> set ''-_.~+%''"
proof -
  obtain d where d: "c \<in> set (escapeByte d)" using assms by (auto simp: QueryEscape_def)
  have hex: "alnum (hexUpper (of_char d div 16))" "alnum (hexUpper (of_char d mod 16))"
    by (rule hexUpper_alnum; simp add: less_mult_imp_div_less)+
  show ?thesis
  proof (cases "unreserved d")
    case True
    then have "c = d" using d by (simp add: escapeByte_def)
    then show ?thesis using True by (auto simp: unreserved_def alnum_def Let_def)
  next
    case False
    then have "c \<in> {CHR ''+'', CHR ''%'', hexUpper (of_char d div 16), hexUpper (of_char d mod 16)}"
      using d by (auto simp: escapeByte_def Let_def split: if_splits)
    then show ?thesis using hex by auto
  qed
qed

lemma EncodeValues_chars:
  assumes "c \<in> set (EncodeValues q)"
  shows "alnum c \<or> c \<in> set ''-_.~+%&=''"
proof -
  have "\<exists>p\<in>set ps. c \<in> set p \<or> c = d" if "c \<in> set (Join ps d)" for ps d
    using that by (induction ps d rule: Join.induct) auto
  then show ?thesis using assms QueryEscape_chars by (fastforce simp: EncodeValues_def)
qed

lemma queryPair_encoded: "queryPair (QueryEscape k @ ''='' @ QueryEscape v) = Some (k, v)"
proof -
  have eq: "CHR ''='' \<notin> set (QueryEscape k)" and semi: "CHR '';'' \<notin> set (QueryEscape x)" for x
    using QueryEscape_chars by (fastforce simp: alnum_def)+
  have "Cut (QueryEscape k @ CHR ''='' # QueryEscape v) (CHR ''='') = (QueryEscape k, QueryEscape v, True)" using eq by simp
  then show ?thesis using semi by (simp add: queryPair_def)
qed

lemma map_filter_all: "(\<And>x. x \<in> set xs \<Longrightarrow> f (g x) = Some x) \<Longrightarrow> List.map_filter f (map g xs) = xs"
  by (induction xs) (simp_all add: List.map_filter_simps)

lemma Query_EncodeValues: "Query (EncodeValues q) = sort_key fst q"
proof (cases "q = []")
  case False
  let ?ps = "map (\<lambda>(k, v). QueryEscape k @ ''='' @ QueryEscape v) (sort_key fst q)"
  have ne: "?ps \<noteq> []" using False by (metis map_is_Nil_conv length_0_conv length_sort)
  have "CHR ''&'' \<notin> set p" if "p \<in> set ?ps" for p using that QueryEscape_chars by (fastforce simp: alnum_def)
  then have sp: "Split (EncodeValues q) (CHR ''&'') = ?ps" unfolding EncodeValues_def using Split_Join[OF ne] by blast
  moreover have "EncodeValues q \<noteq> []"
  proof
    assume "EncodeValues q = []"
    then have "[] \<in> set ?ps" using sp by (metis Split.simps(1) list.set_intros(1))
    then show False by auto
  qed
  moreover have "List.map_filter queryPair ?ps = sort_key fst q" by (rule map_filter_all) (auto simp: queryPair_encoded[simplified])
  ultimately show ?thesis by (simp add: Query_def)
qed (simp add: Query_def EncodeValues_def)

lemma Get_filter: "Get q k = Get (filter (\<lambda>p. fst p = k) q) k"
  by (induction q) (auto simp: Get_def)

lemma Get_sort_key: "Get (sort_key fst q) k = Get q k"
proof -
  have "filter (\<lambda>p. fst p = k) (sort_key fst q) = filter (\<lambda>p. fst p = k) q" by (rule sort_key_stable)
  then show ?thesis by (metis Get_filter)
qed

lemma Get_SetValue: "Get (SetValue k v q) k' = (if k' = k then v else Get q k')"
proof -
  have "map_of (filter (\<lambda>p. fst p \<noteq> k) q @ [(k, v)]) k' = (if k' = k then Some v else map_of q k')"
    by (induction q) auto
  then show ?thesis by (simp add: Get_def SetValue_def)
qed

end
