(* ===== verification/Go_Cookies.thy ===== *)
theory Go_Cookies
  imports Oidc_Base Go_Url
begin

text \<open>
  The part of \<^verbatim>\<open>net/http\<close> that reads and writes cookies: \<^verbatim>\<open>Request.Cookie\<close> on a Cookie header and the
  serialization of a Set-Cookie header. A cookie carries only the attributes the server sets.
\<close>

section \<open>Reading\<close>

definition isHeaderSpace :: "char \<Rightarrow> bool" where
  "isHeaderSpace c = ((of_char c :: nat) \<in> {9, 10, 13, 32})"

definition TrimString :: "string \<Rightarrow> string" where
  "TrimString s = rev (dropWhile isHeaderSpace (rev (dropWhile isHeaderSpace s)))"

definition isTokenByte :: "char \<Rightarrow> bool" where
  "isTokenByte c = (alnum c \<or> c \<in> set ''!#$%&*+-.^_|~'' \<or> of_char c \<in> {39, 96 :: nat})"

definition isToken :: "string \<Rightarrow> bool" where
  "isToken s = (s \<noteq> [] \<and> list_all isTokenByte s)"

definition validCookieValueByte :: "char \<Rightarrow> bool" where
  "validCookieValueByte c = (let n = of_char c :: nat in 32 \<le> n \<and> n < 127 \<and> n \<noteq> 34 \<and> n \<noteq> 59 \<and> n \<noteq> 92)"

definition parseCookieValue :: "string \<Rightarrow> string option" where
  "parseCookieValue raw =
     (let v = (if 1 < length raw \<and> of_char (raw ! 0) = (34::nat) \<and> of_char (last raw) = (34::nat) then butlast (tl raw) else raw)
      in if list_all validCookieValueByte v then Some v else None)"

definition readCookie :: "string \<Rightarrow> string \<Rightarrow> string option" where
  "readCookie name part0 =
     (let part = TrimString part0 in
      if part = [] then None
      else case Cut part (CHR ''='') of (n0, val, _) \<Rightarrow>
        (let n = TrimString n0 in if \<not> isToken n \<or> n \<noteq> name then None else parseCookieValue val))"

definition maxCookies :: nat where "maxCookies = 3000"

definition readCookies :: "string \<Rightarrow> string \<Rightarrow> string list" where
  "readCookies header name =
     (if header = [] \<or> maxCookies < count_list header (CHR '';'') + 1 then []
      else List.map_filter (readCookie name) (Split (TrimString header) (CHR '';'')))"

text \<open>\<^verbatim>\<open>Request.Cookie\<close>: the value of the first cookie of that name.\<close>

definition requestCookie :: "string \<Rightarrow> string \<Rightarrow> string option" where
  "requestCookie header name = (if name = [] then None else case readCookies header name of [] \<Rightarrow> None | v # _ \<Rightarrow> Some v)"

section \<open>Writing\<close>

record Cookie =
  ck_Name :: string
  ck_Value :: string
  ck_Path :: string
  ck_Secure :: bool
  ck_MaxAge :: int

text \<open>Every cookie of the server is HttpOnly and SameSite=Lax.\<close>

definition cookieString :: "Cookie \<Rightarrow> string" where
  "cookieString c =
     (if \<not> isToken (ck_Name c) then []
      else
        (let v0 = filter validCookieValueByte (ck_Value c);
             v = (if CHR '' '' \<in> set v0 \<or> CHR '','' \<in> set v0 then [char_of (34::nat)] @ v0 @ [char_of (34::nat)] else v0);
             p = filter (\<lambda>b. 32 \<le> (of_char b :: nat) \<and> (of_char b :: nat) < 127 \<and> b \<noteq> CHR '';'') (ck_Path c)
         in ck_Name c @ ''='' @ v @ (if ck_Path c \<noteq> [] then ''; Path='' @ p else []) @
            (if 0 < ck_MaxAge c then ''; Max-Age='' @ digits (nat (ck_MaxAge c)) else if ck_MaxAge c < 0 then ''; Max-Age=0'' else []) @
            ''; HttpOnly'' @ (if ck_Secure c then ''; Secure'' else []) @ ''; SameSite=Lax''))"

text \<open>What a browser returns for a cookie it stored.\<close>

definition cookiePair :: "Cookie \<Rightarrow> string" where
  "cookiePair c = ck_Name c @ ''='' @ ck_Value c"

section \<open>Laws\<close>

lemma TrimString_id: "s = [] \<or> \<not> isHeaderSpace (hd s) \<and> \<not> isHeaderSpace (last s) \<Longrightarrow> TrimString s = s"
  using dropWhile_eq_self_iff[of isHeaderSpace s] dropWhile_eq_self_iff[of isHeaderSpace "rev s"] by (auto simp: TrimString_def hd_rev)

lemma isTokenByte_plain:
  assumes "isTokenByte c"
  shows "\<not> isHeaderSpace c" "c \<noteq> CHR ''=''" "c \<noteq> CHR '';''"
proof -
  have "\<not> isTokenByte (CHR ''='')" "\<not> isTokenByte (CHR '';'')" by code_simp+
  then show "c \<noteq> CHR ''=''" "c \<noteq> CHR '';''" using assms by auto
  have n: "(of_char c :: nat) \<notin> {9, 10, 13, 32}"
    using assms unfolding isTokenByte_def alnum_def Let_def by auto
  then show "\<not> isHeaderSpace c" by (simp add: isHeaderSpace_def)
qed

text \<open>A value that needs no quoting comes back from the header it is sent in.\<close>

definition plainValue :: "string \<Rightarrow> bool" where
  "plainValue v = list_all (\<lambda>c. validCookieValueByte c \<and> \<not> isHeaderSpace c) v"

lemma plainValue_semi: "plainValue v \<Longrightarrow> CHR '';'' \<notin> set v"
  by (auto simp: plainValue_def list_all_iff validCookieValueByte_def Let_def)

lemma parseCookieValue_plain:
  assumes "plainValue v"
  shows "parseCookieValue v = Some v"
proof -
  have "\<not> (1 < length v \<and> of_char (v ! 0) = (34::nat) \<and> of_char (last v) = (34::nat))"
    using assms by (cases v) (auto simp: plainValue_def validCookieValueByte_def Let_def)
  moreover have "list_all validCookieValueByte v" using assms by (simp add: plainValue_def list_all_iff)
  ultimately show ?thesis unfolding parseCookieValue_def by (auto simp: Let_def)
qed

lemma requestCookie_one:
  assumes "isToken n" "plainValue v"
  shows "requestCookie (n @ CHR ''='' # v) m = (if m = n then Some v else None)"
proof -
  have semi: "CHR '';'' \<notin> set (n @ CHR ''='' # v)"
    using assms isTokenByte_plain(3) plainValue_semi by (fastforce simp: isToken_def list_all_iff)
  have n: "n \<noteq> []" "\<not> isHeaderSpace (hd n)" "\<not> isHeaderSpace (last n)" "CHR ''='' \<notin> set n"
    using assms(1) isTokenByte_plain by (auto simp: isToken_def list_all_iff dest: hd_in_set last_in_set)
  have "\<not> isHeaderSpace (CHR ''='')" by code_simp
  then have "\<not> isHeaderSpace (last (n @ CHR ''='' # v))" using assms(2) by (auto simp: plainValue_def list_all_iff dest: last_in_set)
  then have t: "TrimString (n @ CHR ''='' # v) = n @ CHR ''='' # v" using n by (intro TrimString_id) simp
  have "TrimString n = n" using n by (intro TrimString_id) simp
  then have "readCookie m (n @ CHR ''='' # v) = (if m = n then Some v else None)"
    using t n(4) assms(1) parseCookieValue_plain[OF assms(2)] by (simp add: readCookie_def)
  then have "readCookies (n @ CHR ''='' # v) m = (if m = n then [v] else [])"
    using semi t by (simp add: readCookies_def maxCookies_def Split_absent List.map_filter_simps)
  then show ?thesis using n(1) by (cases "m = n") (simp_all add: requestCookie_def)
qed

end
