(* ===== verification/Upstream_Binding.thy ===== *)
theory Upstream_Binding
  imports Go_Cookies
begin

text \<open>
  The upstream leg of a sign-in: the values derived from the state that bind it to one browser and one
  connector (src/oidc/upstreambinding.go), and the connectors themselves (src/oidc/connector.go). A connector
  talks to an identity provider outside this repository, so its \<^verbatim>\<open>Begin\<close> and \<^verbatim>\<open>Complete\<close> are functions in
  its record, of the moment they are called and their parameters.
\<close>

section \<open>Derived values\<close>

definition CallbackPathPrefix :: string where "CallbackPathPrefix = ''/callback/''"
definition CallbackPath :: "string \<Rightarrow> string" where "CallbackPath connectorID = CallbackPathPrefix @ connectorID"

definition authRequestTTL :: Duration where "authRequestTTL = 5 * Minute"
definition sessionSigningKeyBytes :: nat where "sessionSigningKeyBytes = 32"

definition upstreamCookieBase :: string where "upstreamCookieBase = ''tempogate_upstream_''"
definition hostCookiePrefix :: string where "hostCookiePrefix = ''__Host-''"
definition upstreamCookieIDHexLen :: nat where "upstreamCookieIDHexLen = 16"

abbreviation NUL :: char where "NUL \<equiv> char_of (0::nat)"

definition labelUpstreamVerifier :: string where "labelUpstreamVerifier = ''tempogate/upstream/pkce-verifier'' @ [NUL]"
definition labelUpstreamNonce :: string where "labelUpstreamNonce = ''tempogate/upstream/nonce'' @ [NUL]"
definition labelUpstreamRequestID :: string where "labelUpstreamRequestID = ''tempogate/upstream/request-id'' @ [NUL]"
definition labelUpstreamBinding :: string where "labelUpstreamBinding = ''tempogate/upstream/browser-binding'' @ [NUL]"

definition TrimRight :: "string \<Rightarrow> char \<Rightarrow> string" where
  "TrimRight s c = rev (dropWhile (\<lambda>d. d = c) (rev s))"

record UpstreamBinding =
  ub_key :: string
  ub_secure :: bool
  ub_issuerPath :: string
  ub_namePrefix :: string

definition NewUpstreamBinding :: "string \<Rightarrow> string \<Rightarrow> string + UpstreamBinding" where
  "NewUpstreamBinding issuer key =
     (if length key \<noteq> sessionSigningKeyBytes then Inl ''oidc: upstream binding key must be 32 bytes''
      else
        (let b = \<lparr>ub_key = key, ub_secure = True, ub_issuerPath = [], ub_namePrefix = hostCookiePrefix @ upstreamCookieBase\<rparr> in
         case ParseURL (TrimSpace issuer) of
           None \<Rightarrow> Inr b
         | Some u \<Rightarrow>
             if EqualFold (u_Scheme u) ''http''
             then Inr (b\<lparr>ub_secure := False, ub_issuerPath := TrimRight (u_Path u) (CHR ''/''), ub_namePrefix := upstreamCookieBase\<rparr>)
             else Inr b))"

text \<open>The MAC input: label, connector id, NUL, state.\<close>

definition macInput :: "string \<Rightarrow> string \<Rightarrow> string \<Rightarrow> string" where
  "macInput label connectorID internalState = label @ connectorID @ [NUL] @ internalState"

definition upstreamMAC :: "UpstreamBinding \<Rightarrow> string \<Rightarrow> string \<Rightarrow> string \<Rightarrow> string" where
  "upstreamMAC b label connectorID internalState = hmac (ub_key b) (macInput label connectorID internalState)"

definition derive :: "UpstreamBinding \<Rightarrow> string \<Rightarrow> string \<Rightarrow> string \<Rightarrow> string" where
  "derive b label connectorID internalState = RawURLEncode (upstreamMAC b label connectorID internalState)"

definition cookieName :: "UpstreamBinding \<Rightarrow> string \<Rightarrow> string" where
  "cookieName b internalState = ub_namePrefix b @ take upstreamCookieIDHexLen (hexEncode (Sum256 internalState))"

definition upstreamCookie :: "UpstreamBinding \<Rightarrow> string \<Rightarrow> string \<Rightarrow> string \<Rightarrow> int \<Rightarrow> Cookie" where
  "upstreamCookie b connectorID internalState val maxAge =
     \<lparr>ck_Name = cookieName b internalState, ck_Value = val,
      ck_Path = (if ub_secure b then ''/'' else ub_issuerPath b @ CallbackPath connectorID),
      ck_Secure = ub_secure b, ck_MaxAge = maxAge\<rparr>"

definition bindingCookie :: "UpstreamBinding \<Rightarrow> string \<Rightarrow> string \<Rightarrow> Cookie" where
  "bindingCookie b connectorID internalState =
     upstreamCookie b connectorID internalState (derive b labelUpstreamBinding connectorID internalState) (authRequestTTL div Second)"

definition clearCookie :: "UpstreamBinding \<Rightarrow> string \<Rightarrow> string \<Rightarrow> Cookie" where
  "clearCookie b connectorID internalState = upstreamCookie b connectorID internalState [] (-1)"

definition boundToBrowser :: "UpstreamBinding \<Rightarrow> string \<Rightarrow> string \<Rightarrow> string \<Rightarrow> bool" where
  "boundToBrowser b cookieHeader connectorID internalState =
     (case requestCookie cookieHeader (cookieName b internalState) of
        None \<Rightarrow> False
      | Some v \<Rightarrow> v = derive b labelUpstreamBinding connectorID internalState)"

definition codeVerifier :: "UpstreamBinding \<Rightarrow> string \<Rightarrow> string \<Rightarrow> string" where
  "codeVerifier b connectorID internalState = derive b labelUpstreamVerifier connectorID internalState"

definition codeChallenge :: "UpstreamBinding \<Rightarrow> string \<Rightarrow> string \<Rightarrow> string" where
  "codeChallenge b connectorID internalState = RawURLEncode (Sum256 (codeVerifier b connectorID internalState))"

definition upstreamNonce :: "UpstreamBinding \<Rightarrow> string \<Rightarrow> string \<Rightarrow> string" where
  "upstreamNonce b connectorID internalState = derive b labelUpstreamNonce connectorID internalState"

definition requestID :: "UpstreamBinding \<Rightarrow> string \<Rightarrow> string \<Rightarrow> string" where
  "requestID b connectorID internalState = ''_'' @ hexEncode (upstreamMAC b labelUpstreamRequestID connectorID internalState)"

section \<open>Connectors\<close>

record Flow =
  fl_ResponseMethod :: string
  fl_StateParam :: string

record BeginParams =
  bp_RedirectURI :: string
  bp_State :: string
  bp_CodeChallenge :: string
  bp_Nonce :: string
  bp_RequestID :: string

record CompleteParams =
  cp_RedirectURI :: string
  cp_Params :: Values
  cp_CodeVerifier :: string
  cp_Nonce :: string
  cp_RequestID :: string

record UpstreamIdentity =
  ui_Subject :: string
  ui_Email :: string
  ui_EmailVerified :: bool
  ui_Groups :: "string list"

record Completion =
  co_Identity :: UpstreamIdentity
  co_Refusal :: string

datatype CompleteError = UpstreamDenied string string | ErrMissingResponse | UpstreamError string

record Connector =
  cn_ID :: string
  cn_DisplayName :: string
  cn_Flow :: Flow
  cn_Begin :: "Time \<Rightarrow> BeginParams \<Rightarrow> string option"
  cn_Complete :: "Time \<Rightarrow> CompleteParams \<Rightarrow> CompleteError + Completion"

record Connectors =
  cs_byID :: "(string \<times> Connector) list"
  cs_active :: Connector

definition validateFlow :: "Flow \<Rightarrow> string option" where
  "validateFlow f = (if fl_ResponseMethod f \<noteq> ''GET'' then Some ''response method is not supported (only GET)''
     else if fl_StateParam f = [] then Some ''state parameter is empty'' else None)"

definition NewConnectors :: "Connector list \<Rightarrow> string + Connectors" where
  "NewConnectors cs = (case cs of
     [] \<Rightarrow> Inl ''oidc: no upstream connector is configured''
   | [c] \<Rightarrow> (case ValidateConnectorID (cn_ID c) of
         Some e \<Rightarrow> Inl e
       | None \<Rightarrow> (case validateFlow (cn_Flow c) of
             Some e \<Rightarrow> Inl e
           | None \<Rightarrow> Inr \<lparr>cs_byID = [(cn_ID c, c)], cs_active = c\<rparr>))
   | _ \<Rightarrow> Inl ''oidc: only one upstream connector may be active'')"

definition Active :: "Connectors \<Rightarrow> Connector" where "Active c = cs_active c"

definition LookupConnector :: "Connectors \<Rightarrow> string \<Rightarrow> Connector option" where
  "LookupConnector c cid = map_of (cs_byID c) cid"

section \<open>Laws\<close>

text \<open>
  Domain separation: a connector id holds no NUL, so two MAC inputs are equal only for the same label,
  connector and state, and none is the input of a session-cookie or device-bounce MAC under the same key.
\<close>

definition upstreamLabels :: "string set" where
  "upstreamLabels = {labelUpstreamVerifier, labelUpstreamNonce, labelUpstreamRequestID, labelUpstreamBinding}"

lemma connectorIDPattern_no_NUL: "connectorIDPattern cid \<Longrightarrow> NUL \<notin> set cid"
  by (auto simp: connectorIDPattern_def list_all_iff isLowerAlpha_def isDigit_def split: list.splits)

lemma append_sep_eq: "x \<notin> set a \<Longrightarrow> x \<notin> set b \<Longrightarrow> a @ x # s = b @ x # t \<longleftrightarrow> a = b \<and> s = t"
proof -
  assume "x \<notin> set a" "x \<notin> set b"
  moreover have "takeWhile (\<lambda>c. c \<noteq> x) (a @ x # s) = a" if "x \<notin> set a" for a s using that by (induction a) auto
  ultimately show ?thesis by (metis append_same_eq same_append_eq list.inject)
qed

lemma NUL_code: "NUL = CHR 0x00"
  by (simp add: char_of_def)

lemma upstream_labels_NUL: "l \<in> upstreamLabels \<Longrightarrow> \<exists>n. l = n @ [NUL] \<and> NUL \<notin> set n \<and> n \<notin> {macLabelSessionCookie, macLabelDeviceBounceState}"
  unfolding upstreamLabels_def labelUpstreamVerifier_def labelUpstreamNonce_def labelUpstreamRequestID_def labelUpstreamBinding_def
    macLabelSessionCookie_def macLabelDeviceBounceState_def
  by (elim insertE) ((rule exI, rule conjI, assumption, simp add: NUL_code) | simp)+

lemma macInput_inj:
  assumes "l \<in> upstreamLabels" "l' \<in> upstreamLabels" "connectorIDPattern c" "connectorIDPattern c'" "macInput l c s = macInput l' c' s'"
  shows "l = l' \<and> c = c' \<and> s = s'"
proof -
  obtain n n' where n: "l = n @ [NUL]" "NUL \<notin> set n" "l' = n' @ [NUL]" "NUL \<notin> set n'" using upstream_labels_NUL assms(1,2) by metis
  have "n @ NUL # c @ NUL # s = n' @ NUL # c' @ NUL # s'" using assms(5) n by (simp add: macInput_def)
  then have "n = n'" "c @ NUL # s = c' @ NUL # s'" using append_sep_eq[OF n(2,4)] by blast+
  then show ?thesis using append_sep_eq connectorIDPattern_no_NUL assms(3,4) n by metis
qed

lemma macInput_separate:
  assumes "l \<in> upstreamLabels" "m \<in> {macLabelSessionCookie, macLabelDeviceBounceState}"
  shows "macInput l c s \<noteq> m @ [NUL] @ msg"
proof
  assume e: "macInput l c s = m @ [NUL] @ msg"
  obtain n where n: "l = n @ [NUL]" "NUL \<notin> set n" "n \<noteq> m" using upstream_labels_NUL[OF assms(1)] assms(2) by blast
  have "NUL \<notin> set m" using assms(2) by (auto simp: NUL_code macLabelSessionCookie_def macLabelDeviceBounceState_def)
  then show False using e n append_sep_eq[of NUL n m "c @ NUL # s" msg] by (simp add: macInput_def)
qed

section \<open>The binding cookie\<close>

lemma RawURLEncode_bytes: "c \<in> set (RawURLEncode s) \<Longrightarrow> c \<in> set b64url"
proof -
  assume "c \<in> set (RawURLEncode s)"
  then obtain v where "v \<in> set (b64enc (map of_char s))" "c = b64url ! v" by (auto simp: RawURLEncode_def rawEncode_def)
  moreover from this(1) have "v < length b64url" using b64enc_range[of "map of_char s" v] by (auto simp: b64url_def)
  ultimately show ?thesis by simp
qed

lemma hexEncode_bytes: "c \<in> set (hexEncode s) \<Longrightarrow> c \<in> set ''0123456789abcdef''"
proof -
  assume "c \<in> set (hexEncode s)"
  then obtain b :: char where "c = hexDigit (of_char b div 16) \<or> c = hexDigit (of_char b mod 16)" by (auto simp: hexEncode_def Let_def)
  moreover have "(of_char b :: nat) div 16 < 16" by (rule less_mult_imp_div_less) simp
  moreover have "(of_char b :: nat) mod 16 < 16" by simp
  ultimately obtain n where "n < 16" "c = hexDigit n" by blast
  then show ?thesis unfolding hexDigit_def by (simp only:) (rule nth_mem, simp)
qed

lemma plain_RawURLEncode: "plainValue (RawURLEncode s)"
proof -
  have "list_all (\<lambda>c. validCookieValueByte c \<and> \<not> isHeaderSpace c) b64url" by code_simp
  then show ?thesis using RawURLEncode_bytes unfolding plainValue_def list_all_iff by blast
qed

lemma cookieName_token:
  assumes "NewUpstreamBinding issuer key = Inr b"
  shows "isToken (cookieName b s)"
proof -
  have p: "ub_namePrefix b \<in> {hostCookiePrefix @ upstreamCookieBase, upstreamCookieBase}"
    using assms by (auto simp: NewUpstreamBinding_def Let_def split: if_splits option.splits)
  have "isToken (hostCookiePrefix @ upstreamCookieBase)" "isToken upstreamCookieBase" by code_simp+
  then have "isToken (ub_namePrefix b)" using p by auto
  moreover have "list_all isTokenByte ''0123456789abcdef''" by code_simp
  then have "isTokenByte c" if "c \<in> set (take n (hexEncode x))" for c n x
    using hexEncode_bytes[OF in_set_takeD[OF that]] unfolding list_all_iff by blast
  ultimately show ?thesis by (auto simp: isToken_def cookieName_def list_all_iff)
qed

text \<open>
  C21. The browser that started a sign-in is the one that may finish it. A browser that returns the cookie
  /authorize set for a state and connector is bound to that sign-in. With that cookie alone it is bound to no
  other: for another state or connector to be accepted, the MACs of two different messages under the server's
  key would have to be equal.
\<close>

theorem browser_binding_exact:
  assumes "NewUpstreamBinding issuer key = Inr b" "connectorIDPattern cid" "connectorIDPattern cid'"
  shows "boundToBrowser b (cookiePair (bindingCookie b cid s)) cid s \<and>
    (boundToBrowser b (cookiePair (bindingCookie b cid s)) cid' s' \<longrightarrow>
       cid' = cid \<and> s' = s \<or>
       macInput labelUpstreamBinding cid s \<noteq> macInput labelUpstreamBinding cid' s' \<and>
       hmac key (macInput labelUpstreamBinding cid s) = hmac key (macInput labelUpstreamBinding cid' s'))"
proof -
  let ?v = "derive b labelUpstreamBinding cid s"
  have pair: "cookiePair (bindingCookie b cid s) = cookieName b s @ CHR ''='' # ?v"
    by (simp add: cookiePair_def bindingCookie_def upstreamCookie_def)
  have plain: "plainValue ?v" by (simp add: derive_def plain_RawURLEncode)
  have one: "requestCookie (cookieName b s @ CHR ''='' # ?v) m = (if m = cookieName b s then Some ?v else None)" for m
    by (rule requestCookie_one[OF cookieName_token[OF assms(1)] plain])
  have "requestCookie (cookiePair (bindingCookie b cid s)) (cookieName b s) = Some ?v"
    by (simp add: pair one)
  then have own: "boundToBrowser b (cookiePair (bindingCookie b cid s)) cid s" by (simp add: boundToBrowser_def)
  have key: "ub_key b = key" using assms(1) by (auto simp: NewUpstreamBinding_def Let_def split: if_splits option.splits)
  have other: "hmac key (macInput labelUpstreamBinding cid s) = hmac key (macInput labelUpstreamBinding cid' s')"
    if "boundToBrowser b (cookiePair (bindingCookie b cid s)) cid' s'"
  proof -
    from that obtain v where v: "requestCookie (cookiePair (bindingCookie b cid s)) (cookieName b s') = Some v" "v = derive b labelUpstreamBinding cid' s'"
      by (auto simp: boundToBrowser_def split: option.splits)
    have "v = ?v" using v(1) by (simp add: pair one split: if_splits)
    then show ?thesis using v(2) RawURLDecode_Encode key by (metis derive_def option.inject upstreamMAC_def)
  qed
  show ?thesis
    using own other macInput_inj[of labelUpstreamBinding labelUpstreamBinding cid cid' s s'] assms(2,3) by (auto simp: upstreamLabels_def)
qed

theorem browser_binding_exact_witness:
  "\<exists>b. NewUpstreamBinding ''https://id.example'' (replicate 32 (CHR ''k'')) = Inr b \<and> ub_secure b \<and>
     boundToBrowser b (cookiePair (bindingCookie b ''google'' ''s'')) ''google'' ''s''"
proof -
  have "case NewUpstreamBinding ''https://id.example'' (replicate 32 (CHR ''k'')) of Inl _ \<Rightarrow> False | Inr b \<Rightarrow> ub_secure b" by code_simp
  then obtain b where b: "NewUpstreamBinding ''https://id.example'' (replicate 32 (CHR ''k'')) = Inr b" "ub_secure b" by (auto split: sum.splits)
  have "connectorIDPattern ''google''" by code_simp
  then show ?thesis using browser_binding_exact[OF b(1), of "''google''" "''google''"] b by blast
qed

end
