(* ===== verification/Clients.thy ===== *)
theory Clients
  imports Oidc_Base Go_Url
begin

text \<open>
  The registration of downstream clients and the matching of redirect URIs (src/oidc/client.go):
  \<^verbatim>\<open>ParseClientRegistry\<close> reads the OIDC_CLIENTS setting, \<^verbatim>\<open>ValidateClient\<close> (\<^verbatim>\<open>ClientRegistry.Validate\<close>) is what
  /authorize consults before it sends a browser anywhere. The messages of the registration errors are
  kept as the reasons they give, without the quoted input.
\<close>

section \<open>Redirect URIs\<close>

datatype URIError = NotParsed | NotAbsolute | NoHost | EmptyPort | HasUserinfo | HasFragment
  | NoPath | LoopbackPort | LoopbackQuery | MustUseHTTPS | BadScheme string

definition parseRedirectURI :: "string \<Rightarrow> URIError + URL" where
  "parseRedirectURI raw =
     (case ParseURL raw of
        None \<Rightarrow> Inl NotParsed
      | Some u \<Rightarrow>
          if \<not> IsAbs u \<or> u_Opaque u \<noteq> [] then Inl NotAbsolute
          else if u_Host u = [] then Inl NoHost
          else if HasSuffix (u_Host u) '':'' then Inl EmptyPort
          else if u_User u \<noteq> None then Inl HasUserinfo
          else if CHR ''#'' \<in> set raw then Inl HasFragment
          else Inr u)"

definition isLoopback :: "URL \<Rightarrow> bool" where
  "isLoopback u = (if u_Scheme u \<noteq> ''http'' then False
     else let h = Hostname u in h = ''127.0.0.1'' \<or> (h = ''::1'' \<and> HasPrefix (u_Host u) ''[::1]''))"

definition checkRegisteredRedirectURI :: "string \<Rightarrow> bool \<Rightarrow> URIError option" where
  "checkRegisteredRedirectURI raw allowInsecure =
     (case parseRedirectURI raw of
        Inl e \<Rightarrow> Some e
      | Inr u \<Rightarrow>
          if u_Path u = [] then Some NoPath
          else if isLoopback u then
            (if Port u \<noteq> [] then Some LoopbackPort
             else if u_RawQuery u \<noteq> [] \<or> u_ForceQuery u then Some LoopbackQuery
             else None)
          else if u_Scheme u = ''https'' then None
          else if u_Scheme u = ''http'' \<and> allowInsecure then None
          else if u_Scheme u = ''http'' then Some MustUseHTTPS
          else Some (BadScheme (u_Scheme u)))"

section \<open>The registry\<close>

datatype RegistrationError = MalformedEntry string | DeviceOnlyCombined string string | RedirectOnDeviceOnly string
  | DuplicateRedirectURI string string | BadRedirectURI string string URIError

fun ParseClientRegistry_loop :: "bool \<Rightarrow> string list \<Rightarrow> ClientRegistry \<Rightarrow> RegistrationError + ClientRegistry" where
  "ParseClientRegistry_loop allowInsecure [] reg = Inr reg"
| "ParseClientRegistry_loop allowInsecure (e # es) reg =
     (let entry = TrimSpace e in
      if entry = [] then ParseClientRegistry_loop allowInsecure es reg
      else case Cut entry (CHR '':'') of (cid, uri, ok) \<Rightarrow>
        if \<not> ok \<or> cid = [] then Inl (MalformedEntry entry)
        else
          (let found = map_of reg cid;
               c = (case found of Some c \<Rightarrow> c | None \<Rightarrow> \<lparr>ci_RedirectURIs = [], ci_GrantTypes = [], ci_Secret = []\<rparr>);
               seen = (found \<noteq> None);
               deviceOnly = (seen \<and> ci_RedirectURIs c = [])
           in if uri = [] \<and> seen then Inl (DeviceOnlyCombined cid entry)
              else if uri = [] then
                ParseClientRegistry_loop allowInsecure es
                  (AList.update cid \<lparr>ci_RedirectURIs = [], ci_GrantTypes = [grantDeviceCode, grantRefreshToken], ci_Secret = []\<rparr> reg)
              else if deviceOnly then Inl (RedirectOnDeviceOnly cid)
              else if uri \<in> set (ci_RedirectURIs c) then Inl (DuplicateRedirectURI cid uri)
              else case checkRegisteredRedirectURI uri allowInsecure of
                  Some err \<Rightarrow> Inl (BadRedirectURI cid uri err)
                | None \<Rightarrow> ParseClientRegistry_loop allowInsecure es
                    (AList.update cid (c\<lparr>ci_RedirectURIs := ci_RedirectURIs c @ [uri],
                       ci_GrantTypes := [grantAuthorizationCode, grantRefreshToken]\<rparr>) reg)))"

definition ParseClientRegistry :: "bool \<Rightarrow> string \<Rightarrow> RegistrationError + ClientRegistry" where
  "ParseClientRegistry allowInsecure raw = ParseClientRegistry_loop allowInsecure (Split raw (CHR '','')) []"

definition matchRedirectURI :: "Client \<Rightarrow> string \<Rightarrow> bool" where
  "matchRedirectURI c raw =
     (if raw = [] then False
      else if raw \<in> set (ci_RedirectURIs c) then True
      else case parseRedirectURI raw of
          Inl _ \<Rightarrow> False
        | Inr req \<Rightarrow>
            if \<not> isLoopback req \<or> HasSuffix (u_Host req) '':'' then False
            else if urlString req \<noteq> raw \<or> u_RawQuery req \<noteq> [] \<or> u_ForceQuery req then False
            else list_ex (\<lambda>reg. case ParseURL reg of
                None \<Rightarrow> False
              | Some u \<Rightarrow> isLoopback u \<and> u_Scheme req = u_Scheme u \<and> Hostname req = Hostname u \<and> EscapedPath req = EscapedPath u)
              (ci_RedirectURIs c))"

datatype ClientError = ErrUnknownClient | ErrUnauthorizedClient | ErrRedirectURINotAllowed

definition ValidateClient :: "ClientRegistry \<Rightarrow> string \<Rightarrow> string \<Rightarrow> ClientError option" where
  "ValidateClient r clientID redirectURI =
     (case map_of r clientID of
        None \<Rightarrow> Some ErrUnknownClient
      | Some c \<Rightarrow>
          if \<not> Allows c grantAuthorizationCode then Some ErrUnauthorizedClient
          else if \<not> matchRedirectURI c redirectURI then Some ErrRedirectURINotAllowed
          else None)"

section \<open>Laws of parsed URLs\<close>

lemma setPath_fields:
  assumes "setPath p u = Some v"
  obtains path where "unescape encodePath p = Some path" "v = u\<lparr>u_Path := path, u_RawPath := (if escape encodePath path = p then [] else p)\<rparr>"
  using assms by (auto simp: setPath_def split: option.splits)

lemma not_escaped_path: "\<not> shouldEscape (CHR ''/'') encodePath"
  by (simp add: shouldEscape_def alnum_def)

text \<open>The path a \<^verbatim>\<open>setPath\<close> stored is written back as it was read, or in its default encoding.\<close>

lemma EscapedPath_cases:
  assumes "setPath p u = Some v"
  shows "EscapedPath v = p \<or> EscapedPath v = escape encodePath (u_Path v) \<or> u_Path v = ''*''"
  using assms by (auto simp: EscapedPath_def elim!: setPath_fields)

lemma EscapedPath_slash:
  assumes "setPath (CHR ''/'' # p) u = Some v"
  shows "\<exists>q. EscapedPath v = CHR ''/'' # q"
proof -
  obtain path where path: "unescape encodePath (CHR ''/'' # p) = Some path" "v = u\<lparr>u_Path := path, u_RawPath := (if escape encodePath path = CHR ''/'' # p then [] else CHR ''/'' # p)\<rparr>"
    using assms by (rule setPath_fields)
  then obtain q where q: "path = CHR ''/'' # q" by auto
  then have "escape encodePath path = CHR ''/'' # escape encodePath q" using not_escaped_path by (simp add: escape_def)
  then show ?thesis using path(2) q by (auto simp: EscapedPath_def)
qed

lemma EscapedPath_nil:
  assumes "setPath [] u = Some v"
  shows "EscapedPath v = [] \<and> u_Path v = []"
  using assms by (auto simp: setPath_def EscapedPath_def escape_def)

text \<open>What a parsed URL with a host looks like: its path is empty or starts with a slash, and its host came from \<^verbatim>\<open>parseHost\<close>.\<close>

lemma setPath_other:
  "setPath p u = Some v \<Longrightarrow> u_Host v = u_Host u \<and> u_Scheme v = u_Scheme u \<and> u_Opaque v = u_Opaque u \<and> u_User v = u_User u \<and>
     u_OmitHost v = u_OmitHost u \<and> u_Fragment v = u_Fragment u \<and> u_RawQuery v = u_RawQuery u \<and> u_ForceQuery v = u_ForceQuery u"
  by (auto elim!: setPath_fields)

lemma parseRest_host:
  assumes "parseRest u0 rest = Some u" "u_Host u \<noteq> []" "u_Host u0 = []" "\<not> u_OmitHost u0" "u_Opaque u0 = []"
  obtains rawhost p u1 where "parseHost (u_Scheme u) rawhost = Some (u_Host u)" "setPath p u1 = Some u"
    "p = [] \<or> (\<exists>q. p = CHR ''/'' # q)" "u_Opaque u = []" "\<not> u_OmitHost u" "u_Fragment u = u_Fragment u0"
proof -
  obtain authority path user host where a: "cutAuthority (drop 2 rest) = (authority, path)" "parseAuthority (u_Scheme u0) authority = Some (user, host)"
    "setPath path (u0\<lparr>u_User := user, u_Host := host\<rparr>) = Some u"
    using assms(1-3) by (auto simp: parseRest_def dest!: setPath_other split: if_splits option.splits prod.splits)
  note f = setPath_other[OF a(3)]
  obtain rawhost where "parseHost (u_Scheme u0) rawhost = Some host"
    using a(2) by (auto simp: parseAuthority_def Let_def split: if_splits option.splits prod.splits)
  moreover have "path = [] \<or> (\<exists>q. path = CHR ''/'' # q)"
    using a(1) by (cases path) (auto simp: cutAuthority_def dropWhile_eq_Cons_conv)
  ultimately show thesis using that[of rawhost path] a(3) f assms(4,5) by simp
qed

lemma parseURL_host:
  assumes "parseURL s = Some u" "u_Host u \<noteq> []"
  obtains rawhost p u1 where "parseHost (u_Scheme u) rawhost = Some (u_Host u)" "setPath p u1 = Some u"
    "p = [] \<or> (\<exists>q. p = CHR ''/'' # q)" "u_Opaque u = []" "\<not> u_OmitHost u" "u_Fragment u = []"
proof -
  obtain u0 rest where "parseRest u0 rest = Some u" "u_Host u0 = []" "\<not> u_OmitHost u0" "u_Opaque u0 = []" "u_Fragment u0 = []"
    using assms by (auto simp: parseURL_def newURL_def split: if_splits option.splits prod.splits)
  then show thesis using parseRest_host[of u0 rest u] assms(2) that by metis
qed

lemma ParseURL_no_fragment: "ParseURL raw = Some u \<Longrightarrow> CHR ''#'' \<notin> set raw \<Longrightarrow> parseURL raw = Some u"
  by (auto simp: ParseURL_def split: option.splits)

section \<open>Loopback hosts\<close>

definition portSuffix :: "string \<Rightarrow> bool" where
  "portSuffix p = (p = [] \<or> (\<exists>ds. p = CHR '':'' # ds \<and> ds \<noteq> [] \<and> list_all isDigitByte ds))"

definition loopbackHosts :: "string set" where "loopbackHosts = {''127.0.0.1'', ''[::1]''}"

lemma validOptionalPort_cases: "validOptionalPort p \<longleftrightarrow> p = [] \<or> (\<exists>ds. p = CHR '':'' # ds \<and> list_all isDigitByte ds)"
  by (cases p) (auto simp: validOptionalPort_def)

lemma validOptionalPort_chars: "validOptionalPort p \<Longrightarrow> c \<in> set p \<Longrightarrow> c = CHR '':'' \<or> isDigitByte c"
  by (auto simp: validOptionalPort_cases list_all_iff)

lemma not_digits [simp]: "\<not> isDigitByte (CHR '']'')" "\<not> isDigitByte (CHR ''['')" "\<not> isDigitByte (CHR ''/'')" "\<not> isDigitByte (CHR ''@'')"
  "\<not> isDigitByte (CHR ''?'')" "\<not> isDigitByte (CHR ''#'')" "\<not> isDigitByte (CHR '':'')"
  by (simp_all add: isDigitByte_def)

lemma Hostname_cases: "\<exists>p. validOptionalPort p \<and> (u_Host u = Hostname u @ p \<or> u_Host u = ''['' @ Hostname u @ '']'' @ p)"
proof -
  let ?H = "u_Host u" and ?c = "LastIndex (u_Host u) (CHR '':'')"
  obtain host p where hp: "validOptionalPort p" "?H = host @ p"
      "Hostname u = (if HasPrefix host ''['' \<and> HasSuffix host '']'' then take (length host - 2) (drop 1 host) else host)"
  proof (cases "0 \<le> ?c \<and> validOptionalPort (drop (nat ?c) ?H)")
    case True
    then show ?thesis using that[of "drop (nat ?c) ?H" "take (nat ?c) ?H"] by (simp add: Hostname_def urlSplitHostPort_def Let_def)
  next
    case False
    then show ?thesis using that[of "[]" ?H] by (auto simp: Hostname_def urlSplitHostPort_def Let_def validOptionalPort_def)
  qed
  show ?thesis
  proof (cases "HasPrefix host ''['' \<and> HasSuffix host '']''")
    case True
    then obtain v where v: "host = v @ '']''" unfolding HasSuffix_eq by blast
    then obtain w where w: "v = CHR ''['' # w" using True by (cases v) (auto simp: HasPrefix_def)
    then have "Hostname u = w" using hp(3) True v by simp
    then show ?thesis using hp(1,2) v w by auto
  qed (use hp in auto)
qed

lemma parseHost_bracket:
  assumes "parseHost scheme raw = Some H" "HasPrefix H ''[''"
  shows "\<exists>h p. H = ''['' @ h @ '']'' @ p \<and> isIPv6 h \<and> validOptionalPort p"
proof (cases "LastIndex raw (CHR ''['') = 0")
  case True
  then show ?thesis using assms(1) by (auto simp: parseHost_def Let_def split: if_splits option.splits)
next
  case False
  then have "unescape encodeHost raw = Some H" "LastIndex raw (CHR ''['') < 0" using assms(1) by (auto simp: parseHost_def Let_def split: if_splits)
  moreover have "CHR ''['' \<in> set H" using assms(2) by (cases H) (auto simp: HasPrefix_def)
  ultimately have "CHR ''['' \<in> set raw" using unescape_host_ascii by simp
  then show ?thesis using \<open>LastIndex raw _ < 0\<close> LastIndex_neg_iff by simp
qed

lemma bracket_unique:
  assumes "h @ CHR '']'' # p = h' @ CHR '']'' # p'" "CHR '']'' \<notin> set h" "CHR '']'' \<notin> set p"
  shows "h = h'"
proof -
  have "CHR '']'' \<notin> set h'"
  proof
    assume "CHR '']'' \<in> set h'"
    then have "2 \<le> count_list (h' @ CHR '']'' # p') (CHR '']'')" using count_list_0_iff[of h' "CHR '']''"] by (simp add: Suc_le_eq)
    moreover have "count_list (h @ CHR '']'' # p) (CHR '']'') = 1" using assms(2,3) by simp
    ultimately show False using assms(1) by simp
  qed
  moreover have "takeWhile (\<lambda>c. c \<noteq> CHR '']'') (g @ CHR '']'' # q) = g" if "CHR '']'' \<notin> set g" for g q
    using that by (induction g) auto
  ultimately show ?thesis using assms(1,2) by metis
qed

lemma loopback_host:
  assumes "parseURL raw = Some u" "isLoopback u" "u_Host u \<noteq> []" "\<not> HasSuffix (u_Host u) '':''"
  shows "\<exists>h p. h \<in> loopbackHosts \<and> portSuffix p \<and> u_Host u = h @ p \<and> (Hostname u = ''127.0.0.1'' \<longleftrightarrow> h = ''127.0.0.1'')"
proof -
  obtain rawhost where rh: "parseHost (u_Scheme u) rawhost = Some (u_Host u)" using parseURL_host[OF assms(1,3)] by metis
  obtain p where p: "validOptionalPort p" "u_Host u = Hostname u @ p \<or> u_Host u = ''['' @ Hostname u @ '']'' @ p" using Hostname_cases by blast
  have "p \<noteq> '':''" using p(2) assms(4) unfolding HasSuffix_eq by (metis append.assoc)
  then have suffix: "portSuffix p" using p(1) unfolding portSuffix_def validOptionalPort_cases by blast
  have nob: "CHR '']'' \<notin> set p" using validOptionalPort_chars[OF p(1)] by force
  consider (v4) "Hostname u = ''127.0.0.1''" | (v6) "Hostname u = ''::1''" "HasPrefix (u_Host u) ''[::1]''"
    using assms(2) by (auto simp: isLoopback_def Let_def split: if_splits)
  then show ?thesis
  proof cases
    case v4
    have "u_Host u \<noteq> ''['' @ Hostname u @ '']'' @ p"
    proof
      assume H: "u_Host u = ''['' @ Hostname u @ '']'' @ p"
      then obtain h p' where b: "u_Host u = ''['' @ h @ '']'' @ p'" "isIPv6 h" using parseHost_bracket[OF rh] unfolding HasPrefix_def by auto
      have "''127.0.0.1'' @ CHR '']'' # p = h @ CHR '']'' # p'" using H b(1) v4 by (simp only: append_Cons append_Nil list.inject)
      from bracket_unique[OF this _ nob] have "''127.0.0.1'' = h" by simp
      moreover have "\<not> isIPv6 ''127.0.0.1''" by code_simp
      ultimately show False using b(2) by simp
    qed
    then show ?thesis using p suffix v4 by (auto simp: loopbackHosts_def)
  next
    case v6
    then have "u_Host u = ''[::1]'' @ p" using p by (auto simp: HasPrefix_def)
    then show ?thesis using suffix v6 by (auto simp: loopbackHosts_def)
  qed
qed

section \<open>Loopback URIs are parsed and written back\<close>

lemma pctEncode_shape: "c \<in> set (pctEncode d) \<Longrightarrow> c = CHR ''%'' \<or> alnum c"
proof -
  have "alnum (hexUpper (of_char d div 16))" "alnum (hexUpper (of_char d mod 16))"
    by (rule hexUpper_alnum; simp add: less_mult_imp_div_less)+
  then show "c \<in> set (pctEncode d) \<Longrightarrow> c = CHR ''%'' \<or> alnum c" by (auto simp: pctEncode_def Let_def)
qed

lemma escape_shape: "c \<in> set (escape mode s) \<Longrightarrow> (\<not> shouldEscape c mode) \<or> c = CHR ''%'' \<or> alnum c"
  by (induction s) (auto simp: escape_def dest: pctEncode_shape split: if_splits)

definition pathByte :: "char \<Rightarrow> bool" where
  "pathByte c = (c \<noteq> CHR ''?'' \<and> c \<noteq> CHR ''#'' \<and> \<not> (of_char c < (32::nat) \<or> of_char c = (127::nat)))"

lemma escaped_bytes: "\<not> shouldEscape c encodePath \<Longrightarrow> pathByte c"
proof -
  have ctl: "shouldEscape c encodePath" if "(of_char c :: nat) < 32 \<or> (of_char c :: nat) = 127"
  proof -
    have "\<not> alnum c" using that by (auto simp: alnum_def Let_def)
    moreover have "c \<notin> set ''-_.~$&+,/:;=?@''" using that by auto
    ultimately show ?thesis by (simp add: shouldEscape_def)
  qed
  have "shouldEscape (CHR ''?'') encodePath" "shouldEscape (CHR ''#'') encodePath" by code_simp+
  then show "\<not> shouldEscape c encodePath \<Longrightarrow> pathByte c" using ctl unfolding pathByte_def by blast
qed

lemma alnum_pathByte: "alnum c \<Longrightarrow> pathByte c"
  by (auto simp: alnum_def pathByte_def Let_def)

lemma sub_delims_pathByte: "c \<in> set ''!$&()*+,;=:@[]%'' \<or> of_char c = (39::nat) \<Longrightarrow> pathByte c"
  by (auto simp: pathByte_def)

lemma EscapedPath_bytes: "list_all pathByte (EscapedPath u)"
proof -
  have "pathByte c" if "c \<in> set (EscapedPath u)" for c
  proof -
    consider "c = CHR ''*''" | "c \<in> set (escape encodePath (u_Path u))" | "validEncoded (u_RawPath u) encodePath" "c \<in> set (u_RawPath u)"
      using \<open>c \<in> set _\<close> by (auto simp: EscapedPath_def split: if_splits)
    then show ?thesis
    proof cases
      case 2
      then show ?thesis using escape_shape escaped_bytes alnum_pathByte by (metis sub_delims_pathByte insertI1 list.simps(15) insertI2)
    next
      case 3
      then show ?thesis using escaped_bytes sub_delims_pathByte unfolding validEncoded_def list_all_iff by blast
    qed (simp add: sub_delims_pathByte)
  qed
  then show ?thesis by (simp add: list_all_iff)
qed

lemma unescape_EscapedPath: "unescape encodePath (EscapedPath u) = Some (u_Path u)"
  by (auto simp: EscapedPath_def unescape_escape)

lemma EscapedPath_again:
  assumes "setPath (EscapedPath u) v = Some w" "u_Path u \<noteq> ''*''"
  shows "EscapedPath w = EscapedPath u"
proof -
  have w: "u_Path w = u_Path u" "u_RawPath w = (if escape encodePath (u_Path u) = EscapedPath u then [] else EscapedPath u)"
    using assms unescape_EscapedPath[of u] by (auto elim!: setPath_fields)
  then show ?thesis using unescape_EscapedPath[of u] assms(2) by (cases "escape encodePath (u_Path u) = EscapedPath u") (auto simp: EscapedPath_def split: if_splits)
qed

lemma getScheme_http: "getScheme (''http:'' @ r) = Some (''http'', r)"
  by (simp add: getScheme_def alnum_def isAlphaByte_def)

lemma host_plain:
  assumes "h \<in> loopbackHosts" "portSuffix pt"
  shows "list_all (\<lambda>c. \<not> shouldEscape c encodeHost) (h @ pt)"
proof -
  have "list_all (\<lambda>c. \<not> shouldEscape c encodeHost) ''127.0.0.1''" "list_all (\<lambda>c. \<not> shouldEscape c encodeHost) ''[::1]''" by code_simp+
  moreover have "\<not> shouldEscape c encodeHost" if "c \<in> set pt" for c
  proof -
    have "c = CHR '':'' \<or> alnum c" using that assms(2) by (auto simp: portSuffix_def list_all_iff isDigitByte_def alnum_def Let_def)
    moreover have "\<not> shouldEscape (CHR '':'') encodeHost" by code_simp
    ultimately show ?thesis by (auto simp: shouldEscape_def)
  qed
  ultimately show ?thesis using assms(1) by (auto simp: loopbackHosts_def list_all_iff)
qed

lemma portSuffix_valid: "portSuffix pt \<Longrightarrow> validOptionalPort pt"
  by (auto simp: portSuffix_def validOptionalPort_cases)

lemma portSuffix_absent: "portSuffix pt \<Longrightarrow> c \<noteq> CHR '':'' \<Longrightarrow> \<not> isDigitByte c \<Longrightarrow> c \<notin> set pt"
  by (auto simp: portSuffix_def list_all_iff)

lemma parseHost_loopback:
  assumes "h \<in> loopbackHosts" "portSuffix pt"
  shows "parseHost ''http'' (h @ pt) = Some (h @ pt)"
proof (cases "h = ''[::1]''")
  case True
  have "CHR '']'' \<notin> set pt" using assms(2) by (rule portSuffix_absent) simp_all
  then have "LastIndex (''[::1'' @ CHR '']'' # pt) (CHR '']'') = 4" using LastIndex_last[of "CHR '']''" pt "''[::1''"] by simp
  moreover have "CHR ''['' \<notin> set pt" using assms(2) by (rule portSuffix_absent) simp_all
  then have "LastIndex ([] @ CHR ''['' # ''::1]'' @ pt) (CHR ''['') = 0" using LastIndex_last[of "CHR ''[''" "''::1]'' @ pt" "[]"] by simp
  moreover have "unescapeIPHost ''::1'' = Some ''::1''" "isIPv6 ''::1''" by code_simp+
  ultimately show ?thesis using True portSuffix_valid[OF assms(2)] by (simp add: parseHost_def del: LastIndex.simps)
next
  case False
  then have h: "h = ''127.0.0.1''" using assms(1) by (simp add: loopbackHosts_def)
  have "CHR ''['' \<notin> set pt" using assms(2) by (rule portSuffix_absent) simp_all
  then have nob: "LastIndex (h @ pt) (CHR ''['') = -1" using h by (intro LastIndex_absent) simp
  have un: "unescape encodeHost (h @ pt) = Some (h @ pt)" using host_plain[OF assms] by (rule unescape_plain)
  show ?thesis
  proof (cases "pt = []")
    case True
    then have "LastIndex (h @ pt) (CHR '':'') = -1" using h by (intro LastIndex_absent) simp
    then show ?thesis using nob un by (simp add: parseHost_def)
  next
    case False
    then obtain ds where ds: "pt = CHR '':'' # ds" "list_all isDigitByte ds" using assms(2) by (auto simp: portSuffix_def)
    then have "CHR '':'' \<notin> set ds" by (auto simp: list_all_iff)
    then have "LastIndex (h @ pt) (CHR '':'') = int (length h)" "Index (h @ pt) (CHR '':'') = int (length h)" using ds(1) h by simp_all
    then show ?thesis using nob un portSuffix_valid[OF assms(2)] by (simp add: parseHost_def)
  qed
qed

lemma ParseURL_loopback:
  assumes "h \<in> loopbackHosts" "portSuffix pt" "list_all pathByte (CHR ''/'' # q)"
  shows "ParseURL (''http://'' @ h @ pt @ CHR ''/'' # q) = setPath (CHR ''/'' # q) (newURL\<lparr>u_Scheme := ''http'', u_Host := h @ pt\<rparr>)"
proof -
  let ?rest = "''//'' @ h @ pt @ CHR ''/'' # q"
  have hpt: "c \<notin> set (h @ pt)" if "c \<in> {CHR ''/'', CHR ''?'', CHR ''#'', CHR ''@''}" for c
  proof -
    have "c \<noteq> CHR '':'' \<and> \<not> isDigitByte c" using that by (elim insertE) simp_all
    then have "c \<notin> set pt" using portSuffix_absent[OF assms(2)] by blast
    moreover have "c \<notin> set ''127.0.0.1'' \<and> c \<notin> set ''[::1]''" using that by (elim insertE) simp_all
    ultimately show ?thesis using assms(1) unfolding loopbackHosts_def by (elim insertE) simp_all
  qed
  have q: "CHR ''?'' \<notin> set q" "CHR ''#'' \<notin> set q" "\<not> containsCTLByte (CHR ''/'' # q)"
    using assms(3) by (auto simp: list_all_iff list_ex_iff pathByte_def containsCTLByte_def)
  have "\<not> containsCTLByte h" using assms(1) by (auto simp: loopbackHosts_def containsCTLByte_def)
  moreover have "\<not> containsCTLByte pt"
    using assms(2) by (fastforce simp: containsCTLByte_def portSuffix_def list_ex_iff list_all_iff isDigitByte_def Let_def)
  ultimately have "\<not> containsCTLByte (h @ pt)" by (simp add: containsCTLByte_def)
  then have ctl: "\<not> containsCTLByte (''http://'' @ h @ pt @ CHR ''/'' # q)" using q(3) by (simp add: containsCTLByte_def)
  have "CHR ''?'' \<notin> set ?rest" using hpt q(1) by auto
  then have cq: "cutQuery ?rest = (?rest, False, [])" by (simp add: cutQuery_def del: append_Cons)
  have "takeWhile (\<lambda>c. c \<noteq> CHR ''/'') ((h @ pt) @ CHR ''/'' # q) = h @ pt" "dropWhile (\<lambda>c. c \<noteq> CHR ''/'') ((h @ pt) @ CHR ''/'' # q) = CHR ''/'' # q"
    using hpt[of "CHR ''/''"] by (auto simp: takeWhile_append dropWhile_append)
  then have ca: "cutAuthority (h @ pt @ CHR ''/'' # q) = (h @ pt, CHR ''/'' # q)" by (simp add: cutAuthority_def)
  have "LastIndex (h @ pt) (CHR ''@'') = -1" using hpt[of "CHR ''@''"] by (intro LastIndex_absent) simp
  then have pa: "parseAuthority ''http'' (h @ pt) = Some (None, h @ pt)" using parseHost_loopback[OF assms(1,2)] by (simp add: parseAuthority_def)
  have low: "ToLower ''http'' = ''http''" by code_simp
  have rest: "parseRest (newURL\<lparr>u_Scheme := ''http'', u_ForceQuery := False, u_RawQuery := []\<rparr>) ?rest =
      setPath (CHR ''/'' # q) (newURL\<lparr>u_Scheme := ''http'', u_Host := h @ pt\<rparr>)"
    using ca pa by (simp add: parseRest_def HasPrefix_def newURL_def)
  have "parseURL (''http:'' @ ?rest) = setPath (CHR ''/'' # q) (newURL\<lparr>u_Scheme := ''http'', u_Host := h @ pt\<rparr>)"
    unfolding parseURL_def getScheme_http using ctl cq low rest by simp
  moreover have "CHR ''#'' \<notin> set (''http:'' @ ?rest)" using hpt q(2) by auto
  ultimately show ?thesis by (simp add: ParseURL_def split: option.split)
qed

lemma Hostname_loopback:
  assumes "h \<in> loopbackHosts" "portSuffix pt" "u_Host u = h @ pt"
  shows "Hostname u = (if h = ''127.0.0.1'' then h else ''::1'') \<and> Port u = drop 1 pt"
proof -
  have split: "urlSplitHostPort (h @ pt) = (if HasPrefix h ''['' \<and> HasSuffix h '']'' then take (length h - 2) (drop 1 h) else h, drop 1 pt)"
    if ne: "pt \<noteq> []"
  proof -
    obtain ds where ds: "pt = CHR '':'' # ds" "list_all isDigitByte ds" using assms(2) ne by (auto simp: portSuffix_def)
    then have "CHR '':'' \<notin> set ds" by (auto simp: list_all_iff)
    then have "LastIndex (h @ pt) (CHR '':'') = int (length h)" using ds(1) by simp
    then show ?thesis using portSuffix_valid[OF assms(2)] ds(1) by (simp add: urlSplitHostPort_def Let_def)
  qed
  have "urlSplitHostPort ''127.0.0.1'' = (''127.0.0.1'', [])" "urlSplitHostPort ''[::1]'' = (''::1'', [])" by code_simp+
  moreover have "HasPrefix ''[::1]'' ''[''" "HasSuffix ''[::1]'' '']''" "\<not> HasPrefix ''127.0.0.1'' ''[''" by code_simp+
  ultimately show ?thesis using split assms(1,3) by (cases "pt = []") (auto simp: Hostname_def Port_def loopbackHosts_def)
qed

lemma parseRedirectURI_iff:
  "parseRedirectURI raw = Inr u \<longleftrightarrow> parseURL raw = Some u \<and> u_Scheme u \<noteq> [] \<and> u_Opaque u = [] \<and> u_Host u \<noteq> [] \<and>
     \<not> HasSuffix (u_Host u) '':'' \<and> u_User u = None \<and> CHR ''#'' \<notin> set raw"
proof
  assume "parseRedirectURI raw = Inr u"
  then have "ParseURL raw = Some u" "CHR ''#'' \<notin> set raw" "u_Scheme u \<noteq> [] \<and> u_Opaque u = [] \<and> u_Host u \<noteq> [] \<and> \<not> HasSuffix (u_Host u) '':'' \<and> u_User u = None"
    by (auto simp: parseRedirectURI_def IsAbs_def split: option.splits if_splits) (metis option.exhaust prod.exhaust)
  then show "parseURL raw = Some u \<and> u_Scheme u \<noteq> [] \<and> u_Opaque u = [] \<and> u_Host u \<noteq> [] \<and> \<not> HasSuffix (u_Host u) '':'' \<and> u_User u = None \<and> CHR ''#'' \<notin> set raw"
    using ParseURL_no_fragment by blast
next
  assume "parseURL raw = Some u \<and> u_Scheme u \<noteq> [] \<and> u_Opaque u = [] \<and> u_Host u \<noteq> [] \<and> \<not> HasSuffix (u_Host u) '':'' \<and> u_User u = None \<and> CHR ''#'' \<notin> set raw"
  then show "parseRedirectURI raw = Inr u" by (simp add: parseRedirectURI_def ParseURL_def IsAbs_def)
qed

lemma loopback_string:
  assumes "parseRedirectURI raw = Inr u" "isLoopback u" "u_RawQuery u = []" "\<not> u_ForceQuery u"
  obtains h pt where "h \<in> loopbackHosts" "portSuffix pt" "u_Host u = h @ pt" "urlString u = ''http://'' @ h @ pt @ EscapedPath u"
    "EscapedPath u = [] \<and> u_Path u = [] \<or> (\<exists>q. EscapedPath u = CHR ''/'' # q \<and> u_Path u \<noteq> [] \<and> u_Path u \<noteq> ''*'')"
proof -
  have u: "parseURL raw = Some u" "u_Scheme u = ''http''" "u_Opaque u = []" "u_Host u \<noteq> []" "\<not> HasSuffix (u_Host u) '':''" "u_User u = None"
    using assms(1,2) unfolding parseRedirectURI_iff by (auto simp: isLoopback_def split: if_splits)
  obtain h pt where h: "h \<in> loopbackHosts" "portSuffix pt" "u_Host u = h @ pt" using loopback_host[OF u(1) assms(2) u(4,5)] by blast
  obtain p u1 where p: "setPath p u1 = Some u" "p = [] \<or> (\<exists>q. p = CHR ''/'' # q)" "\<not> u_OmitHost u" "u_Fragment u = []"
    using parseURL_host[OF u(1,4)] by metis
  have ep: "EscapedPath u = [] \<and> u_Path u = [] \<or> (\<exists>q. EscapedPath u = CHR ''/'' # q \<and> u_Path u \<noteq> [] \<and> u_Path u \<noteq> ''*'')"
    using p(2)
  proof
    assume "\<exists>q. p = CHR ''/'' # q"
    then obtain q where q: "p = CHR ''/'' # q" by blast
    then have "\<exists>r. u_Path u = CHR ''/'' # r" using p(1) by (auto elim!: setPath_fields)
    then show ?thesis using EscapedPath_slash p(1) q by auto
  qed (use EscapedPath_nil p(1) in blast)
  have "escape encodeHost (u_Host u) = u_Host u" using escape_plain[OF host_plain[OF h(1,2)]] h(3) by simp
  then have "urlString u = ''http://'' @ h @ pt @ EscapedPath u"
    using u p(3,4) h(3) ep assms(3,4) by (auto simp: urlString_def urlBase_def urlAuthority_def Let_def)
  then show thesis using that h ep by blast
qed

end
