(* ===== verification/Authorize.thy ===== *)
theory Authorize
  imports Upstream_Binding Clients
begin

text \<open>
  GET /authorize (src/oidc/authorize.go): the request is validated, stored as a pending \<^verbatim>\<open>AuthRequest\<close> under a
  random state, bound to the browser with a cookie, and the browser is sent upstream. \<^verbatim>\<open>authorizationResponse\<close>
  is what carries every answer, success or error, back to the client. Redaction is left out. The clock reading,
  the random bytes of the state and the moment the connector is asked are inputs.
\<close>

section \<open>Requests and configuration\<close>

record authorizeInput =
  ai_ResponseType :: string
  ai_ClientID :: string
  ai_RedirectURI :: string
  ai_Scope :: string
  ai_State :: string
  ai_CodeChallenge :: string
  ai_CodeChallengeMethod :: string
  ai_Nonce :: string

record authorizeOutput =
  ao_Status :: nat
  ao_Location :: string
  ao_SetCookie :: "Cookie option"

record 'st Authorizer =
  az_SaveAuthRequest :: "'st \<Rightarrow> AuthRequest \<Rightarrow> StoreError option \<times> 'st"
  az_clients :: ClientRegistry
  az_binding :: UpstreamBinding
  az_connectors :: Connectors
  az_issuer :: string

record AuthorizeEnv =
  ave_state :: "string option"
  ave_now :: Time
  ave_upstream :: Time

definition NewAuthorizer :: "('st \<Rightarrow> AuthRequest \<Rightarrow> StoreError option \<times> 'st) \<Rightarrow> ClientRegistry \<Rightarrow> UpstreamBinding \<Rightarrow> Connectors \<Rightarrow> string \<Rightarrow> 'st Authorizer" where
  "NewAuthorizer store clients binding connectors issuer =
     \<lparr>az_SaveAuthRequest = store, az_clients = clients, az_binding = binding, az_connectors = connectors, az_issuer = TrimRight issuer (CHR ''/'')\<rparr>"

definition randomState :: "string option \<Rightarrow> string option" where
  "randomState rnd = map_option RawURLEncode rnd"

section \<open>The handler\<close>

definition Fields :: "string \<Rightarrow> string list" where
  "Fields s = filter (\<lambda>f. f \<noteq> []) (Split (map (\<lambda>c. if isSpace c then CHR '' '' else c) s) (CHR '' ''))"

definition scopeContains :: "string \<Rightarrow> string \<Rightarrow> bool" where
  "scopeContains scope want = list_ex (\<lambda>s. s = want) (Fields scope)"

definition checkAuthorize :: "'st Authorizer \<Rightarrow> authorizeInput \<Rightarrow> (string \<times> string) option" where
  "checkAuthorize a inp =
     (if ai_ResponseType inp \<noteq> ''code'' then Some (''unsupported_response_type'', ''only response_type=code is supported'')
      else if \<not> scopeContains (ai_Scope inp) ''openid'' then Some (''invalid_scope'', ''scope must include openid'')
      else if ai_CodeChallenge inp = [] then
        (if \<not> IsConfidential (az_clients a) (ai_ClientID inp) then Some (invalid_request, ''code_challenge is required (PKCE)'') else None)
      else if \<not> validCodeChallenge (ai_CodeChallenge inp) then Some (invalid_request, ''code_challenge must be 43 base64url characters (S256)'')
      else if ai_CodeChallengeMethod inp \<noteq> ''S256'' then Some (invalid_request, ''code_challenge_method must be S256'')
      else None)"

definition setAll :: "Values \<Rightarrow> Values \<Rightarrow> Values" where
  "setAll params q = fold (\<lambda>(k, v) q. SetValue k v q) params q"

definition authorizationResponse :: "string \<Rightarrow> string \<Rightarrow> string \<Rightarrow> Values \<Rightarrow> string option" where
  "authorizationResponse redirectURI issuer state params =
     (case ParseURL redirectURI of
        None \<Rightarrow> None
      | Some u \<Rightarrow>
          (let q = setAll params (Query (u_RawQuery u));
               q = (if state \<noteq> [] then SetValue ''state'' state q else q);
               q = (if issuer \<noteq> [] then SetValue ''iss'' issuer q else q)
           in Some (urlString (u\<lparr>u_RawQuery := EncodeValues q\<rparr>))))"

definition pendingRequest :: "authorizeInput \<Rightarrow> string \<Rightarrow> string \<Rightarrow> Time \<Rightarrow> AuthRequest" where
  "pendingRequest inp internalState connectorID now =
     \<lparr>ar_InternalState = internalState, ar_ConnectorID = connectorID, ar_ClientID = ai_ClientID inp, ar_RedirectURI = ai_RedirectURI inp,
      ar_Scope = ai_Scope inp, ar_ClientState = ai_State inp, ar_CodeChallenge = ai_CodeChallenge inp,
      ar_CodeChallengeMethod = ai_CodeChallengeMethod inp, ar_Nonce = ai_Nonce inp, ar_CreatedAt = now, ar_ExpiresAt = now + authRequestTTL\<rparr>"

definition beginParams :: "'st Authorizer \<Rightarrow> string \<Rightarrow> string \<Rightarrow> BeginParams" where
  "beginParams a cid internalState =
     \<lparr>bp_RedirectURI = az_issuer a @ CallbackPath cid, bp_State = internalState, bp_CodeChallenge = codeChallenge (az_binding a) cid internalState,
      bp_Nonce = upstreamNonce (az_binding a) cid internalState, bp_RequestID = requestID (az_binding a) cid internalState\<rparr>"

definition authorize :: "'st Authorizer \<Rightarrow> AuthorizeEnv \<Rightarrow> authorizeInput \<Rightarrow> 'st \<Rightarrow> (HandlerError + authorizeOutput) \<times> 'st" where
  "authorize a env inp st =
     (case checkParamLengths
        [(''client_id'', ai_ClientID inp, maxClientIDLen), (''redirect_uri'', ai_RedirectURI inp, maxRedirectURILen),
         (''scope'', ai_Scope inp, maxScopeLen), (''state'', ai_State inp, maxStateLen), (''nonce'', ai_Nonce inp, maxNonceLen)] of
        Some e \<Rightarrow> (Inl e, st)
      | None \<Rightarrow>
      (case ValidateClient (az_clients a) (ai_ClientID inp) (ai_RedirectURI inp) of
         Some ErrUnknownClient \<Rightarrow> (Inl (OAuthErr 400 invalid_client ''unknown client_id''), st)
       | Some ErrUnauthorizedClient \<Rightarrow> (Inl (OAuthErr 400 ''unauthorized_client'' ''client is not registered for the authorization-code flow''), st)
       | Some ErrRedirectURINotAllowed \<Rightarrow> (Inl (OAuthErr 400 invalid_request ''redirect_uri not registered for this client''), st)
       | None \<Rightarrow>
       (case checkAuthorize a inp of
          Some (code, desc) \<Rightarrow>
            (case authorizationResponse (ai_RedirectURI inp) (az_issuer a) (ai_State inp) [(''error'', code), (''error_description'', desc)] of
               None \<Rightarrow> (Inl (ServerErr ''oidc: parse redirect_uri''), st)
             | Some loc \<Rightarrow> (Inr \<lparr>ao_Status = 302, ao_Location = loc, ao_SetCookie = None\<rparr>, st))
        | None \<Rightarrow>
        (case randomState (ave_state env) of
           None \<Rightarrow> (Inl (ServerErr ''oidc: generate state''), st)
         | Some internalState \<Rightarrow>
             (let conn = Active (az_connectors a); cid = cn_ID conn in
              case az_SaveAuthRequest a st (pendingRequest inp internalState cid (ave_now env)) of
                (Some e, st') \<Rightarrow> (Inl (ServerErr ''oidc: persist auth request''), st')
              | (None, st') \<Rightarrow>
                  (case cn_Begin conn (ave_upstream env) (beginParams a cid internalState) of
                     None \<Rightarrow> (Inl (ServerErr ''oidc: begin sign-in''), st')
                   | Some url \<Rightarrow> (Inr \<lparr>ao_Status = 302, ao_Location = url, ao_SetCookie = Some (bindingCookie (az_binding a) cid internalState)\<rparr>, st')))))))"

section \<open>Laws\<close>

lemma urlBase_query [simp]: "urlBase (u\<lparr>u_RawQuery := q\<rparr>) = urlBase u"
  by (simp add: urlBase_def urlAuthority_def EscapedPath_def)

lemma Get_setAll: "distinct (map fst params) \<Longrightarrow> Get (setAll params q) k = (case map_of params k of Some v \<Rightarrow> v | None \<Rightarrow> Get q k)"
proof (induction params arbitrary: q)
  case (Cons p ps)
  obtain k0 v0 where p: "p = (k0, v0)" by fastforce
  then have "map_of ps k0 = None" using Cons.prems by (auto simp: map_of_eq_None_iff)
  then show ?case using Cons.IH[of "SetValue k0 v0 q"] Cons.prems p by (auto simp: setAll_def Get_SetValue split: option.split)
qed (simp add: setAll_def)

lemma setAll_nonempty: "params \<noteq> [] \<Longrightarrow> setAll params q \<noteq> []"
  by (induction params arbitrary: q rule: rev_induct) (auto simp: setAll_def SetValue_def)

lemma EncodeValues_nonempty: "q \<noteq> [] \<Longrightarrow> EncodeValues q \<noteq> []"
  using Query_EncodeValues[of q] by (metis Query_def length_0_conv length_sort)

end
