(* ===== verification/Callback.thy ===== *)
theory Callback
  imports Authorize
begin

text \<open>
  GET /callback/{connector} (src/oidc/callback.go): the browser binding, the single use of the state, the
  connector's verification of the upstream response, the admission gates and the minting of an authorization
  code. \<^verbatim>\<open>complete\<close> returns with its answer the reason the telemetry records. Logging and redaction are left out.
\<close>

section \<open>Requests and configuration\<close>

record callbackInput =
  cbi_Connector :: string
  cbi_Cookie :: string
  cbi_params :: Values

record callbackOutput =
  cbo_Status :: nat
  cbo_Location :: string
  cbo_SetCookie :: "Cookie option"
  cbo_ContentType :: string
  cbo_Body :: string

record 'st Callback =
  cb_issuer :: string
  cb_ConsumeAuthRequest :: "'st \<Rightarrow> string \<Rightarrow> (StoreError + AuthRequest) \<times> 'st"
  cb_SaveAuthCode :: "'st \<Rightarrow> AuthCode \<Rightarrow> StoreError option \<times> 'st"
  cb_connectors :: Connectors
  cb_binding :: UpstreamBinding
  cb_allowedDomains :: "string list"
  cb_authorizer :: PermissionResolver

record CallbackEnv =
  cbe_expiry :: Time
  cbe_now :: Time
  cbe_upstream :: Time
  cbe_code :: "string option"

definition authCodeTTL :: Duration where "authCodeTTL = 1 * Minute"

definition randomCode :: "string option \<Rightarrow> string option" where
  "randomCode rnd = map_option RawURLEncode rnd"

datatype loginReason = ReasonNone | ReasonMissingState | ReasonStateNotBound | ReasonUnknownState | ReasonExpiredRequest | ReasonConnectorMismatch
  | ReasonUpstreamDenied | ReasonMissingCode | ReasonUpstreamError | ReasonEmailUnverified | ReasonDomainNotAllowed | ReasonRefused string
  | ReasonAuthzDenied | ReasonInternal

section \<open>The handler\<close>

definition refusal :: "'st Callback \<Rightarrow> UpstreamIdentity \<Rightarrow> string \<Rightarrow> loginReason option" where
  "refusal c who connectorRefusal =
     (if \<not> ui_EmailVerified who then Some ReasonEmailUnverified
      else if \<not> emailDomainAllowed (cb_allowedDomains c) (ui_Email who) then Some ReasonDomainNotAllowed
      else if connectorRefusal = [] then None else Some (ReasonRefused connectorRefusal))"

definition completeParams :: "'st Callback \<Rightarrow> string \<Rightarrow> Values \<Rightarrow> string \<Rightarrow> CompleteParams" where
  "completeParams c cid params state =
     \<lparr>cp_RedirectURI = cb_issuer c @ CallbackPath cid, cp_Params = params, cp_CodeVerifier = codeVerifier (cb_binding c) cid state,
      cp_Nonce = upstreamNonce (cb_binding c) cid state, cp_RequestID = requestID (cb_binding c) cid state\<rparr>"

definition completeUpstream :: "'st Callback \<Rightarrow> Connector \<Rightarrow> Time \<Rightarrow> Values \<Rightarrow> string \<Rightarrow> CompleteError + Completion" where
  "completeUpstream c conn at params state =
     (case cn_Complete conn at (completeParams c (cn_ID conn) params state) of
        Inl e \<Rightarrow> Inl e
      | Inr completion \<Rightarrow> if ui_Subject (co_Identity completion) = [] then Inl (UpstreamError ''claims_incomplete'') else Inr completion)"

definition redirectTo :: "'st Callback \<Rightarrow> AuthRequest \<Rightarrow> Cookie \<Rightarrow> Values \<Rightarrow> HandlerError + callbackOutput" where
  "redirectTo c ar setCookie params =
     (case authorizationResponse (ar_RedirectURI ar) (cb_issuer c) (ar_ClientState ar) params of
        None \<Rightarrow> Inl (ServerErr ''oidc: parse redirect_uri'')
      | Some loc \<Rightarrow> Inr \<lparr>cbo_Status = 302, cbo_Location = loc, cbo_SetCookie = Some setCookie, cbo_ContentType = [], cbo_Body = []\<rparr>)"

definition htmlEscape :: "string \<Rightarrow> string" where
  "htmlEscape s = concat (map (\<lambda>c. if c = CHR ''&'' then ''&amp;'' else if c = CHR ''<'' then ''&lt;'' else if c = CHR ''>'' then ''&gt;''
     else if of_char c = (34::nat) then ''&#34;'' else if of_char c = (39::nat) then ''&#39;'' else [c]) s)"

definition forbiddenPage :: "string \<Rightarrow> callbackOutput" where
  "forbiddenPage email =
     \<lparr>cbo_Status = 403, cbo_Location = [], cbo_SetCookie = None, cbo_ContentType = ''text/html; charset=utf-8'',
      cbo_Body = ''<!DOCTYPE html><html lang=\"en\"><head><meta charset=\"utf-8\">'' @ ''<title>Access denied</title></head><body>'' @
        ''<h1>Access denied</h1><p>'' @ htmlEscape email @ '' is not in an allowed domain for this service.</p></body></html>''\<rparr>"

definition newAuthCode :: "AuthRequest \<Rightarrow> string \<Rightarrow> UpstreamIdentity \<Rightarrow> string \<Rightarrow> Time \<Rightarrow> AuthCode" where
  "newAuthCode ar cid who code now =
     \<lparr>ac_Code = code, ac_ClientID = ar_ClientID ar, ac_RedirectURI = ar_RedirectURI ar, ac_ConnectorID = cid, ac_Subject = ui_Subject who,
      ac_Email = ui_Email who, ac_Scope = ar_Scope ar, ac_CodeChallenge = ar_CodeChallenge ar, ac_CodeChallengeMethod = ar_CodeChallengeMethod ar,
      ac_Nonce = ar_Nonce ar, ac_FamilyID = [], ac_CreatedAt = now, ac_ExpiresAt = now + authCodeTTL\<rparr>"

text \<open>What follows once the connector has answered with an identity: the gates, the code, the redirect.\<close>

definition admit :: "'st Callback \<Rightarrow> CallbackEnv \<Rightarrow> string \<Rightarrow> AuthRequest \<Rightarrow> Cookie \<Rightarrow> Completion \<Rightarrow> 'st
    \<Rightarrow> (HandlerError + callbackOutput) \<times> loginReason \<times> 'st" where
  "admit c env cid ar clearBinding completion st =
     (let who = co_Identity completion in
      case refusal c who (co_Refusal completion) of
        Some refused \<Rightarrow> (Inr ((forbiddenPage (ui_Email who))\<lparr>cbo_SetCookie := Some clearBinding\<rparr>), refused, st)
      | None \<Rightarrow>
      (case permitted (cb_authorizer c) (ui_Email who) of
         Inl e \<Rightarrow> (Inl (ServerErr ''oidc: resolve permissions''), ReasonInternal, st)
       | Inr (_, ok) \<Rightarrow>
           if \<not> ok then
             (redirectTo c ar clearBinding
                [(''error'', ''access_denied''), (''error_description'', ''no Temporal access is granted to this account; ask an administrator for access'')],
              ReasonAuthzDenied, st)
           else
           (case randomCode (cbe_code env) of
              None \<Rightarrow> (Inl (ServerErr ''oidc: generate auth code''), ReasonInternal, st)
            | Some code \<Rightarrow>
                (case cb_SaveAuthCode c st (newAuthCode ar cid who code (cbe_now env)) of
                   (Some e, st') \<Rightarrow> (Inl (ServerErr ''oidc: persist auth code''), ReasonInternal, st')
                 | (None, st') \<Rightarrow>
                     (case redirectTo c ar clearBinding [(''code'', code)] of
                        Inl e \<Rightarrow> (Inl e, ReasonInternal, st')
                      | Inr out \<Rightarrow> (Inr out, ReasonNone, st'))))))"

definition complete :: "'st Callback \<Rightarrow> CallbackEnv \<Rightarrow> Connector \<Rightarrow> callbackInput \<Rightarrow> 'st \<Rightarrow> (HandlerError + callbackOutput) \<times> loginReason \<times> 'st" where
  "complete c env conn inp st =
     (let cid = cn_ID conn; state = Get (cbi_params inp) (fl_StateParam (cn_Flow conn)) in
      if state = [] then (Inl (OAuthErr 400 invalid_request ''missing state''), ReasonMissingState, st)
      else if \<not> boundToBrowser (cb_binding c) (cbi_Cookie inp) cid state
      then (Inl (OAuthErr 400 invalid_request ''sign-in was not started in this browser''), ReasonStateNotBound, st)
      else
      (case cb_ConsumeAuthRequest c st state of
         (Inl e, st') \<Rightarrow>
           if e = ErrAuthRequestNotFound then (Inl (OAuthErr 400 invalid_request ''unknown or already-used state''), ReasonUnknownState, st')
           else (Inl (ServerErr ''oidc: consume auth request''), ReasonInternal, st')
       | (Inr ar, st') \<Rightarrow>
           if ar_ExpiresAt ar < cbe_expiry env then (Inl (OAuthErr 400 invalid_request ''auth request expired''), ReasonExpiredRequest, st')
           else if ar_ConnectorID ar \<noteq> cid
           then (Inl (OAuthErr 400 invalid_request ''state was issued for another sign-in method''), ReasonConnectorMismatch, st')
           else
             (let clearBinding = clearCookie (cb_binding c) cid state in
              case completeUpstream c conn (cbe_upstream env) (cbi_params inp) state of
                Inl (UpstreamDenied code desc) \<Rightarrow>
                  (redirectTo c ar clearBinding [(''error'', code), (''error_description'', desc)], ReasonUpstreamDenied, st')
              | Inl ErrMissingResponse \<Rightarrow> (Inl (OAuthErr 400 invalid_request ''missing code''), ReasonMissingCode, st')
              | Inl (UpstreamError _) \<Rightarrow>
                  (Inl (OAuthErr 502 ''upstream_error'' (''could not complete '' @ cn_DisplayName conn @ '' sign-in'')), ReasonUpstreamError, st')
              | Inr completion \<Rightarrow> admit c env cid ar clearBinding completion st')))"

text \<open>\<^verbatim>\<open>handle\<close>: an unknown connector is a 404 like any unknown route.\<close>

definition callback :: "'st Callback \<Rightarrow> CallbackEnv \<Rightarrow> callbackInput \<Rightarrow> 'st \<Rightarrow> (HandlerError + callbackOutput) option \<times> 'st" where
  "callback c env inp st =
     (case LookupConnector (cb_connectors c) (cbi_Connector inp) of
        None \<Rightarrow> (None, st)
      | Some conn \<Rightarrow> (case complete c env conn inp st of (out, reason, st') \<Rightarrow> (Some out, st')))"

end
