(* ===== verification/Redirect_URIs.thy ===== *)
theory Redirect_URIs
  imports Clients
begin

text \<open>
  Which redirect URIs /authorize accepts (src/oidc/client.go). The invariant of a registry built by
  \<^verbatim>\<open>ParseClientRegistry\<close> and \<^verbatim>\<open>WithSecrets\<close>, and the exact meaning of \<^verbatim>\<open>matchRedirectURI\<close> over it: a registered
  URI byte for byte, or a registered loopback URI with any port.
\<close>

section \<open>The registry invariant\<close>

definition wf_client :: "bool \<Rightarrow> Client \<Rightarrow> bool" where
  "wf_client allowInsecure c = (list_all (\<lambda>r. checkRegisteredRedirectURI r allowInsecure = None) (ci_RedirectURIs c) \<and> distinct (ci_RedirectURIs c) \<and>
     ci_GrantTypes c = (if ci_RedirectURIs c = [] then [grantDeviceCode, grantRefreshToken] else [grantAuthorizationCode, grantRefreshToken]))"

definition wf_clients :: "bool \<Rightarrow> ClientRegistry \<Rightarrow> bool" where
  "wf_clients allowInsecure reg = (\<forall>cid c. map_of reg cid = Some c \<longrightarrow> cid \<noteq> [] \<and> wf_client allowInsecure c)"

lemma wf_clients_update: "wf_clients ins reg \<Longrightarrow> cid \<noteq> [] \<Longrightarrow> wf_client ins c \<Longrightarrow> wf_clients ins (AList.update cid c reg)"
  by (auto simp: wf_clients_def update_conv')

lemma ParseClientRegistry_loop_wf: "ParseClientRegistry_loop ins es reg = Inr reg' \<Longrightarrow> wf_clients ins reg \<Longrightarrow> wf_clients ins reg'"
proof (induction es arbitrary: reg)
  case (Cons e es)
  obtain cid uri ok where cut: "Cut (TrimSpace e) (CHR '':'') = (cid, uri, ok)" by (metis prod_cases3)
  let ?zero = "\<lparr>ci_RedirectURIs = [], ci_GrantTypes = [], ci_Secret = []\<rparr>"
  define c where c: "c = (case map_of reg cid of Some c \<Rightarrow> c | None \<Rightarrow> ?zero)"
  have uris: "list_all (\<lambda>r. checkRegisteredRedirectURI r ins = None) (ci_RedirectURIs c)" "distinct (ci_RedirectURIs c)"
    using Cons.prems(2) by (auto simp: c wf_clients_def wf_client_def split: option.split)
  show ?case
  proof (cases "TrimSpace e = []")
    case False
    then have ok: ok and ne: "cid \<noteq> []" using Cons.prems(1) cut by (auto simp: Let_def split: if_splits)
    have step: "ParseClientRegistry_loop ins (e # es) reg =
        (if uri = [] \<and> map_of reg cid \<noteq> None then Inl (DeviceOnlyCombined cid (TrimSpace e))
         else if uri = [] then ParseClientRegistry_loop ins es (AList.update cid (?zero\<lparr>ci_GrantTypes := [grantDeviceCode, grantRefreshToken]\<rparr>) reg)
         else if map_of reg cid \<noteq> None \<and> ci_RedirectURIs c = [] then Inl (RedirectOnDeviceOnly cid)
         else if uri \<in> set (ci_RedirectURIs c) then Inl (DuplicateRedirectURI cid uri)
         else case checkRegisteredRedirectURI uri ins of Some err \<Rightarrow> Inl (BadRedirectURI cid uri err)
           | None \<Rightarrow> ParseClientRegistry_loop ins es (AList.update cid (c\<lparr>ci_RedirectURIs := ci_RedirectURIs c @ [uri], ci_GrantTypes := [grantAuthorizationCode, grantRefreshToken]\<rparr>) reg))"
      unfolding ParseClientRegistry_loop.simps cut Let_def prod.case c[symmetric] using False ok ne by simp
    have "wf_clients ins (AList.update cid (?zero\<lparr>ci_GrantTypes := [grantDeviceCode, grantRefreshToken]\<rparr>) reg)"
      using wf_clients_update[OF Cons.prems(2) ne] by (simp add: wf_client_def)
    moreover have "wf_clients ins (AList.update cid (c\<lparr>ci_RedirectURIs := ci_RedirectURIs c @ [uri], ci_GrantTypes := [grantAuthorizationCode, grantRefreshToken]\<rparr>) reg)"
      if "uri \<notin> set (ci_RedirectURIs c)" "checkRegisteredRedirectURI uri ins = None"
      using wf_clients_update[OF Cons.prems(2) ne] uris that by (simp add: wf_client_def)
    ultimately show ?thesis using Cons.IH Cons.prems(1) unfolding step by (auto split: if_splits option.splits)
  qed (use Cons in simp)
qed simp

lemma WithSecrets_loop_wf: "wf_clients ins r \<Longrightarrow> wf_clients ins (snd (WithSecrets_loop es seen r))"
proof (induction es seen r rule: WithSecrets_loop.induct)
  case (2 e es seen r)
  obtain cid secret ok where cut: "Cut (TrimSpace e) (CHR '':'') = (cid, secret, ok)" by (metis prod_cases3)
  show ?case
  proof (cases "TrimSpace e = [] \<or> \<not> ok \<or> cid = [] \<or> secret = [] \<or> cid \<in> set seen \<or> map_of r cid = None")
    case True
    then show ?thesis using 2 cut by (auto simp: Let_def split: option.split)
  next
    case False
    then obtain c where c: "map_of r cid = Some c" by auto
    then have "wf_clients ins (AList.update cid (c\<lparr>ci_Secret := secret\<rparr>) r)"
      using 2(3) False by (intro wf_clients_update) (auto simp: wf_clients_def wf_client_def)
    then show ?thesis using 2(2)[OF refl _ cut[symmetric] refl _ _ c] False cut c by (simp add: Let_def)
  qed
qed simp

lemma parsed_clients_wf: "ParseClientRegistry ins raw = Inr reg \<Longrightarrow> WithSecrets reg secrets = (err, reg') \<Longrightarrow> wf_clients ins reg'"
  using ParseClientRegistry_loop_wf[of ins _ "[]" reg] WithSecrets_loop_wf[of ins reg]
  by (metis ParseClientRegistry_def WithSecrets_def wf_clients_def map_of.simps(1) option.distinct(1) snd_conv)

section \<open>Where a browser can be sent\<close>

text \<open>The same loopback URI as a registered one, up to the port.\<close>

definition loopbackVariant :: "string \<Rightarrow> string \<Rightarrow> bool" where
  "loopbackVariant r uri = (\<exists>u h pt path. ParseURL r = Some u \<and> isLoopback u \<and> h \<in> loopbackHosts \<and> portSuffix pt \<and> HasPrefix path ''/'' \<and>
     urlString u = ''http://'' @ h @ path \<and> uri = ''http://'' @ h @ pt @ path)"

lemma registered_loopback:
  assumes "checkRegisteredRedirectURI r ins = None" "ParseURL r = Some u" "isLoopback u"
  obtains h q where "h \<in> loopbackHosts" "u_Host u = h" "EscapedPath u = CHR ''/'' # q" "urlString u = ''http://'' @ h @ CHR ''/'' # q" "u_Path u \<noteq> ''*''"
proof -
  obtain u' where "parseRedirectURI r = Inr u'" using assms(1) by (cases "parseRedirectURI r") (auto simp: checkRegisteredRedirectURI_def)
  then have pr: "parseRedirectURI r = Inr u" using assms(2) unfolding parseRedirectURI_iff by (auto simp: ParseURL_def split: option.splits)
  then have c: "u_Path u \<noteq> []" "Port u = []" "u_RawQuery u = []" "\<not> u_ForceQuery u"
    using assms(1,3) by (auto simp: checkRegisteredRedirectURI_def split: if_splits)
  obtain h pt where h: "h \<in> loopbackHosts" "portSuffix pt" "u_Host u = h @ pt" "urlString u = ''http://'' @ h @ pt @ EscapedPath u"
    "EscapedPath u = [] \<and> u_Path u = [] \<or> (\<exists>q. EscapedPath u = CHR ''/'' # q \<and> u_Path u \<noteq> [] \<and> u_Path u \<noteq> ''*'')"
    using loopback_string[OF pr assms(3) c(3,4)] .
  have "pt = []" using Hostname_loopback[OF h(1-3)] c(2) h(2) by (auto simp: portSuffix_def)
  then show thesis using that[of h] h c(1) by auto
qed

lemma registered_check:
  "list_all (\<lambda>r. checkRegisteredRedirectURI r ins = None) uris \<Longrightarrow> r \<in> set uris \<Longrightarrow> checkRegisteredRedirectURI r ins = None"
  by (simp add: list_all_iff)

lemma matchRedirectURI_sound:
  assumes "list_all (\<lambda>r. checkRegisteredRedirectURI r ins = None) (ci_RedirectURIs c)" "matchRedirectURI c uri" "uri \<notin> set (ci_RedirectURIs c)"
  shows "\<exists>r\<in>set (ci_RedirectURIs c). loopbackVariant r uri"
proof -
  obtain req where req: "parseRedirectURI uri = Inr req" "isLoopback req" "urlString req = uri" "u_RawQuery req = []" "\<not> u_ForceQuery req"
    and ex: "list_ex (\<lambda>reg. case ParseURL reg of None \<Rightarrow> False | Some u \<Rightarrow> isLoopback u \<and> u_Scheme req = u_Scheme u \<and> Hostname req = Hostname u \<and> EscapedPath req = EscapedPath u) (ci_RedirectURIs c)"
    using assms(2,3) by (auto simp: matchRedirectURI_def split: if_splits sum.splits)
  from ex obtain r u where r: "r \<in> set (ci_RedirectURIs c)" "ParseURL r = Some u" "isLoopback u" "Hostname req = Hostname u" "EscapedPath req = EscapedPath u"
    by (auto simp: list_ex_iff split: option.splits)
  obtain h q where u: "h \<in> loopbackHosts" "u_Host u = h" "EscapedPath u = CHR ''/'' # q" "urlString u = ''http://'' @ h @ CHR ''/'' # q"
    using registered_loopback[OF registered_check[OF assms(1) r(1)] r(2,3)] .
  obtain h' pt where q: "h' \<in> loopbackHosts" "portSuffix pt" "u_Host req = h' @ pt" "urlString req = ''http://'' @ h' @ pt @ EscapedPath req"
    using loopback_string[OF req(1,2,4,5)] .
  have "portSuffix []" by (simp add: portSuffix_def)
  then have "h' = h" using Hostname_loopback[OF q(1-3)] Hostname_loopback[OF u(1), of "[]" u] u(1,2) q(1) r(4) by (auto simp: loopbackHosts_def split: if_splits)
  then show ?thesis unfolding loopbackVariant_def using r u q req(3)
    by (intro bexI[of _ r] exI[of _ u] exI[of _ h] exI[of _ pt] exI[of _ "CHR ''/'' # q"]) (simp_all add: HasPrefix_def)
qed

lemma matchRedirectURI_complete:
  assumes "list_all (\<lambda>r. checkRegisteredRedirectURI r ins = None) (ci_RedirectURIs c)" "loopbackVariant r uri" "r \<in> set (ci_RedirectURIs c)"
  shows "matchRedirectURI c uri"
proof -
  obtain u h pt path where l: "ParseURL r = Some u" "isLoopback u" "h \<in> loopbackHosts" "portSuffix pt" "HasPrefix path ''/''"
    "urlString u = ''http://'' @ h @ path" "uri = ''http://'' @ h @ pt @ path" using assms(2) unfolding loopbackVariant_def by blast
  obtain h' q where u: "h' \<in> loopbackHosts" "u_Host u = h'" "EscapedPath u = CHR ''/'' # q" "urlString u = ''http://'' @ h' @ CHR ''/'' # q" "u_Path u \<noteq> ''*''"
    using registered_loopback[OF registered_check[OF assms(1,3)] l(1,2)] .
  have h: "h' = h" "path = CHR ''/'' # q" using l(3,6) u(1,4) by (auto simp: loopbackHosts_def)
  have "list_all pathByte (CHR ''/'' # q)" using EscapedPath_bytes[of u] u(3) by simp
  then have p: "ParseURL uri = setPath (CHR ''/'' # q) (newURL\<lparr>u_Scheme := ''http'', u_Host := h @ pt\<rparr>)"
    using ParseURL_loopback[OF l(3,4)] l(7) h(2) by simp
  obtain req where req: "setPath (CHR ''/'' # q) (newURL\<lparr>u_Scheme := ''http'', u_Host := h @ pt\<rparr>) = Some req"
    unfolding setPath_def using unescape_EscapedPath[of u] u(3) by (simp del: unescape.simps)
  have ep: "EscapedPath req = CHR ''/'' # q" using EscapedPath_again[of u] req u(3,5) by simp
  have f: "u_Scheme req = ''http''" "u_Host req = h @ pt" "u_Opaque req = []" "u_User req = None" "\<not> u_OmitHost req" "u_Fragment req = []" "u_RawQuery req = []" "\<not> u_ForceQuery req"
    using setPath_other[OF req] by (simp_all add: newURL_def)
  have esc: "escape encodeHost (h @ pt) = h @ pt" using escape_plain[OF host_plain[OF l(3,4)]] .
  have str: "urlString req = uri" using f ep esc l(3,7) h(2) by (auto simp: urlString_def urlBase_def urlAuthority_def Let_def loopbackHosts_def)
  have suf: "\<not> HasSuffix (h @ pt) '':''"
  proof
    assume "HasSuffix (h @ pt) '':''"
    then have "last (h @ pt) = CHR '':''" unfolding HasSuffix_eq by auto
    then show False using l(3,4) by (auto simp: loopbackHosts_def portSuffix_def list_all_iff split: if_splits) (metis last_in_set not_digits(7))+
  qed
  have nohash: "CHR ''#'' \<notin> set uri"
  proof -
    have "CHR ''#'' \<notin> set h" using l(3) unfolding loopbackHosts_def by (elim insertE) simp_all
    moreover have "CHR ''#'' \<notin> set pt" using portSuffix_absent[OF l(4)] by simp
    moreover have "CHR ''#'' \<notin> set q" using \<open>list_all pathByte _\<close> by (auto simp: list_all_iff pathByte_def)
    ultimately show ?thesis using l(7) h(2) by simp
  qed
  have hn: "Hostname req = Hostname u" using Hostname_loopback[OF l(3,4) f(2)] Hostname_loopback[OF l(3), of "[]" u] u(2) h(1) by (simp add: portSuffix_def)
  have lb: "isLoopback req"
    using Hostname_loopback[OF l(3,4) f(2)] f(1,2) l(3) by (auto simp: isLoopback_def Let_def loopbackHosts_def HasPrefix_def)
  have pr: "parseRedirectURI uri = Inr req" using p req f suf nohash l(3) by (auto simp: parseRedirectURI_def IsAbs_def loopbackHosts_def)
  have "u_Scheme u = ''http''" using l(2) by (simp add: isLoopback_def split: if_splits)
  then have "list_ex (\<lambda>reg. case ParseURL reg of None \<Rightarrow> False | Some u \<Rightarrow> isLoopback u \<and> u_Scheme req = u_Scheme u \<and> Hostname req = Hostname u \<and> EscapedPath req = EscapedPath u) (ci_RedirectURIs c)"
    unfolding list_ex_iff using assms(3) l(1,2) f(1) hn ep u(3) by (intro bexI[of _ r]) simp_all
  moreover have "uri \<noteq> []" using l(7) by simp
  ultimately show ?thesis unfolding matchRedirectURI_def using pr lb str f(2,7,8) suf by simp
qed

lemma matchRedirectURI_iff:
  assumes "list_all (\<lambda>r. checkRegisteredRedirectURI r ins = None) (ci_RedirectURIs c)"
  shows "matchRedirectURI c uri \<longleftrightarrow> uri \<in> set (ci_RedirectURIs c) \<or> (\<exists>r\<in>set (ci_RedirectURIs c). loopbackVariant r uri)"
proof -
  have ne: "[] \<notin> set (ci_RedirectURIs c)"
  proof
    assume "[] \<in> set (ci_RedirectURIs c)"
    moreover have "checkRegisteredRedirectURI [] ins \<noteq> None" by (cases ins; code_simp)
    ultimately show False using registered_check[OF assms, of "[]"] by argo
  qed
  have "matchRedirectURI c uri" if "uri \<in> set (ci_RedirectURIs c)" using that ne by (auto simp: matchRedirectURI_def)
  then show ?thesis using matchRedirectURI_sound[OF assms] matchRedirectURI_complete[OF assms] by blast
qed

lemma registered_uri_shape:
  assumes "checkRegisteredRedirectURI r ins = None"
  shows "\<exists>u. ParseURL r = Some u \<and> u_Host u \<noteq> [] \<and> u_User u = None \<and> u_Path u \<noteq> [] \<and> CHR ''#'' \<notin> set r \<and>
    (u_Scheme u = ''https'' \<or> isLoopback u \<or> ins \<and> u_Scheme u = ''http'')"
proof -
  obtain u where u: "parseRedirectURI r = Inr u" using assms by (cases "parseRedirectURI r") (auto simp: checkRegisteredRedirectURI_def)
  then have "u_Path u \<noteq> []" "u_Scheme u = ''https'' \<or> isLoopback u \<or> ins \<and> u_Scheme u = ''http''"
    using assms by (auto simp: checkRegisteredRedirectURI_def split: if_splits)
  moreover have "ParseURL r = Some u" using u by (auto simp: parseRedirectURI_def split: option.splits if_splits)
  ultimately show ?thesis using u unfolding parseRedirectURI_iff by blast
qed

text \<open>
  C6. Where a browser can be sent. For a registry read from its settings, /authorize accepts a redirect
  URI exactly when the client is registered and the URI is one of its registered URIs byte for byte, or is
  a registered loopback URI (http on 127.0.0.1 or [::1]) with the same path and any port. Every registered
  URI names a host and a path, carries no userinfo and no fragment, and is https unless it is a loopback
  URI or plain http was explicitly allowed.
\<close>

theorem redirect_uris_exact:
  assumes "ParseClientRegistry allowInsecure raw = Inr reg" "WithSecrets reg secrets = (err, reg')"
  shows "(ValidateClient reg' cid uri = None \<longleftrightarrow>
      (\<exists>c. Lookup reg' cid = Some c \<and> (uri \<in> set (ci_RedirectURIs c) \<or> (\<exists>r\<in>set (ci_RedirectURIs c). loopbackVariant r uri)))) \<and>
    (\<forall>c r. Lookup reg' cid = Some c \<longrightarrow> r \<in> set (ci_RedirectURIs c) \<longrightarrow>
      (\<exists>u. ParseURL r = Some u \<and> u_Host u \<noteq> [] \<and> u_User u = None \<and> u_Path u \<noteq> [] \<and> CHR ''#'' \<notin> set r \<and>
        (u_Scheme u = ''https'' \<or> isLoopback u \<or> allowInsecure \<and> u_Scheme u = ''http'')))"
proof (cases "map_of reg' cid")
  case (Some c)
  then have wf: "wf_client allowInsecure c" using parsed_clients_wf[OF assms] by (auto simp: wf_clients_def)
  then have reg: "list_all (\<lambda>r. checkRegisteredRedirectURI r allowInsecure = None) (ci_RedirectURIs c)" by (simp add: wf_client_def)
  have "Allows c grantAuthorizationCode \<longleftrightarrow> ci_RedirectURIs c \<noteq> []"
    using wf by (auto simp: wf_client_def Allows_def grantAuthorizationCode_def grantDeviceCode_def grantRefreshToken_def)
  then show ?thesis using Some matchRedirectURI_iff[OF reg, of uri] registered_uri_shape reg by (auto simp: ValidateClient_def Lookup_def list_all_iff)
qed (simp add: ValidateClient_def Lookup_def)

theorem redirect_uris_exact_witness:
  "\<exists>reg. ParseClientRegistry False ''cli:http://127.0.0.1/cb,ui:https://ui.example/auth'' = Inr reg \<and>
     ValidateClient reg ''cli'' ''http://127.0.0.1:8080/cb'' = None \<and> ValidateClient reg ''cli'' ''http://127.0.0.1:8080/cb/x'' \<noteq> None \<and>
     loopbackVariant ''http://127.0.0.1/cb'' ''http://127.0.0.1:8080/cb''"
proof -
  let ?c = "\<lparr>ci_RedirectURIs = [''http://127.0.0.1/cb''], ci_GrantTypes = [grantAuthorizationCode, grantRefreshToken], ci_Secret = []\<rparr>"
  let ?u = "\<lparr>ci_RedirectURIs = [''https://ui.example/auth''], ci_GrantTypes = [grantAuthorizationCode, grantRefreshToken], ci_Secret = []\<rparr>"
  have p: "ParseClientRegistry False ''cli:http://127.0.0.1/cb,ui:https://ui.example/auth'' = Inr [(''cli'', ?c), (''ui'', ?u)]" by code_simp
  have s: "WithSecrets [(''cli'', ?c), (''ui'', ?u)] [] = (None, [(''cli'', ?c), (''ui'', ?u)])" by code_simp
  have v: "ValidateClient [(''cli'', ?c), (''ui'', ?u)] ''cli'' ''http://127.0.0.1:8080/cb'' = None"
    "ValidateClient [(''cli'', ?c), (''ui'', ?u)] ''cli'' ''http://127.0.0.1:8080/cb/x'' \<noteq> None" by code_simp+
  then have "loopbackVariant ''http://127.0.0.1/cb'' ''http://127.0.0.1:8080/cb''"
    using redirect_uris_exact[OF p s, of "''cli''" "''http://127.0.0.1:8080/cb''"] by (simp add: Lookup_def)
  then show ?thesis using p v by blast
qed

end
