(* ===== verification/Code_Flow.thy ===== *)
theory Code_Flow
  imports Callback Redirect_URIs Backends
begin

text \<open>
  What the handlers of the authorization-code flow do to a store, case by case, and what the redirect back to the
  client carries: the lemmas over which the flow as a whole is proved.
\<close>

section \<open>The handlers\<close>

text \<open>What one callback does to the store.\<close>

lemma complete_cases:
  assumes "complete c env conn inp st = (out, reason, st')"
  defines "cid \<equiv> cn_ID conn" and "state \<equiv> Get (cbi_params inp) (fl_StateParam (cn_Flow conn))"
  obtains (untouched) "st' = st" "reason \<noteq> ReasonNone"
  | (consumed) res where "cb_ConsumeAuthRequest c st state = (res, st')" "reason \<noteq> ReasonNone" "boundToBrowser (cb_binding c) (cbi_Cookie inp) cid state"
  | (saved) ar st1 completion granted code err where "cb_ConsumeAuthRequest c st state = (Inr ar, st1)" "state \<noteq> []"
      "boundToBrowser (cb_binding c) (cbi_Cookie inp) cid state" "cbe_expiry env \<le> ar_ExpiresAt ar" "ar_ConnectorID ar = cid"
      "cn_Complete conn (cbe_upstream env) (completeParams c cid (cbi_params inp) state) = Inr completion" "ui_Subject (co_Identity completion) \<noteq> []"
      "refusal c (co_Identity completion) (co_Refusal completion) = None"
      "permitted (cb_authorizer c) (ui_Email (co_Identity completion)) = Inr (granted, True)" "randomCode (cbe_code env) = Some code"
      "cb_SaveAuthCode c st1 (newAuthCode ar cid (co_Identity completion) code (cbe_now env)) = (err, st')"
      "(out, reason) = (case err of Some e \<Rightarrow> (Inl (ServerErr ''oidc: persist auth code''), ReasonInternal)
         | None \<Rightarrow> (case redirectTo c ar (clearCookie (cb_binding c) cid state) [(''code'', code)] of Inl e \<Rightarrow> (Inl e, ReasonInternal) | Inr o2 \<Rightarrow> (Inr o2, ReasonNone)))"
proof (cases "state = [] \<or> \<not> boundToBrowser (cb_binding c) (cbi_Cookie inp) cid state")
  case True
  then show ?thesis using assms(1) that(1) by (auto simp: complete_def cid_def state_def Let_def split: if_splits)
next
  case False
  obtain res st1 where r: "cb_ConsumeAuthRequest c st state = (res, st1)" by fastforce
  note step = assms(1)[unfolded complete_def Let_def, folded cid_def state_def, unfolded r prod.case]
  show ?thesis
  proof (cases res)
    case (Inl e)
    then show ?thesis using False step that(2)[of res] r by (auto split: if_splits)
  next
    case (Inr ar)
    show ?thesis
    proof (cases "\<exists>completion. ar_ExpiresAt ar \<ge> cbe_expiry env \<and> ar_ConnectorID ar = cid \<and> completeUpstream c conn (cbe_upstream env) (cbi_params inp) state = Inr completion")
      case ex: False
      then have "st' = st1 \<and> reason \<noteq> ReasonNone"
        using step False unfolding Inr by (auto split: if_splits sum.splits CompleteError.splits)
      then show ?thesis using that(2)[of res] r False by blast
    next
      case True
      then obtain completion where cu: "cbe_expiry env \<le> ar_ExpiresAt ar" "ar_ConnectorID ar = cid" "completeUpstream c conn (cbe_upstream env) (cbi_params inp) state = Inr completion" by blast
      then have cc: "cn_Complete conn (cbe_upstream env) (completeParams c cid (cbi_params inp) state) = Inr completion" "ui_Subject (co_Identity completion) \<noteq> []"
        by (auto simp: completeUpstream_def cid_def split: sum.splits if_splits)
      have ad: "admit c env cid ar (clearCookie (cb_binding c) cid state) completion st1 = (out, reason, st')"
        using step cu False unfolding Inr by simp
      show ?thesis
      proof (cases "refusal c (co_Identity completion) (co_Refusal completion) = None \<and> (\<exists>g. permitted (cb_authorizer c) (ui_Email (co_Identity completion)) = Inr (g, True)) \<and> randomCode (cbe_code env) \<noteq> None")
        case True
        then obtain g code where g: "refusal c (co_Identity completion) (co_Refusal completion) = None"
          "permitted (cb_authorizer c) (ui_Email (co_Identity completion)) = Inr (g, True)" "randomCode (cbe_code env) = Some code" by blast
        obtain err st2 where sv: "cb_SaveAuthCode c st1 (newAuthCode ar cid (co_Identity completion) code (cbe_now env)) = (err, st2)" by fastforce
        have "st2 = st'" "(out, reason) = (case err of Some e \<Rightarrow> (Inl (ServerErr ''oidc: persist auth code''), ReasonInternal)
           | None \<Rightarrow> (case redirectTo c ar (clearCookie (cb_binding c) cid state) [(''code'', code)] of Inl e \<Rightarrow> (Inl e, ReasonInternal) | Inr o2 \<Rightarrow> (Inr o2, ReasonNone)))"
          using ad by (auto simp: admit_def Let_def g sv split: sum.splits option.splits)
        then show ?thesis using that(3)[OF r[unfolded Inr] _ _ cu(1,2) cc g] sv False by blast
      next
        case no: False
        then have "st' = st1 \<and> reason \<noteq> ReasonNone"
          using ad by (auto simp: admit_def Let_def refusal_def split: prod.splits sum.splits option.splits if_splits)
        then show ?thesis using that(2)[of res] r False by blast
      qed
    qed
  qed
qed

text \<open>What one authorization request does to the store.\<close>

lemma authorize_cases:
  assumes "authorize a env inp st = (out, st')"
  obtains (untouched) "st' = st"
  | (saved) s err where "ValidateClient (az_clients a) (ai_ClientID inp) (ai_RedirectURI inp) = None" "checkAuthorize a inp = None"
      "randomState (ave_state env) = Some s"
      "az_SaveAuthRequest a st (pendingRequest inp s (cn_ID (Active (az_connectors a))) (ave_now env)) = (err, st')"
proof (cases "ValidateClient (az_clients a) (ai_ClientID inp) (ai_RedirectURI inp) = None \<and> checkAuthorize a inp = None \<and> randomState (ave_state env) \<noteq> None")
  case True
  then show ?thesis
    using assms that by (auto simp: authorize_def Let_def split: option.splits prod.splits)
next
  case False
  then show ?thesis
    using assms that(1) by (auto simp: authorize_def Let_def split: option.splits prod.splits ClientError.splits)
qed

section \<open>The redirect back to the client\<close>

lemma accepted_uri_parses:
  assumes "ParseClientRegistry ins raw = Inr reg" "WithSecrets reg secrets = (err, reg')" "ValidateClient reg' cid uri = None"
  obtains u where "ParseURL uri = Some u" "u_Host u \<noteq> []" "u_Fragment u = []"
proof -
  obtain c where c: "map_of reg' cid = Some c" "matchRedirectURI c uri" using assms(3) by (auto simp: ValidateClient_def Lookup_def split: option.splits if_splits)
  then have reg: "list_all (\<lambda>r. checkRegisteredRedirectURI r ins = None) (ci_RedirectURIs c)"
    using parsed_clients_wf[OF assms(1,2)] by (auto simp: wf_clients_def wf_client_def)
  have "\<exists>u. ParseURL uri = Some u \<and> u_Host u \<noteq> [] \<and> CHR ''#'' \<notin> set uri"
  proof (cases "uri \<in> set (ci_RedirectURIs c)")
    case True
    then show ?thesis using registered_uri_shape[OF registered_check[OF reg True]] by blast
  next
    case False
    then obtain u where "parseRedirectURI uri = Inr u" using c(2) by (auto simp: matchRedirectURI_def split: sum.splits if_splits)
    moreover from this have "ParseURL uri = Some u" by (auto simp: parseRedirectURI_def split: option.splits if_splits)
    ultimately show ?thesis unfolding parseRedirectURI_iff by blast
  qed
  then obtain u where u: "ParseURL uri = Some u" "u_Host u \<noteq> []" "CHR ''#'' \<notin> set uri" by blast
  show ?thesis by (rule that[OF u(1,2)]) (rule parseURL_host[OF ParseURL_no_fragment[OF u(1,3)] u(2)])
qed

text \<open>
  C20. What a client is sent. When /authorize has accepted a redirect URI of a registry read from its settings, the
  response never fails to be built: it is that URI's own scheme, host and path, a question mark and an encoded
  query of unreserved bytes, so nothing of the response can change where the browser goes. Reading the query back
  gives every parameter of the response as it was set, the client's state and the issuer when there are any, and
  the values the registered URI's own query had for all other keys.
\<close>

theorem authorization_response_exact:
  assumes "ParseClientRegistry ins raw = Inr reg" "WithSecrets reg secrets = (err, reg')" "ValidateClient reg' cid uri = None"
    "params \<noteq> []" "distinct (map fst params)" "''state'' \<notin> fst ` set params" "''iss'' \<notin> fst ` set params"
  shows "\<exists>u query. ParseURL uri = Some u \<and> authorizationResponse uri issuer state params = Some (urlBase u @ ''?'' @ query) \<and>
    (\<forall>c\<in>set query. alnum c \<or> c \<in> set ''-_.~+%&='') \<and>
    (\<forall>(k, v)\<in>set params. Get (Query query) k = v) \<and>
    (state \<noteq> [] \<longrightarrow> Get (Query query) ''state'' = state) \<and> (issuer \<noteq> [] \<longrightarrow> Get (Query query) ''iss'' = issuer) \<and>
    (\<forall>k. k \<notin> fst ` set params \<union> {''state'', ''iss''} \<longrightarrow> Get (Query query) k = Get (Query (u_RawQuery u)) k)"
proof -
  obtain u where u: "ParseURL uri = Some u" "u_Fragment u = []" using accepted_uri_parses[OF assms(1-3)] by metis
  let ?q0 = "setAll params (Query (u_RawQuery u))"
  let ?q1 = "if state \<noteq> [] then SetValue ''state'' state ?q0 else ?q0"
  let ?q = "if issuer \<noteq> [] then SetValue ''iss'' issuer ?q1 else ?q1"
  have "?q \<noteq> []" using setAll_nonempty[OF assms(4)] by (simp add: SetValue_def)
  then have loc: "authorizationResponse uri issuer state params = Some (urlBase u @ ''?'' @ EncodeValues ?q)"
    using EncodeValues_nonempty u by (simp add: authorizationResponse_def Let_def urlString_def del: if_cancel)
  have get: "Get (Query (EncodeValues ?q)) k = Get ?q k" for k by (simp only: Query_EncodeValues Get_sort_key)
  have q: "Get ?q k = (if k = ''iss'' \<and> issuer \<noteq> [] then issuer else if k = ''state'' \<and> state \<noteq> [] then state
      else case map_of params k of Some v \<Rightarrow> v | None \<Rightarrow> Get (Query (u_RawQuery u)) k)" for k
    by (simp add: Get_SetValue Get_setAll[OF assms(5)])
  have "Get (Query (EncodeValues ?q)) k = v" if "(k, v) \<in> set params" for k v
    unfolding get q using that assms(5-7) by (force simp: map_of_is_SomeI)
  moreover have "Get (Query (EncodeValues ?q)) k = Get (Query (u_RawQuery u)) k" if "k \<notin> fst ` set params \<union> {''state'', ''iss''}" for k
  proof -
    have "map_of params k = None" using that by (simp add: map_of_eq_None_iff)
    then show ?thesis unfolding get q using that by simp
  qed
  moreover have "state \<noteq> [] \<longrightarrow> Get (Query (EncodeValues ?q)) ''state'' = state" "issuer \<noteq> [] \<longrightarrow> Get (Query (EncodeValues ?q)) ''iss'' = issuer"
    unfolding get q by simp_all
  ultimately show ?thesis using u(1) loc EncodeValues_chars[of _ ?q] by blast
qed

theorem authorization_response_exact_witness:
  "\<exists>reg query. ParseClientRegistry False ''cli:http://127.0.0.1/cb,ui:https://ui.example/auth'' = Inr reg \<and>
     ValidateClient reg ''cli'' ''http://127.0.0.1:8080/cb'' = None \<and>
     authorizationResponse ''http://127.0.0.1:8080/cb'' ''https://id'' ''s&t'' [(''code'', ''a b'')] = Some (''http://127.0.0.1:8080/cb?'' @ query) \<and>
     Get (Query query) ''code'' = ''a b'' \<and> Get (Query query) ''state'' = ''s&t'' \<and> Get (Query query) ''iss'' = ''https://id''"
proof -
  let ?c = "\<lparr>ci_RedirectURIs = [''http://127.0.0.1/cb''], ci_GrantTypes = [grantAuthorizationCode, grantRefreshToken], ci_Secret = []\<rparr>"
  let ?u = "\<lparr>ci_RedirectURIs = [''https://ui.example/auth''], ci_GrantTypes = [grantAuthorizationCode, grantRefreshToken], ci_Secret = []\<rparr>"
  have p: "ParseClientRegistry False ''cli:http://127.0.0.1/cb,ui:https://ui.example/auth'' = Inr [(''cli'', ?c), (''ui'', ?u)]" by code_simp
  have s: "WithSecrets [(''cli'', ?c), (''ui'', ?u)] [] = (None, [(''cli'', ?c), (''ui'', ?u)])" by code_simp
  have v: "ValidateClient [(''cli'', ?c), (''ui'', ?u)] ''cli'' ''http://127.0.0.1:8080/cb'' = None" by code_simp
  have "map_option urlBase (ParseURL ''http://127.0.0.1:8080/cb'') = Some ''http://127.0.0.1:8080/cb''" by code_simp
  then show ?thesis
    using authorization_response_exact[OF p s v, of "[(''code'', ''a b'')]" "''https://id''" "''s&t''"] p v by auto
qed

section \<open>Any relation the store operations keep is kept by the token endpoint\<close>

lemma dispatch_rel:
  assumes refl: "\<And>st. R st st" and trans: "\<And>a b c. R a b \<Longrightarrow> R b c \<Longrightarrow> R a c"
    and code: "\<And>st c f at. R st (snd (ts_ConsumeAuthCode (tk_store t) st c f at))"
    and save: "\<And>st r. R st (snd (ts_SaveRefresh (tk_store t) st r))"
    and rot: "\<And>st tk c at. R st (snd (ts_ConsumeRefresh (tk_store t) st tk c at))"
    and rev: "\<And>st F at. R st (snd (ts_RevokeRefreshFamily (tk_store t) st F at))"
    and poll: "\<And>dev st c now. tk_devices t = Some dev \<Longrightarrow> R st (snd (ds_PollDeviceCode dev st c now))"
    and con: "\<And>dev st c. tk_devices t = Some dev \<Longrightarrow> R st (snd (ds_ConsumeDeviceCode dev st c))"
    and step: "dispatch t env form hdr sg st = (res, sg', st')"
  shows "R st st'"
proof -
  have c: "R st0 st1" if "ts_ConsumeAuthCode (tk_store t) st0 cd f at = (x, st1)" for st0 st1 cd f at x using code[of st0 cd f at] that by simp
  have v: "R st0 st1" if "revokeFamily t F now st0 = (e, st1)" for F now st0 e st1
    using that rev[of st0 F now] by (auto simp: revokeFamily_def split: prod.splits sum.splits)
  have vr: "R st0 st1" if "revokeAndRefuse t F now e0 st0 = (e, st1)" for F now e0 st0 e st1
    using that v by (auto simp: revokeAndRefuse_def split: prod.splits option.splits)
  have i: "R st0 st1" if "issue t env k who cid n l sg0 st0 = (r, sg1, st1)" for k who cid n l sg0 st0 r sg1 st1
    using that
  proof (cases rule: issue_cases)
    case saved
    then show ?thesis using save[of st0] by (metis snd_conv)
  qed (simp add: refl)
  have rd: "R st0 st1" if "RedeemAuthorizationCode t rnd now req st0 = (r, st1)" for rnd now req st0 r st1
    using that
  proof (cases rule: redeem_steps)
    case 2
    then show ?thesis using c v trans by blast
  qed (simp add: refl)
  have cg: "R st st'" if "authorizationCodeGrant t env form hdr sg st = (res, sg', st')"
    using that by (cases rule: codeGrant_cases) (use rd i trans in blast)+
  have rg: "R st st'" if "refreshTokenGrant t env form hdr sg st = (res, sg', st')"
  proof -
    have k: "R st0 st1" if "ts_ConsumeRefresh (tk_store t) st0 tk cd at = (x, st1)" for st0 st1 tk cd at x using rot[of st0 tk cd at] that by simp
    show ?thesis using that
    proof (cases rule: refreshGrant_steps)
      case revoked
      show ?thesis by (rule trans[OF k[OF revoked(1)] vr[OF revoked(2)]])
    next
      case issued
      show ?thesis by (rule trans[OF k[OF issued(1)] i[OF issued(2)]])
    next
      case denied
      show ?thesis by (rule trans[OF k[OF denied(1)] trans[OF i[OF denied(2)] vr[OF denied(3)]]])
    qed (simp_all add: refl k)
  qed
  have dg: "R st st'" if "deviceCodeGrant t env form hdr sg st = (res, sg', st')"
    using that
  proof (cases rule: deviceGrant_steps)
    case (2 dev out st1)
    then have p: "R st st1" using poll[of dev st "Get form ''device_code''" "ev_clk env 0"] by simp
    have q: "R st1 st2" if "ds_ConsumeDeviceCode dev st1 (Get form ''device_code'') = (out2, st2)" for out2 st2
      using con[OF 2(1), of st1 "Get form ''device_code''"] that by simp
    show ?thesis using 2(3) p by (elim disjE exE conjE) (blast intro: trans[OF p] q i trans)+
  qed (simp add: refl)
  show ?thesis using step cg rg dg refl by (auto simp: dispatch_def split: option.splits if_splits)
qed

end
