(* ===== verification/Login_Flow.thy ===== *)
theory Login_Flow
  imports Code_Flow
begin

text \<open>
  The authorization-code flow as a whole: /authorize, /callback and /token over one store. The locale
  \<^verbatim>\<open>login_store\<close> adds to the token and device stores what the two browser endpoints rely on: a pending request is
  saved once, consumed once, and left alone by the token endpoint. Both databases are interpretations. \<^verbatim>\<open>serve\<close>
  runs a list of requests in order; the traceback property says which earlier requests an issued token goes back to.
\<close>

section \<open>The server\<close>

record ('st, 'key, 'pub, 'set, 'tok) Server =
  sv_authorizer :: "'st Authorizer"
  sv_callback :: "'st Callback"
  sv_token :: "('st, 'key, 'pub, 'set, 'tok) Token"

datatype ServerRequest = AuthorizeReq AuthorizeEnv authorizeInput | CallbackReq CallbackEnv callbackInput | TokenReq TokenEnv Values string

datatype 'tok ServerAnswer = AuthorizeAns "HandlerError + authorizeOutput" | CallbackAns "(HandlerError + callbackOutput) option"
  | TokenAns "HandlerError + 'tok tokenOutput"

fun serveOne :: "('st, 'key, 'pub, 'set, 'tok) Server \<Rightarrow> ServerRequest \<Rightarrow> 'key Signer \<times> 'st \<Rightarrow> 'tok ServerAnswer \<times> 'key Signer \<times> 'st" where
  "serveOne sv (AuthorizeReq env inp) (sg, st) = (case authorize (sv_authorizer sv) env inp st of (out, st') \<Rightarrow> (AuthorizeAns out, sg, st'))"
| "serveOne sv (CallbackReq env inp) (sg, st) = (case callback (sv_callback sv) env inp st of (out, st') \<Rightarrow> (CallbackAns out, sg, st'))"
| "serveOne sv (TokenReq env form hdr) (sg, st) = (case dispatch (sv_token sv) env form hdr sg st of (out, sg', st') \<Rightarrow> (TokenAns out, sg', st'))"

fun serve :: "('st, 'key, 'pub, 'set, 'tok) Server \<Rightarrow> ServerRequest list \<Rightarrow> 'key Signer \<times> 'st \<Rightarrow> 'tok ServerAnswer list \<times> 'key Signer \<times> 'st" where
  "serve sv [] s = ([], s)"
| "serve sv (r # rs) s = (case serveOne sv r s of (a, s') \<Rightarrow> case serve sv rs s' of (as, s'') \<Rightarrow> (a # as, s''))"

lemma serve_append: "serve sv (rs @ rs') s = (case serve sv rs s of (as, s') \<Rightarrow> case serve sv rs' s' of (as', s'') \<Rightarrow> (as @ as', s''))"
  by (induction rs arbitrary: s) (auto split: prod.splits)

lemma serve_length: "serve sv rs s = (as, s') \<Longrightarrow> length as = length rs"
  by (induction rs arbitrary: s as s') (auto split: prod.splits)

section \<open>What an earlier request did\<close>

text \<open>The request passed /authorize and saved this pending request.\<close>

definition startedBy :: "'st Authorizer \<Rightarrow> ServerRequest \<Rightarrow> AuthRequest \<Rightarrow> bool" where
  "startedBy a r ar = (\<exists>env inp s. r = AuthorizeReq env inp \<and> ValidateClient (az_clients a) (ai_ClientID inp) (ai_RedirectURI inp) = None \<and>
     checkAuthorize a inp = None \<and> randomState (ave_state env) = Some s \<and> ar = pendingRequest inp s (cn_ID (Active (az_connectors a))) (ave_now env))"

text \<open>The request passed /callback for this pending request and saved this code.\<close>

definition admittedBy :: "'st Callback \<Rightarrow> ServerRequest \<Rightarrow> AuthRequest \<Rightarrow> AuthCode \<Rightarrow> bool" where
  "admittedBy c r ar ac = (\<exists>env inp conn completion granted code. r = CallbackReq env inp \<and>
     LookupConnector (cb_connectors c) (cbi_Connector inp) = Some conn \<and>
     Get (cbi_params inp) (fl_StateParam (cn_Flow conn)) = ar_InternalState ar \<and> ar_ConnectorID ar = cn_ID conn \<and>
     boundToBrowser (cb_binding c) (cbi_Cookie inp) (cn_ID conn) (ar_InternalState ar) \<and> cbe_expiry env \<le> ar_ExpiresAt ar \<and>
     cn_Complete conn (cbe_upstream env) (completeParams c (cn_ID conn) (cbi_params inp) (ar_InternalState ar)) = Inr completion \<and>
     ui_Subject (co_Identity completion) \<noteq> [] \<and> refusal c (co_Identity completion) (co_Refusal completion) = None \<and>
     permitted (cb_authorizer c) (ui_Email (co_Identity completion)) = Inr (granted, True) \<and> randomCode (cbe_code env) = Some code \<and>
     ac = newAuthCode ar (cn_ID conn) (co_Identity completion) code (cbe_now env))"

section \<open>The contract\<close>

locale login_store = oidc_store ops inv abs dops dinv dabs
  for ops :: "'st TokenStore" and inv :: "'st \<Rightarrow> bool" and abs :: "'st \<Rightarrow> AbsTokens"
    and dops :: "'st DeviceCodeStore" and dinv :: "'st \<Rightarrow> bool" and dabs :: "'st \<Rightarrow> AbsDevices" +
  fixes saveReq :: "'st \<Rightarrow> AuthRequest \<Rightarrow> StoreError option \<times> 'st"
    and consumeReq :: "'st \<Rightarrow> string \<Rightarrow> (StoreError + AuthRequest) \<times> 'st"
    and saveCode :: "'st \<Rightarrow> AuthCode \<Rightarrow> StoreError option \<times> 'st"
    and reqs :: "'st \<Rightarrow> string \<rightharpoonup> AuthRequest"
  assumes request_key: "reqs st s = Some ar \<Longrightarrow> ar_InternalState ar = s"
    and save_request: "saveReq st ar = (err, st') \<Longrightarrow> inv st' = inv st \<and> abs st' = abs st \<and> dinv st' = dinv st \<and> dabs st' = dabs st \<and>
      ((\<exists>e. err = Some e \<and> reqs st' = reqs st) \<or>
       (err = None \<and> reqs st (ar_InternalState ar) = None \<and> reqs st' = (reqs st)(ar_InternalState ar \<mapsto> ar)))"
    and consume_request: "consumeReq st s = (res, st') \<Longrightarrow> inv st' = inv st \<and> abs st' = abs st \<and> dinv st' = dinv st \<and> dabs st' = dabs st \<and>
      ((\<exists>e. res = Inl e \<and> reqs st' = reqs st) \<or> (\<exists>ar. reqs st s = Some ar \<and> res = Inr ar \<and> reqs st' = (reqs st)(s := None)))"
    and save_code: "inv st \<Longrightarrow> saveCode st ac = (err, st') \<Longrightarrow> inv st' \<and> dinv st' = dinv st \<and> dabs st' = dabs st \<and> reqs st' = reqs st \<and>
      ((\<exists>e. err = Some e \<and> abs st' = abs st) \<or>
       (err = None \<and> a_codes (abs st) (Hash (ac_Code ac)) = None \<and>
        abs st' = (abs st)\<lparr>a_codes := (a_codes (abs st))(Hash (ac_Code ac) \<mapsto> \<lparr>acd_data = ac\<lparr>ac_Code := [], ac_FamilyID := []\<rparr>, acd_consumed = False\<rparr>)\<rparr>))"
    and code_requests: "reqs (snd (ts_ConsumeAuthCode ops st c f now)) = reqs st"
    and saveRefresh_requests: "reqs (snd (ts_SaveRefresh ops st r)) = reqs st"
    and refresh_requests: "reqs (snd (ts_ConsumeRefresh ops st token cid now)) = reqs st"
    and revoke_requests: "reqs (snd (ts_RevokeRefreshFamily ops st F now)) = reqs st"
    and poll_requests: "reqs (snd (ds_PollDeviceCode dops st c now)) = reqs st"
    and consume_requests: "reqs (snd (ds_ConsumeDeviceCode dops st c)) = reqs st"

text \<open>The codes of a store after the token endpoint are codes it had before, with the same data up to the family.\<close>

definition codesKept :: "AbsTokens \<Rightarrow> AbsTokens \<Rightarrow> bool" where
  "codesKept A A' = (\<forall>h x. a_codes A' h = Some x \<longrightarrow> (\<exists>y. a_codes A h = Some y \<and> (acd_data x)\<lparr>ac_FamilyID := []\<rparr> = (acd_data y)\<lparr>ac_FamilyID := []\<rparr>))"

lemma codesKept_refl: "codesKept A A"
  by (simp add: codesKept_def)

lemma codesKept_trans: "codesKept A B \<Longrightarrow> codesKept B C \<Longrightarrow> codesKept A C"
  unfolding codesKept_def by metis

lemma codesKept_spec:
  "codesKept A (snd (spec_ConsumeAuthCode A code F))" "codesKept A (snd (spec_SaveRefresh A r))"
  "codesKept A (snd (spec_ConsumeRefresh A token cid))" "codesKept A (snd (spec_RevokeRefreshFamily A F))"
  by (auto simp: codesKept_def spec_defs Let_def split: option.split)

text \<open>Every pending request and every code of a store goes back to requests served before.\<close>

definition traced :: "'st Authorizer \<Rightarrow> 'st Callback \<Rightarrow> ServerRequest list \<Rightarrow> (string \<rightharpoonup> AuthRequest) \<Rightarrow> (string \<rightharpoonup> AbsCode) \<Rightarrow> bool" where
  "traced a c rs pend codes =
     ((\<forall>s ar. pend s = Some ar \<longrightarrow> (\<exists>k<length rs. startedBy a (rs ! k) ar)) \<and>
      (\<forall>h x. codes h = Some x \<longrightarrow> (\<exists>k j ar ac. k < j \<and> j < length rs \<and> startedBy a (rs ! k) ar \<and> admittedBy c (rs ! j) ar ac \<and>
         Hash (ac_Code ac) = h \<and> (acd_data x)\<lparr>ac_FamilyID := []\<rparr> = ac\<lparr>ac_Code := []\<rparr>)))"

lemma traced_weaken:
  assumes "traced a c rs p q" "\<And>s ar. p' s = Some ar \<Longrightarrow> p s = Some ar"
    and q: "\<And>h x. q' h = Some x \<Longrightarrow> \<exists>y. q h = Some y \<and> (acd_data x)\<lparr>ac_FamilyID := []\<rparr> = (acd_data y)\<lparr>ac_FamilyID := []\<rparr>"
  shows "traced a c (rs @ [r]) p' q'"
  unfolding traced_def
proof (intro conjI allI impI)
  show "\<exists>k<length (rs @ [r]). startedBy a ((rs @ [r]) ! k) ar" if "p' s = Some ar" for s ar
    using assms(1,2) that by (fastforce simp: traced_def nth_append)
  fix h x assume "q' h = Some x"
  then obtain y where y: "q h = Some y" "(acd_data x)\<lparr>ac_FamilyID := []\<rparr> = (acd_data y)\<lparr>ac_FamilyID := []\<rparr>" using q by blast
  then obtain k j ar ac where "k < j" "j < length rs" "startedBy a (rs ! k) ar" "admittedBy c (rs ! j) ar ac" "Hash (ac_Code ac) = h"
    "(acd_data y)\<lparr>ac_FamilyID := []\<rparr> = ac\<lparr>ac_Code := []\<rparr>" using assms(1) unfolding traced_def by blast
  then show "\<exists>k j ar ac. k < j \<and> j < length (rs @ [r]) \<and> startedBy a ((rs @ [r]) ! k) ar \<and> admittedBy c ((rs @ [r]) ! j) ar ac \<and>
      Hash (ac_Code ac) = h \<and> (acd_data x)\<lparr>ac_FamilyID := []\<rparr> = ac\<lparr>ac_Code := []\<rparr>"
    using y(2) by (intro exI[of _ k] exI[of _ j] exI[of _ ar] exI[of _ ac]) (simp add: nth_append)
qed

lemma traced_start:
  assumes "traced a c rs p q" "startedBy a r ar"
  shows "traced a c (rs @ [r]) (p(s \<mapsto> ar)) q"
proof -
  have "traced a c (rs @ [r]) p q" by (rule traced_weaken[OF assms(1)]) auto
  moreover have "startedBy a ((rs @ [r]) ! length rs) ar" using assms(2) by simp
  ultimately show ?thesis unfolding traced_def by (auto simp del: nth_append_length)
qed

lemma traced_admit:
  assumes "traced a c rs p q" "p s = Some ar" "admittedBy c r ar ac" "\<And>s ar. p' s = Some ar \<Longrightarrow> p s = Some ar"
  shows "traced a c (rs @ [r]) p' (q(Hash (ac_Code ac) \<mapsto> \<lparr>acd_data = ac\<lparr>ac_Code := [], ac_FamilyID := []\<rparr>, acd_consumed = False\<rparr>))"
proof -
  have w: "traced a c (rs @ [r]) p' q" by (rule traced_weaken[OF assms(1,4)]) auto
  obtain k where k: "k < length rs" "startedBy a (rs ! k) ar" using assms(1,2) unfolding traced_def by blast
  have "ac_FamilyID ac = []" using assms(3) by (auto simp: admittedBy_def newAuthCode_def)
  then have "ac\<lparr>ac_Code := [], ac_FamilyID := []\<rparr> = ac\<lparr>ac_Code := []\<rparr>" by (cases ac) simp
  then have new: "k < length rs \<and> length rs < length (rs @ [r]) \<and> startedBy a ((rs @ [r]) ! k) ar \<and> admittedBy c ((rs @ [r]) ! length rs) ar ac \<and>
      Hash (ac_Code ac) = Hash (ac_Code ac) \<and> (ac\<lparr>ac_Code := [], ac_FamilyID := []\<rparr>)\<lparr>ac_FamilyID := []\<rparr> = ac\<lparr>ac_Code := []\<rparr>"
    using k assms(3) by (simp add: nth_append)
  show ?thesis
    unfolding traced_def
  proof (intro conjI allI impI)
    show "\<exists>k<length (rs @ [r]). startedBy a ((rs @ [r]) ! k) ar" if "p' s = Some ar" for s ar using w that unfolding traced_def by blast
    fix h x assume h: "(q(Hash (ac_Code ac) \<mapsto> \<lparr>acd_data = ac\<lparr>ac_Code := [], ac_FamilyID := []\<rparr>, acd_consumed = False\<rparr>)) h = Some x"
    show "\<exists>k j ar ac. k < j \<and> j < length (rs @ [r]) \<and> startedBy a ((rs @ [r]) ! k) ar \<and> admittedBy c ((rs @ [r]) ! j) ar ac \<and>
      Hash (ac_Code ac) = h \<and> (acd_data x)\<lparr>ac_FamilyID := []\<rparr> = ac\<lparr>ac_Code := []\<rparr>"
    proof (cases "h = Hash (ac_Code ac)")
      case True
      then have "x = \<lparr>acd_data = ac\<lparr>ac_Code := [], ac_FamilyID := []\<rparr>, acd_consumed = False\<rparr>" using h by simp
      then show ?thesis using new True by (intro exI[of _ k] exI[of _ "length rs"] exI[of _ ar] exI[of _ ac]) simp
    next
      case False
      then show ?thesis using w h unfolding traced_def by simp
    qed
  qed
qed

section \<open>Laws of every login store\<close>

context login_store
begin

lemma dispatch_keeps:
  assumes "inv st" "tk_store t = ops" "tk_devices t \<in> {None, Some dops}" "dispatch t env form hdr sg st = (res, sg', st')"
  shows "inv st' \<and> codesKept (abs st) (abs st') \<and> reqs st' = reqs st"
proof -
  let ?R = "\<lambda>a b. (inv a \<longrightarrow> inv b \<and> codesKept (abs a) (abs b)) \<and> reqs b = reqs a"
  have code: "?R st (snd (ts_ConsumeAuthCode ops st c f at))" for st c f at
    using consume_code[of st c f at] codesKept_spec(1)[of "abs st" c f] codesKept_refl code_requests
    by (cases "ts_ConsumeAuthCode ops st c f at") (metis snd_conv)
  have save: "?R st (snd (ts_SaveRefresh ops st r))" for st r
    using save_refresh[of st r] codesKept_spec(2)[of "abs st" r] codesKept_refl saveRefresh_requests
    by (cases "ts_SaveRefresh ops st r") (metis snd_conv)
  have rot: "?R st (snd (ts_ConsumeRefresh ops st tk c at))" for st tk c at
    using consume_refresh[of st tk c at] codesKept_spec(3)[of "abs st" tk c] codesKept_refl refresh_requests
    by (cases "ts_ConsumeRefresh ops st tk c at") (metis snd_conv)
  have rev: "?R st (snd (ts_RevokeRefreshFamily ops st F at))" for st F at
    using revoke_family[of st F at] codesKept_spec(4)[of "abs st" F] codesKept_refl revoke_requests
    by (cases "ts_RevokeRefreshFamily ops st F at") (metis snd_conv)
  have "?R st st'"
  proof (rule dispatch_rel[of ?R, OF _ _ _ _ _ _ _ _ assms(4)])
    show "?R a c" if "?R a b" "?R b c" for a b c using that codesKept_trans by auto
    show "?R st (snd (ds_PollDeviceCode dev st c now))" if "tk_devices t = Some dev" for dev st c now
      using that assms(3) poll_frame poll_requests codesKept_refl by auto
    show "?R st (snd (ds_ConsumeDeviceCode dev st c))" if "tk_devices t = Some dev" for dev st c
      using that assms(3) consume_frame consume_requests codesKept_refl by auto
  qed (use code save rot rev codesKept_refl in \<open>simp_all add: assms(2)\<close>)
  then show ?thesis using assms(1) by simp
qed

lemma serveOne_traced:
  assumes "inv st" "traced (sv_authorizer sv) (sv_callback sv) rs (reqs st) (a_codes (abs st))"
    and store: "az_SaveAuthRequest (sv_authorizer sv) = saveReq" "cb_ConsumeAuthRequest (sv_callback sv) = consumeReq" "cb_SaveAuthCode (sv_callback sv) = saveCode"
      "tk_store (sv_token sv) = ops" "tk_devices (sv_token sv) \<in> {None, Some dops}"
    and step: "serveOne sv r (sg, st) = (ans, sg', st')"
  shows "inv st' \<and> traced (sv_authorizer sv) (sv_callback sv) (rs @ [r]) (reqs st') (a_codes (abs st'))"
proof (cases r)
  case (AuthorizeReq env inp)
  then obtain out where "authorize (sv_authorizer sv) env inp st = (out, st')" using step by (auto split: prod.splits)
  then show ?thesis
  proof (cases rule: authorize_cases)
    case untouched
    then show ?thesis using assms(1) traced_weaken[OF assms(2)] by blast
  next
    case (saved s err)
    let ?ar = "pendingRequest inp s (cn_ID (Active (az_connectors (sv_authorizer sv)))) (ave_now env)"
    have st: "startedBy (sv_authorizer sv) r ?ar" unfolding startedBy_def using saved AuthorizeReq by blast
    from save_request[OF saved(4)[unfolded store]] show ?thesis
      using assms(1) traced_start[OF assms(2) st, of "ar_InternalState ?ar"] traced_weaken[OF assms(2), of "reqs st" "a_codes (abs st)" r] by auto
  qed
next
  case (CallbackReq env inp)
  show ?thesis
  proof (cases "LookupConnector (cb_connectors (sv_callback sv)) (cbi_Connector inp)")
    case None
    then have "st' = st" using step CallbackReq by (simp add: callback_def)
    then show ?thesis using assms(1) traced_weaken[OF assms(2)] by blast
  next
    case (Some conn)
    then obtain out reason where "complete (sv_callback sv) env conn inp st = (out, reason, st')"
      using step CallbackReq by (auto simp: callback_def split: prod.splits)
    then show ?thesis
    proof (cases rule: complete_cases)
      case untouched
      then show ?thesis using assms(1) traced_weaken[OF assms(2)] by blast
    next
      case (consumed res)
      from consume_request[OF consumed(1)[unfolded store]] have "inv st'" "abs st' = abs st" "\<And>s ar. reqs st' s = Some ar \<Longrightarrow> reqs st s = Some ar"
        using assms(1) by (auto split: if_splits)
      then show ?thesis using traced_weaken[OF assms(2), of "reqs st'" "a_codes (abs st)" r] by simp
    next
      case (saved ar st1 completion granted code err)
      let ?s = "Get (cbi_params inp) (fl_StateParam (cn_Flow conn))" and ?ac = "newAuthCode ar (cn_ID conn) (co_Identity completion) code (cbe_now env)"
      have c: "inv st1" "abs st1 = abs st" "reqs st ?s = Some ar" "reqs st1 = (reqs st)(?s := None)"
        using consume_request[OF saved(1)[unfolded store]] assms(1) by auto
      have s: "ar_InternalState ar = ?s" using request_key[OF c(3)] .
      have ad: "admittedBy (sv_callback sv) r ar ?ac"
        unfolding admittedBy_def
        by (intro exI[of _ env] exI[of _ inp] exI[of _ conn] exI[of _ completion] exI[of _ granted] exI[of _ code] conjI)
           (use saved Some CallbackReq s in simp_all)
      from save_code[OF c(1) saved(11)[unfolded store]] have "inv st'" "reqs st' = reqs st1"
        and d: "abs st' = abs st \<or> abs st' = (abs st)\<lparr>a_codes := (a_codes (abs st))(Hash (ac_Code ?ac) \<mapsto> \<lparr>acd_data = ?ac\<lparr>ac_Code := [], ac_FamilyID := []\<rparr>, acd_consumed = False\<rparr>)\<rparr>"
        using c by auto
      moreover have sub: "\<And>s ar. reqs st1 s = Some ar \<Longrightarrow> reqs st s = Some ar" unfolding c(4) by (auto split: if_splits)
      ultimately show ?thesis using traced_weaken[where p' = "reqs st1" and q' = "a_codes (abs st)" and r = r, OF assms(2) sub] traced_admit[where p' = "reqs st1", OF assms(2) c(3) ad sub] by auto
    qed
  qed
next
  case (TokenReq env form hdr)
  then obtain res where "dispatch (sv_token sv) env form hdr sg st = (res, sg', st')" using step by (auto split: prod.splits)
  note k = dispatch_keeps[OF assms(1) store(4,5) this]
  then show ?thesis using traced_weaken[OF assms(2), of "reqs st'" "a_codes (abs st')" r] by (simp add: codesKept_def)
qed

lemma serve_traced:
  assumes "inv st" "reqs st = Map.empty" "a_codes (abs st) = Map.empty"
    and store: "az_SaveAuthRequest (sv_authorizer sv) = saveReq" "cb_ConsumeAuthRequest (sv_callback sv) = consumeReq" "cb_SaveAuthCode (sv_callback sv) = saveCode"
      "tk_store (sv_token sv) = ops" "tk_devices (sv_token sv) \<in> {None, Some dops}"
  shows "serve sv rs (sg, st) = (as, sg', st') \<Longrightarrow> inv st' \<and> traced (sv_authorizer sv) (sv_callback sv) rs (reqs st') (a_codes (abs st'))"
proof (induction rs arbitrary: as sg' st' rule: rev_induct)
  case Nil
  then show ?case using assms(1-3) by (simp add: traced_def)
next
  case (snoc r rs)
  obtain as1 sg1 st1 ans where s: "serve sv rs (sg, st) = (as1, sg1, st1)" "serveOne sv r (sg1, st1) = (ans, sg', st')"
    using snoc.prems by (auto simp: serve_append split: prod.splits)
  show ?case by (rule serveOne_traced[OF _ _ store s(2)]) (use snoc.IH[OF s(1)] in simp_all)
qed

text \<open>The request at a position of a run, with the states around it.\<close>

lemma serve_at:
  assumes "serve sv rs s = (as, fin)" "i < length rs"
  obtains sg st s' where "serve sv (take i rs) s = (take i as, sg, st)" "serveOne sv (rs ! i) (sg, st) = (as ! i, s')"
proof -
  obtain as1 sg st where a: "serve sv (take i rs) s = (as1, sg, st)" by (metis prod_cases3)
  obtain ans s' where b: "serveOne sv (rs ! i) (sg, st) = (ans, s')" by (metis surj_pair)
  obtain as2 s2 where c: "serve sv (drop (Suc i) rs) s' = (as2, s2)" by (metis surj_pair)
  have "serve sv (take i rs @ rs ! i # drop (Suc i) rs) s = (as1 @ ans # as2, s2)" by (simp add: serve_append a b c)
  then have "as = as1 @ ans # as2" using assms by (simp add: id_take_nth_drop[symmetric])
  moreover have "length as1 = i" using serve_length[OF a] assms(2) by simp
  ultimately show ?thesis using that[of sg st s'] a b by (simp add: nth_append)
qed

lemma code_traced:
  assumes "inv st" "reqs st = Map.empty" "a_codes (abs st) = Map.empty"
    and store: "az_SaveAuthRequest (sv_authorizer sv) = saveReq" "cb_ConsumeAuthRequest (sv_callback sv) = consumeReq" "cb_SaveAuthCode (sv_callback sv) = saveCode"
      "tk_store (sv_token sv) = ops" "tk_devices (sv_token sv) \<in> {None, Some dops}"
    and run: "serve sv rs (sg, st) = (as, fin)" "i < length rs" "rs ! i = TokenReq env form hdr" "as ! i = TokenAns (Inr out)"
      "Get form ''grant_type'' = grantAuthorizationCode" "ev_family env \<noteq> Some []"
  obtains k j ar ac c granted jti sgi sg1 where "k < j" "j < i" "startedBy (sv_authorizer sv) (rs ! k) ar" "admittedBy (sv_callback sv) (rs ! j) ar ac"
    "Hash (ac_Code ac) = Hash (Get form ''code'')"
    "clientOK (sv_token sv) (fst (clientCredentials form hdr)) (snd (clientCredentials form hdr)) grantAuthorizationCode c"
    "codeOK (sv_token sv) (ev_clk env 0) (codeRequest form hdr) ac" "permitted (tk_authorizer (sv_token sv)) (ac_Email ac) = Inr (granted, True)"
    "Mint (tk_jwx (sv_token sv)) sgi (ev_jti env) (\<lambda>k. ev_clk env (3 + k)) (accessRequest (sv_token sv) (codeIdentity ac) (ac_ClientID ac) granted)
       = (Inr (to_AccessToken out, jti), sg1)"
proof -
  obtain sgi sti s' where at: "serve sv (take i rs) (sg, st) = (take i as, sgi, sti)" "serveOne sv (rs ! i) (sgi, sti) = (as ! i, s')"
    by (rule serve_at[OF run(1,2)])
  have tr: "inv sti" "traced (sv_authorizer sv) (sv_callback sv) (take i rs) (reqs sti) (a_codes (abs sti))"
    using serve_traced[OF assms(1-3) store at(1)] by simp_all
  obtain sg' st' where "dispatch (sv_token sv) env form hdr sgi sti = (Inr out, sg', st')"
    using at(2) unfolding run(3,4) by (cases s') (auto split: prod.splits)
  then have g: "authorizationCodeGrant (sv_token sv) env form hdr sgi sti = (Inr out, sg', st')"
    using run(5) by (auto simp: dispatch_def split: option.splits)
  obtain c x granted jti sg1 where x: "clientOK (sv_token sv) (fst (clientCredentials form hdr)) (snd (clientCredentials form hdr)) grantAuthorizationCode c"
    "a_codes (abs sti) (Hash (Get form ''code'')) = Some x" "codeOK (sv_token sv) (ev_clk env 0) (codeRequest form hdr) (acd_data x)"
    "permitted (tk_authorizer (sv_token sv)) (ac_Email (acd_data x)) = Inr (granted, True)"
    "Mint (tk_jwx (sv_token sv)) sgi (ev_jti env) (\<lambda>k. ev_clk env (3 + k)) (accessRequest (sv_token sv) (codeIdentity (acd_data x)) (ac_ClientID (acd_data x)) granted)
       = (Inr (to_AccessToken out, jti), sg1)"
    by (rule codeGrant_sound[OF tr(1) store(4) g run(6)])
  obtain k j ar ac where t: "k < j" "j < length (take i rs)" "startedBy (sv_authorizer sv) (take i rs ! k) ar" "admittedBy (sv_callback sv) (take i rs ! j) ar ac"
    "Hash (ac_Code ac) = Hash (Get form ''code'')" "(acd_data x)\<lparr>ac_FamilyID := []\<rparr> = ac\<lparr>ac_Code := []\<rparr>"
    using tr(2) x(2) unfolding traced_def by blast
  have same: "acd_data x = ac\<lparr>ac_FamilyID := ac_FamilyID (acd_data x), ac_Code := []\<rparr>"
    using arg_cong[OF t(6), of "\<lambda>d. d\<lparr>ac_FamilyID := ac_FamilyID (acd_data x)\<rparr>"] by (cases "acd_data x"; cases ac) simp
  have "codeIdentity (acd_data x) = codeIdentity ac" "ac_ClientID (acd_data x) = ac_ClientID ac" "ac_Email (acd_data x) = ac_Email ac"
    "codeOK (sv_token sv) (ev_clk env 0) (codeRequest form hdr) (acd_data x) = codeOK (sv_token sv) (ev_clk env 0) (codeRequest form hdr) ac"
    by (subst same; simp)+
  then show ?thesis using that[OF t(1) _ _ _ t(5) x(1)] t x(3-5) run(2) by simp
qed

end

end
