(* ===== verification/Sign_In_Trace.thy ===== *)
theory Sign_In_Trace
  imports Login_Flow
begin

text \<open>
  Both databases keep the login contract, and the traceback of an issued token through /callback to /authorize.
\<close>

section \<open>SQLite\<close>

definition abs_requests :: "Store \<Rightarrow> string \<rightharpoonup> AuthRequest" where
  "abs_requests st = (\<lambda>s. find (\<lambda>r. ar_InternalState r = s) (auth_requests st))"

lemma abs_requests_same: "auth_requests st' = auth_requests st \<Longrightarrow> abs_requests st' = abs_requests st"
  by (simp add: abs_requests_def)

lemma request_tables:
  "auth_codes (snd (SaveAuthRequest st ar)) = auth_codes st" "refresh_tokens (snd (SaveAuthRequest st ar)) = refresh_tokens st"
  "device_codes (snd (SaveAuthRequest st ar)) = device_codes st"
  "auth_codes (snd (ConsumeAuthRequest st s)) = auth_codes st" "refresh_tokens (snd (ConsumeAuthRequest st s)) = refresh_tokens st"
  "device_codes (snd (ConsumeAuthRequest st s)) = device_codes st"
  "auth_requests (snd (SaveAuthCode st ac)) = auth_requests st" "refresh_tokens (snd (SaveAuthCode st ac)) = refresh_tokens st"
  "device_codes (snd (SaveAuthCode st ac)) = device_codes st"
  by (simp_all add: SaveAuthRequest_def ConsumeAuthRequest_def SaveAuthCode_def split: option.split)

lemma SaveAuthRequest_requests:
  "SaveAuthRequest st ar = (err, st') \<Longrightarrow> (\<exists>e. err = Some e \<and> abs_requests st' = abs_requests st) \<or>
     (err = None \<and> abs_requests st (ar_InternalState ar) = None \<and> abs_requests st' = (abs_requests st)(ar_InternalState ar \<mapsto> ar))"
  by (cases "find (\<lambda>r. ar_InternalState r = ar_InternalState ar) (auth_requests st)")
     (auto simp: SaveAuthRequest_def abs_requests_def fun_eq_iff find_append_new dest: find_SomeD split: if_splits option.split)

lemma ConsumeAuthRequest_requests:
  "ConsumeAuthRequest st s = (res, st') \<Longrightarrow> (\<exists>e. res = Inl e \<and> abs_requests st' = abs_requests st) \<or>
     (\<exists>ar. abs_requests st s = Some ar \<and> res = Inr ar \<and> abs_requests st' = (abs_requests st)(s := None))"
  by (auto simp: ConsumeAuthRequest_def abs_requests_def fun_eq_iff find_removed split: option.splits)

lemma SaveAuthCode_codes:
  assumes "wf_tokens st" "SaveAuthCode st ac = (err, st')"
  shows "wf_tokens st' \<and> ((\<exists>e. err = Some e \<and> abs_tokens st' = abs_tokens st) \<or>
    (err = None \<and> a_codes (abs_tokens st) (Hash (ac_Code ac)) = None \<and> abs_tokens st' = (abs_tokens st)\<lparr>a_codes :=
      (a_codes (abs_tokens st))(Hash (ac_Code ac) \<mapsto> \<lparr>acd_data = ac\<lparr>ac_Code := [], ac_FamilyID := []\<rparr>, acd_consumed = False\<rparr>)\<rparr>))"
proof (cases "Hash (ac_Code ac) \<in> acr_code_hash ` set (auth_codes st)")
  case True
  then have "exists_where (\<lambda>r. acr_code_hash r = Hash (ac_Code ac)) (auth_codes st)" by (simp add: exists_where_key del: exists_where_iff)
  then show ?thesis using assms by (auto simp: SaveAuthCode_def simp del: exists_where_iff)
next
  case False
  then have none: "find (\<lambda>r. acr_code_hash r = Hash (ac_Code ac)) (auth_codes st) = None" by (simp add: find_key_None_iff)
  have "err = None" and st': "st' = st\<lparr>auth_codes := auth_codes st @
      [\<lparr>acr_code_hash = Hash (ac_Code ac), acr_data = ac\<lparr>ac_Code := [], ac_FamilyID := []\<rparr>, acr_consumed_at = None\<rparr>]\<rparr>"
    using assms(2) False by (simp_all add: SaveAuthCode_def exists_where_key del: exists_where_iff)
  moreover have "wf_tokens st'" using assms(1) False by (auto simp: st' wf_tokens_def)
  ultimately show ?thesis using none by (simp add: abs_tokens_def fun_eq_iff find_append_new abs_code_def split: option.split)
qed

lemma sqlite_requests_frame:
  "auth_requests (snd (ts_ConsumeAuthCode sqliteTokenStore st c f now)) = auth_requests st" "auth_requests (snd (ts_SaveRefresh sqliteTokenStore st r)) = auth_requests st"
  "auth_requests (snd (ts_ConsumeRefresh sqliteTokenStore st token cid now)) = auth_requests st"
  "auth_requests (snd (ts_RevokeRefreshFamily sqliteTokenStore st F now)) = auth_requests st"
  "auth_requests (snd (ds_PollDeviceCode sqliteDeviceStore st c now)) = auth_requests st" "auth_requests (snd (ds_ConsumeDeviceCode sqliteDeviceStore st c)) = auth_requests st"
  by (auto simp: sqliteDeviceStore_def PollDeviceCode_def pollSwap_def pollBump_def updateDevice_def ConsumeDeviceCode_def ConsumeAuthCode_def SaveRefresh_def ConsumeRefresh_def
      RevokeRefreshFamily_def revokeRefresh_def Let_def split: option.split)

lemma tables_same:
  assumes "auth_codes st' = auth_codes st" "refresh_tokens st' = refresh_tokens st" "device_codes st' = device_codes st"
  shows "wf_tokens st' = wf_tokens st \<and> abs_tokens st' = abs_tokens st \<and> wf_devices st' = wf_devices st \<and> abs_devices st' = abs_devices st"
  using assms by (simp add: wf_tokens_def abs_tokens_def wf_devices_def abs_devices_def fun_eq_iff)

interpretation sqlite_login: login_store sqliteTokenStore wf_tokens abs_tokens sqliteDeviceStore wf_devices abs_devices
  SaveAuthRequest ConsumeAuthRequest SaveAuthCode abs_requests
proof unfold_locales
  show "ar_InternalState ar = s" if "abs_requests st s = Some ar" for st s ar
    using that unfolding abs_requests_def by (auto dest: find_SomeD)
  show "wf_tokens st' = wf_tokens st \<and> abs_tokens st' = abs_tokens st \<and> wf_devices st' = wf_devices st \<and> abs_devices st' = abs_devices st \<and>
      ((\<exists>e. err = Some e \<and> abs_requests st' = abs_requests st) \<or>
       (err = None \<and> abs_requests st (ar_InternalState ar) = None \<and> abs_requests st' = (abs_requests st)(ar_InternalState ar \<mapsto> ar)))"
    if "SaveAuthRequest st ar = (err, st')" for st ar err st'
    using SaveAuthRequest_requests[OF that] tables_same[of st' st] request_tables(1-3)[of st ar] that by simp
  show "wf_tokens st' = wf_tokens st \<and> abs_tokens st' = abs_tokens st \<and> wf_devices st' = wf_devices st \<and> abs_devices st' = abs_devices st \<and>
      ((\<exists>e. res = Inl e \<and> abs_requests st' = abs_requests st) \<or> (\<exists>ar. abs_requests st s = Some ar \<and> res = Inr ar \<and> abs_requests st' = (abs_requests st)(s := None)))"
    if "ConsumeAuthRequest st s = (res, st')" for st s res st'
    using ConsumeAuthRequest_requests[OF that] tables_same[of st' st] request_tables(4-6)[of st s] that by simp
  show "wf_tokens st' \<and> wf_devices st' = wf_devices st \<and> abs_devices st' = abs_devices st \<and> abs_requests st' = abs_requests st \<and>
      ((\<exists>e. err = Some e \<and> abs_tokens st' = abs_tokens st) \<or>
       (err = None \<and> a_codes (abs_tokens st) (Hash (ac_Code ac)) = None \<and> abs_tokens st' = (abs_tokens st)\<lparr>a_codes :=
         (a_codes (abs_tokens st))(Hash (ac_Code ac) \<mapsto> \<lparr>acd_data = ac\<lparr>ac_Code := [], ac_FamilyID := []\<rparr>, acd_consumed = False\<rparr>)\<rparr>))"
    if "wf_tokens st" "SaveAuthCode st ac = (err, st')" for st ac err st'
  proof -
    have r: "auth_requests st' = auth_requests st" "device_codes st' = device_codes st" using request_tables(7,9)[of st ac] that(2) by simp_all
    have d: "wf_devices st' = wf_devices st" "abs_devices st' = abs_devices st" using r(2) by (simp_all add: wf_devices_def abs_devices_def fun_eq_iff)
    show ?thesis using SaveAuthCode_codes[OF that] unfolding d abs_requests_same[OF r(1)] by blast
  qed
qed (simp_all only: abs_requests_same[OF sqlite_requests_frame(1)] abs_requests_same[OF sqlite_requests_frame(2)] abs_requests_same[OF sqlite_requests_frame(3)]
   abs_requests_same[OF sqlite_requests_frame(4)] abs_requests_same[OF sqlite_requests_frame(5)] abs_requests_same[OF sqlite_requests_frame(6)])

section \<open>Postgres\<close>

definition pg_requests :: "PgStore \<Rightarrow> string \<rightharpoonup> AuthRequest" where
  "pg_requests p = abs_requests (pg_tables p)"

lemma pg_requests_frame:
  "auth_requests (pg_tables (snd (ts_ConsumeAuthCode postgresTokenStore p c f now))) = auth_requests (pg_tables p)"
  "auth_requests (pg_tables (snd (ts_SaveRefresh postgresTokenStore p r))) = auth_requests (pg_tables p)"
  "auth_requests (pg_tables (snd (ts_ConsumeRefresh postgresTokenStore p token cid now))) = auth_requests (pg_tables p)"
  "auth_requests (pg_tables (snd (ts_RevokeRefreshFamily postgresTokenStore p F now))) = auth_requests (pg_tables p)"
  "auth_requests (pg_tables (snd (ds_PollDeviceCode pgDevices p c now))) = auth_requests (pg_tables p)"
  "auth_requests (pg_tables (snd (ds_ConsumeDeviceCode pgDevices p c))) = auth_requests (pg_tables p)"
  by (auto simp: onTables_def ConsumeAuthCode_def ConsumeRefresh_def pg_SaveRefresh_def pg_RevokeRefreshFamily_def revokeTokens_def Let_def
      postgresDeviceStore_def pg_PollDeviceCode_def pg_ConsumeDeviceCode_def updateDevice_def split: option.split prod.split)

lemma pg_families_same:
  assumes "onTables f p = (r, p')" "refresh_tokens (pg_tables p') = refresh_tokens (pg_tables p)"
  shows "wf_families p' = wf_families p"
proof -
  have "refresh_tokens (snd (f (pg_tables p))) = refresh_tokens (pg_tables p)" using onTables_elim[OF assms(1)] assms(2) by simp
  then have "wf_families (snd (onTables f p)) = wf_families p" by (simp add: onTables_wf_families)
  then show ?thesis using assms(1) by simp
qed

interpretation postgres_login: login_store postgresTokenStore wf_pg abs_pg pgDevices wf_pg_devices abs_pg_devices
  "\<lambda>p ar. onTables (\<lambda>s. pg_SaveAuthRequest s ar) p" "\<lambda>p s. onTables (\<lambda>t. pg_ConsumeAuthRequest t s) p"
  "\<lambda>p ac. onTables (\<lambda>s. pg_SaveAuthCode s ac) p" pg_requests
proof unfold_locales
  note pg = wf_pg_def abs_pg_def wf_pg_devices_def abs_pg_devices_def pg_requests_def
  show "ar_InternalState ar = s" if "pg_requests p s = Some ar" for p s ar
    using that sqlite_login.request_key unfolding pg by blast
  show "wf_pg p' = wf_pg p \<and> abs_pg p' = abs_pg p \<and> wf_pg_devices p' = wf_pg_devices p \<and> abs_pg_devices p' = abs_pg_devices p \<and>
      ((\<exists>e. err = Some e \<and> pg_requests p' = pg_requests p) \<or>
       (err = None \<and> pg_requests p (ar_InternalState ar) = None \<and> pg_requests p' = (pg_requests p)(ar_InternalState ar \<mapsto> ar)))"
    if "onTables (\<lambda>s. pg_SaveAuthRequest s ar) p = (err, p')" for p ar err p'
    using sqlite_login.save_request[OF onTables_elim[OF that, unfolded pg_tables_same]] pg_families_same[OF that]
      request_tables(2)[of "pg_tables p" ar] onTables_elim[OF that] unfolding pg pg_tables_same by simp
  show "wf_pg p' = wf_pg p \<and> abs_pg p' = abs_pg p \<and> wf_pg_devices p' = wf_pg_devices p \<and> abs_pg_devices p' = abs_pg_devices p \<and>
      ((\<exists>e. res = Inl e \<and> pg_requests p' = pg_requests p) \<or> (\<exists>ar. pg_requests p s = Some ar \<and> res = Inr ar \<and> pg_requests p' = (pg_requests p)(s := None)))"
    if "onTables (\<lambda>t. pg_ConsumeAuthRequest t s) p = (res, p')" for p s res p'
    using sqlite_login.consume_request[OF onTables_elim[OF that, unfolded pg_tables_same]] pg_families_same[OF that]
      request_tables(5)[of "pg_tables p" s] onTables_elim[OF that] unfolding pg pg_tables_same by simp
  show "wf_pg p' \<and> wf_pg_devices p' = wf_pg_devices p \<and> abs_pg_devices p' = abs_pg_devices p \<and> pg_requests p' = pg_requests p \<and>
      ((\<exists>e. err = Some e \<and> abs_pg p' = abs_pg p) \<or>
       (err = None \<and> a_codes (abs_pg p) (Hash (ac_Code ac)) = None \<and> abs_pg p' = (abs_pg p)\<lparr>a_codes :=
         (a_codes (abs_pg p))(Hash (ac_Code ac) \<mapsto> \<lparr>acd_data = ac\<lparr>ac_Code := [], ac_FamilyID := []\<rparr>, acd_consumed = False\<rparr>)\<rparr>))"
    if "wf_pg p" and o: "onTables (\<lambda>s. pg_SaveAuthCode s ac) p = (err, p')" for p ac err p'
    using sqlite_login.save_code[OF _ onTables_elim[OF o, unfolded pg_tables_same]] pg_families_same[OF o]
      request_tables(8)[of "pg_tables p" ac] onTables_elim[OF o] that(1) unfolding pg pg_tables_same by simp
qed (simp_all only: pg_requests_def abs_requests_same[OF pg_requests_frame(1)] abs_requests_same[OF pg_requests_frame(2)] abs_requests_same[OF pg_requests_frame(3)]
   abs_requests_same[OF pg_requests_frame(4)] abs_requests_same[OF pg_requests_frame(5)] abs_requests_same[OF pg_requests_frame(6)])

section \<open>Where a token comes from\<close>

text \<open>
  The store the browser endpoints and the token endpoint of a server share.
\<close>

definition onSqlite :: "(Store, 'key, 'pub, 'set, 'tok) Server \<Rightarrow> bool" where
  "onSqlite sv = (az_SaveAuthRequest (sv_authorizer sv) = SaveAuthRequest \<and> cb_ConsumeAuthRequest (sv_callback sv) = ConsumeAuthRequest \<and>
     cb_SaveAuthCode (sv_callback sv) = SaveAuthCode \<and> tk_store (sv_token sv) = sqliteTokenStore \<and>
     tk_devices (sv_token sv) \<in> {None, Some sqliteDeviceStore})"

text \<open>
  C5. Every token goes back to a sign-in. A server that starts with no codes and no pending requests serves any
  sequence of /authorize, /callback and /token requests. When a code grant among them is answered with tokens, an
  earlier request j was a /callback and a still earlier request k an /authorize for the same client, redirect URI
  and PKCE challenge that the grant presented. The callback came back with the state that authorize generated,
  from a browser bound to it, before the pending request expired, and the code is redeemed before it expires. The
  connector vouched for an account with a verified email in an allowed domain that is granted something, and the
  access token is minted for that account and client.
\<close>

theorem code_grant_traces_back:
  assumes "onSqlite sv" "wf_tokens st" "auth_requests st = []" "auth_codes st = []"
    and "serve sv rs (sg, st) = (as, fin)" "i < length rs" "rs ! i = TokenReq env form hdr" "as ! i = TokenAns (Inr out)"
      "Get form ''grant_type'' = grantAuthorizationCode" "ev_family env \<noteq> Some []"
  shows "\<exists>k j envA inp state envC cb conn completion granted.
    k < j \<and> j < i \<and> rs ! k = AuthorizeReq envA inp \<and> rs ! j = CallbackReq envC cb \<and>
    ValidateClient (az_clients (sv_authorizer sv)) (ai_ClientID inp) (ai_RedirectURI inp) = None \<and>
    ai_ClientID inp = fst (clientCredentials form hdr) \<and> ai_RedirectURI inp = Get form ''redirect_uri'' \<and>
    (if ai_CodeChallenge inp = [] then IsConfidential (tk_clients (sv_token sv)) (ai_ClientID inp)
     else verifyPKCE (Get form ''code_verifier'') (ai_CodeChallenge inp)) \<and>
    randomState (ave_state envA) = Some state \<and> LookupConnector (cb_connectors (sv_callback sv)) (cbi_Connector cb) = Some conn \<and>
    Get (cbi_params cb) (fl_StateParam (cn_Flow conn)) = state \<and>
    boundToBrowser (cb_binding (sv_callback sv)) (cbi_Cookie cb) (cn_ID conn) state \<and>
    cbe_expiry envC \<le> ave_now envA + authRequestTTL \<and> ev_clk env 0 \<le> cbe_now envC + authCodeTTL \<and>
    cn_Complete conn (cbe_upstream envC) (completeParams (sv_callback sv) (cn_ID conn) (cbi_params cb) state) = Inr completion \<and>
    ui_EmailVerified (co_Identity completion) \<and> emailDomainAllowed (cb_allowedDomains (sv_callback sv)) (ui_Email (co_Identity completion)) \<and>
    permitted (tk_authorizer (sv_token sv)) (ui_Email (co_Identity completion)) = Inr (granted, True) \<and>
    (\<exists>sgi jti sg1. Mint (tk_jwx (sv_token sv)) sgi (ev_jti env) (\<lambda>k. ev_clk env (3 + k))
       (accessRequest (sv_token sv) \<lparr>id_ConnectorID = cn_ID conn, id_Subject = ui_Subject (co_Identity completion), id_Email = ui_Email (co_Identity completion)\<rparr>
          (ai_ClientID inp) granted) = (Inr (to_AccessToken out, jti), sg1))"
proof -
  have empty: "abs_requests st = Map.empty" "a_codes (abs_tokens st) = Map.empty" using assms(3,4) by (simp_all add: abs_requests_def abs_tokens_def)
  obtain k j ar ac granted jti sgi sg1 where t: "k < j" "j < i" "startedBy (sv_authorizer sv) (rs ! k) ar" "admittedBy (sv_callback sv) (rs ! j) ar ac"
    and ok: "codeOK (sv_token sv) (ev_clk env 0) (codeRequest form hdr) ac" "permitted (tk_authorizer (sv_token sv)) (ac_Email ac) = Inr (granted, True)"
    "Mint (tk_jwx (sv_token sv)) sgi (ev_jti env) (\<lambda>k. ev_clk env (3 + k)) (accessRequest (sv_token sv) (codeIdentity ac) (ac_ClientID ac) granted)
       = (Inr (to_AccessToken out, jti), sg1)"
    using sqlite_login.code_traced[OF assms(2) empty _ _ _ _ _ assms(5-10)] assms(1) unfolding onSqlite_def by metis
  obtain envA inp s where a: "rs ! k = AuthorizeReq envA inp" "ValidateClient (az_clients (sv_authorizer sv)) (ai_ClientID inp) (ai_RedirectURI inp) = None"
    "randomState (ave_state envA) = Some s" and ar: "ar = pendingRequest inp s (cn_ID (Active (az_connectors (sv_authorizer sv)))) (ave_now envA)"
    using t(3) unfolding startedBy_def by blast
  have ar_simps: "ar_InternalState ar = s" "ar_ClientID ar = ai_ClientID inp" "ar_RedirectURI ar = ai_RedirectURI inp" "ar_CodeChallenge ar = ai_CodeChallenge inp"
    "ar_ExpiresAt ar = ave_now envA + authRequestTTL" by (simp_all add: ar pendingRequest_def)
  obtain envC cb conn completion code where c: "rs ! j = CallbackReq envC cb" "LookupConnector (cb_connectors (sv_callback sv)) (cbi_Connector cb) = Some conn"
    "Get (cbi_params cb) (fl_StateParam (cn_Flow conn)) = s" "boundToBrowser (cb_binding (sv_callback sv)) (cbi_Cookie cb) (cn_ID conn) s"
    "cbe_expiry envC \<le> ave_now envA + authRequestTTL"
    "cn_Complete conn (cbe_upstream envC) (completeParams (sv_callback sv) (cn_ID conn) (cbi_params cb) s) = Inr completion"
    and adm: "refusal (sv_callback sv) (co_Identity completion) (co_Refusal completion) = None" and ac: "ac = newAuthCode ar (cn_ID conn) (co_Identity completion) code (cbe_now envC)"
    using t(4) unfolding admittedBy_def ar_simps by blast
  have "ui_EmailVerified (co_Identity completion)" "emailDomainAllowed (cb_allowedDomains (sv_callback sv)) (ui_Email (co_Identity completion))"
    using adm by (auto simp: refusal_def split: if_splits)
  moreover have ac_simps: "ac_Email ac = ui_Email (co_Identity completion)" "ac_ClientID ac = ai_ClientID inp" "ac_RedirectURI ac = ai_RedirectURI inp"
    "ac_CodeChallenge ac = ai_CodeChallenge inp" "ac_ExpiresAt ac = cbe_now envC + authCodeTTL"
    "codeIdentity ac = \<lparr>id_ConnectorID = cn_ID conn, id_Subject = ui_Subject (co_Identity completion), id_Email = ui_Email (co_Identity completion)\<rparr>"
    by (simp_all add: ac newAuthCode_def codeIdentity_def ar_simps)
  moreover have "ai_ClientID inp = fst (clientCredentials form hdr)" "ai_RedirectURI inp = Get form ''redirect_uri''" "ev_clk env 0 \<le> cbe_now envC + authCodeTTL"
    "if ai_CodeChallenge inp = [] then IsConfidential (tk_clients (sv_token sv)) (ai_ClientID inp) else verifyPKCE (Get form ''code_verifier'') (ai_CodeChallenge inp)"
    using ok(1) unfolding codeOK_def ac_simps by (auto split: if_splits)
  ultimately show ?thesis
    by (intro exI[of _ k] exI[of _ j] exI[of _ envA] exI[of _ inp] exI[of _ s] exI[of _ envC] exI[of _ cb] exI[of _ conn] exI[of _ completion] exI[of _ granted] conjI)
       (use t(1,2) a c ok(2,3) in \<open>simp_all, blast?\<close>)
qed

text \<open>A server with one client and one connector, and a sign-in with it.\<close>

definition sampleConnector :: Connector where
  "sampleConnector = \<lparr>cn_ID = ''google'', cn_DisplayName = ''Google'', cn_Flow = \<lparr>fl_ResponseMethod = ''GET'', fl_StateParam = ''state''\<rparr>,
     cn_Begin = (\<lambda>_ _. Some ''https://up/auth''),
     cn_Complete = (\<lambda>_ _. Inr \<lparr>co_Identity = \<lparr>ui_Subject = ''1'', ui_Email = ''a@x'', ui_EmailVerified = True, ui_Groups = []\<rparr>, co_Refusal = []\<rparr>)\<rparr>"

definition sampleBinding :: UpstreamBinding where
  "sampleBinding = \<lparr>ub_key = replicate 32 (CHR ''k''), ub_secure = True, ub_issuerPath = [], ub_namePrefix = hostCookiePrefix @ upstreamCookieBase\<rparr>"

definition sampleServer :: "(Store, string, string, (string \<times> string) list, string \<times> JwsHeader \<times> Claims) Server" where
  "sampleServer = \<lparr>
     sv_authorizer = NewAuthorizer SaveAuthRequest [(''ui'', sampleClient)] sampleBinding \<lparr>cs_byID = [(''google'', sampleConnector)], cs_active = sampleConnector\<rparr> ''https://id'',
     sv_callback = \<lparr>cb_issuer = ''https://id'', cb_ConsumeAuthRequest = ConsumeAuthRequest, cb_SaveAuthCode = SaveAuthCode,
       cb_connectors = \<lparr>cs_byID = [(''google'', sampleConnector)], cs_active = sampleConnector\<rparr>, cb_binding = sampleBinding, cb_allowedDomains = [''x''],
       cb_authorizer = (\<lambda>_. Inr (Some \<lparr>perms = [(''orders'', ''write'')]\<rparr>))\<rparr>,
     sv_token = sampleToken\<rparr>"

definition sampleAuthorize :: ServerRequest where
  "sampleAuthorize = AuthorizeReq \<lparr>ave_state = Some ''s'', ave_now = Hour, ave_upstream = Hour\<rparr>
     \<lparr>ai_ResponseType = ''code'', ai_ClientID = ''ui'', ai_RedirectURI = ''https://ui/cb'', ai_Scope = ''openid'', ai_State = [], ai_CodeChallenge = [],
      ai_CodeChallengeMethod = [], ai_Nonce = ''n''\<rparr>"

definition sampleCallback :: ServerRequest where
  "sampleCallback = CallbackReq \<lparr>cbe_expiry = Hour, cbe_now = Hour, cbe_upstream = Hour, cbe_code = Some ''c''\<rparr>
     \<lparr>cbi_Connector = ''google'', cbi_Cookie = cookiePair (bindingCookie sampleBinding ''google'' ''cw''), cbi_params = [(''state'', ''cw'')]\<rparr>"

definition sampleGrant :: ServerRequest where
  "sampleGrant = TokenReq (sampleEnv (Hour + Second) ''t'') (sampleForm grantAuthorizationCode ''code'' ''Yw'') []"

definition pendingStore :: Store where
  "pendingStore = emptyStore\<lparr>auth_requests := [\<lparr>ar_InternalState = ''cw'', ar_ConnectorID = ''google'', ar_ClientID = ''ui'', ar_RedirectURI = ''https://ui/cb'',
     ar_Scope = ''openid'', ar_ClientState = [], ar_CodeChallenge = [], ar_CodeChallengeMethod = [], ar_Nonce = ''n'', ar_CreatedAt = Hour,
     ar_ExpiresAt = Hour + authRequestTTL\<rparr>]\<rparr>"

definition codeStore :: Store where
  "codeStore = emptyStore\<lparr>auth_codes := [\<lparr>acr_code_hash = Hash ''Yw'', acr_data = sampleCode, acr_consumed_at = None\<rparr>]\<rparr>"

lemma sample_state: "randomState (Some ''s'') = Some ''cw''" "randomCode (Some ''c'') = Some ''Yw''"
  unfolding randomState_def randomCode_def by code_simp+

lemma sample_authorize: "\<exists>out. serveOne sampleServer sampleAuthorize (sg, emptyStore) = (AuthorizeAns out, sg, pendingStore)"
proof -
  have "scopeContains ''openid'' ''openid''" by code_simp
  then show ?thesis
    by (simp add: sampleServer_def sampleAuthorize_def authorize_def Let_def maxClientIDLen_def maxRedirectURILen_def maxScopeLen_def maxStateLen_def
        maxNonceLen_def NewAuthorizer_def ValidateClient_def Lookup_def Allows_def sampleClient_def matchRedirectURI_def checkAuthorize_def IsConfidential_def
        sample_state Active_def sampleConnector_def pendingRequest_def SaveAuthRequest_def emptyStore_def pendingStore_def)
qed

lemma sample_bound: "boundToBrowser sampleBinding (cookiePair (bindingCookie sampleBinding ''google'' ''cw'')) ''google'' ''cw''"
proof -
  have t: "isToken (cookieName sampleBinding s)" for s
    by (rule cookieName_token[of "''https://id''" "replicate 32 (CHR ''k'')"]) (unfold sampleBinding_def, code_simp)
  show ?thesis
    using requestCookie_one[OF t plain_RawURLEncode] by (simp add: boundToBrowser_def cookiePair_def bindingCookie_def upstreamCookie_def derive_def)
qed

lemma sample_callback: "\<exists>out. serveOne sampleServer sampleCallback (sg, pendingStore) = (CallbackAns out, sg, codeStore)"
proof -
  have "emailDomainAllowed [''x''] ''a@x''" by code_simp
  then show ?thesis
    by (simp add: sampleServer_def sampleCallback_def callback_def LookupConnector_def complete_def Let_def Get_def sample_bound sampleConnector_def ConsumeAuthRequest_def pendingStore_def
        authRequestTTL_def Minute_def Second_def completeUpstream_def admit_def refusal_def permitted_def Empty_def sample_state SaveAuthCode_def emptyStore_def codeStore_def
        newAuthCode_def sampleCode_def authCodeTTL_def split: sum.split)
qed

lemma sample_grant: "\<exists>out sg' st'. serveOne sampleServer sampleGrant (sampleSigner, codeStore) = (TokenAns (Inr out), sg', st')"
proof -
  let ?f = "sampleForm grantAuthorizationCode ''code'' ''Yw''"
  obtain r st1 where r: "RedeemAuthorizationCode sampleToken (Some ''F'') (Hour + Second) (codeRequest ?f []) codeStore = (Inr r, st1)"
    "rd_FamilyID r = ''46''" "rd_ClientID r = ''ui''" "refresh_tokens st1 = []"
    by (simp add: RedeemAuthorizationCode_def codeStore_def emptyStore_def ConsumeAuthCode_def sampleCode_def Second_def Minute_def)
  obtain out sg' st' where "issue sampleToken (sampleEnv (Hour + Second) ''t'') 2 (rd_Identity r) (rd_ClientID r) (rd_Nonce r)
      \<lparr>li_familyID = rd_FamilyID r, li_authTime = Hour + Second\<rparr> sampleSigner st1 = (Inr out, sg', st')"
    using sample_issue[of "rd_ClientID r" "''t''" st1] by (simp add: r SaveRefresh_def) blast
  then have "authorizationCodeGrant sampleToken (sampleEnv (Hour + Second) ''t'') ?f [] sampleSigner codeStore = (Inr out, sg', st')"
    by (simp add: authorizationCodeGrant_def r)
  moreover have "checkParamLengths [(''client_id'', Get ?f ''client_id'', maxClientIDLen), (''redirect_uri'', Get ?f ''redirect_uri'', maxRedirectURILen),
         (''code'', Get ?f ''code'', maxCredentialLen), (''code_verifier'', Get ?f ''code_verifier'', maxCredentialLen),
         (''refresh_token'', Get ?f ''refresh_token'', maxCredentialLen), (''device_code'', Get ?f ''device_code'', maxCredentialLen)] = None"
    "Get ?f ''grant_type'' = grantAuthorizationCode" unfolding sampleForm_def by code_simp+
  ultimately show ?thesis by (simp add: sampleServer_def sampleGrant_def dispatch_def)
qed

theorem code_grant_traces_back_witness:
  "\<exists>a c out fin. serve sampleServer [sampleAuthorize, sampleCallback, sampleGrant] (sampleSigner, emptyStore) = ([a, c, TokenAns (Inr out)], fin) \<and>
     (\<exists>k j envA inp envC cb. k < j \<and> j < 2 \<and> [sampleAuthorize, sampleCallback, sampleGrant] ! k = AuthorizeReq envA inp \<and>
        [sampleAuthorize, sampleCallback, sampleGrant] ! j = CallbackReq envC cb \<and> ai_ClientID inp = ''ui'')"
proof -
  obtain oa oc out sg' st' where s: "serve sampleServer [sampleAuthorize, sampleCallback, sampleGrant] (sampleSigner, emptyStore)
      = ([AuthorizeAns oa, CallbackAns oc, TokenAns (Inr out)], sg', st')"
    using sample_authorize[of sampleSigner] sample_callback[of sampleSigner] sample_grant by fastforce
  have w: "onSqlite sampleServer" "wf_tokens emptyStore" "auth_requests emptyStore = []" "auth_codes emptyStore = []"
    by (simp_all add: onSqlite_def sampleServer_def NewAuthorizer_def wf_tokens_def emptyStore_def)
  let ?rs = "[sampleAuthorize, sampleCallback, sampleGrant]"
  have at: "2 < length ?rs" "?rs ! 2 = TokenReq (sampleEnv (Hour + Second) ''t'') (sampleForm grantAuthorizationCode ''code'' ''Yw'') []"
    "[AuthorizeAns oa, CallbackAns oc, TokenAns (Inr out)] ! 2 = TokenAns (Inr out)" "Get (sampleForm grantAuthorizationCode ''code'' ''Yw'') ''grant_type'' = grantAuthorizationCode"
    "ev_family (sampleEnv (Hour + Second) ''t'') \<noteq> Some []" by (simp_all add: sampleGrant_def sampleForm_def Get_def)
  obtain k j envA inp envC cb where "k < j" "j < 2" "?rs ! k = AuthorizeReq envA inp" "?rs ! j = CallbackReq envC cb"
    "ai_ClientID inp = fst (clientCredentials (sampleForm grantAuthorizationCode ''code'' ''Yw'') [])"
    using code_grant_traces_back[OF w s at] by (elim exE conjE) (rule that)
  then have "\<exists>k j envA inp envC cb. k < j \<and> j < 2 \<and> ?rs ! k = AuthorizeReq envA inp \<and> ?rs ! j = CallbackReq envC cb \<and> ai_ClientID inp = ''ui''"
    unfolding sample_form fst_conv by blast
  then show ?thesis using s by blast
qed

end
