(* ===== verification/Browser_Sessions.thy ===== *)
theory Browser_Sessions
  imports Go_Cookies Upstream_Binding Postgres_Tokens
begin

text \<open>
  The verification-page session (src/oidc/session.go): an opaque random id stored by hash
  (src/state/sqlite/browser_sessions.go, src/state/postgres/browser_sessions.go) and carried by a signed cookie,
  with the wiring that reads its key and lifetime (src/oidc/fx.go). The clock reading and the random bytes of an
  id are inputs; redaction is left out. \<^verbatim>\<open>int(ttl.Seconds())\<close> is the whole seconds of the lifetime.
\<close>

section \<open>The store\<close>

record 'st BrowserSessionStore =
  bss_Save :: "'st \<Rightarrow> BrowserSession \<Rightarrow> StoreError option \<times> 'st"
  bss_Lookup :: "'st \<Rightarrow> string \<Rightarrow> StoreError + BrowserSession"
  bss_Delete :: "'st \<Rightarrow> string \<Rightarrow> StoreError option \<times> 'st"

definition SaveBrowserSession :: "Store \<Rightarrow> BrowserSession \<Rightarrow> StoreError option \<times> Store" where
  "SaveBrowserSession s bs =
     (if exists_where (\<lambda>r. br_sid_hash r = Hash (bs_SID bs)) (browser_sessions s) then (Some ErrDuplicateBrowserSession, s)
      else (None, s\<lparr>browser_sessions := browser_sessions s @ [\<lparr>br_sid_hash = Hash (bs_SID bs), br_data = bs\<lparr>bs_SID := []\<rparr>\<rparr>]\<rparr>))"

definition LookupBrowserSession :: "Store \<Rightarrow> string \<Rightarrow> StoreError + BrowserSession" where
  "LookupBrowserSession s sid = (case find (\<lambda>r. br_sid_hash r = Hash sid) (browser_sessions s) of
     None \<Rightarrow> Inl ErrBrowserSessionNotFound | Some r \<Rightarrow> Inr ((br_data r)\<lparr>bs_SID := sid\<rparr>))"

definition DeleteBrowserSession :: "Store \<Rightarrow> string \<Rightarrow> StoreError option \<times> Store" where
  "DeleteBrowserSession s sid = (None, s\<lparr>browser_sessions := filter (\<lambda>r. br_sid_hash r \<noteq> Hash sid) (browser_sessions s)\<rparr>)"

definition sqliteBrowserSessions :: "Store BrowserSessionStore" where
  "sqliteBrowserSessions = \<lparr>bss_Save = SaveBrowserSession, bss_Lookup = LookupBrowserSession, bss_Delete = DeleteBrowserSession\<rparr>"

definition pg_SaveBrowserSession :: "Store \<Rightarrow> BrowserSession \<Rightarrow> StoreError option \<times> Store" where
  "pg_SaveBrowserSession s bs =
     (if exists_where (\<lambda>r. br_sid_hash r = Hash (bs_SID bs)) (browser_sessions s) then (Some ErrDuplicateBrowserSession, s)
      else (None, s\<lparr>browser_sessions := browser_sessions s @ [\<lparr>br_sid_hash = Hash (bs_SID bs), br_data = bs\<lparr>bs_SID := []\<rparr>\<rparr>]\<rparr>))"

definition pg_LookupBrowserSession :: "Store \<Rightarrow> string \<Rightarrow> StoreError + BrowserSession" where
  "pg_LookupBrowserSession s sid = (case filter (\<lambda>r. br_sid_hash r = Hash sid) (browser_sessions s) of
     [] \<Rightarrow> Inl ErrBrowserSessionNotFound | r # _ \<Rightarrow> Inr ((br_data r)\<lparr>bs_SID := sid\<rparr>))"

definition pg_DeleteBrowserSession :: "Store \<Rightarrow> string \<Rightarrow> StoreError option \<times> Store" where
  "pg_DeleteBrowserSession s sid = (None, s\<lparr>browser_sessions := filter (\<lambda>r. br_sid_hash r \<noteq> Hash sid) (browser_sessions s)\<rparr>)"

definition postgresBrowserSessions :: "PgStore BrowserSessionStore" where
  "postgresBrowserSessions = \<lparr>bss_Save = (\<lambda>p bs. onTables (\<lambda>s. pg_SaveBrowserSession s bs) p), bss_Lookup = (\<lambda>p. pg_LookupBrowserSession (pg_tables p)),
     bss_Delete = (\<lambda>p sid. onTables (\<lambda>s. pg_DeleteBrowserSession s sid) p)\<rparr>"

section \<open>The session manager\<close>

definition DevicePath :: string where "DevicePath = ''/device''"
definition DefaultSessionCookieName :: string where "DefaultSessionCookieName = ''tempogate_session''"
definition DefaultSessionCookiePath :: string where "DefaultSessionCookiePath = DevicePath"
definition defaultSessionTTL :: Duration where "defaultSessionTTL = 5 * Minute"

record cookieAttrs =
  cka_name :: string
  cka_path :: string
  cka_secure :: bool

record 'st SessionManager =
  sm_store :: "'st BrowserSessionStore"
  sm_signingKey :: string
  sm_ttl :: Duration
  sm_cookie :: cookieAttrs

definition WithSessionTTL :: "Duration \<Rightarrow> 'st SessionManager \<Rightarrow> 'st SessionManager" where
  "WithSessionTTL d m = m\<lparr>sm_ttl := d\<rparr>"

definition WithCookiePath :: "string \<Rightarrow> 'st SessionManager \<Rightarrow> 'st SessionManager" where
  "WithCookiePath path m = m\<lparr>sm_cookie := (sm_cookie m)\<lparr>cka_path := path\<rparr>\<rparr>"

definition WithCookieSecure :: "bool \<Rightarrow> 'st SessionManager \<Rightarrow> 'st SessionManager" where
  "WithCookieSecure secure m = m\<lparr>sm_cookie := (sm_cookie m)\<lparr>cka_secure := secure\<rparr>\<rparr>"

definition NewSessionManager :: "'st BrowserSessionStore \<Rightarrow> string \<Rightarrow> ('st SessionManager \<Rightarrow> 'st SessionManager) list \<Rightarrow> 'st SessionManager" where
  "NewSessionManager store hmacSecret opts = foldl (\<lambda>m f. f m)
     \<lparr>sm_store = store, sm_signingKey = hmacSecret, sm_ttl = defaultSessionTTL,
      sm_cookie = \<lparr>cka_name = DefaultSessionCookieName, cka_path = DefaultSessionCookiePath, cka_secure = True\<rparr>\<rparr> opts"

definition newSessionSigningKey :: "string \<Rightarrow> string + string" where
  "newSessionSigningKey b64 =
     (if b64 = [] then Inl ''oidc: OIDC_SESSION_SIGNING_KEY is required (base64url-encoded 32 bytes)''
      else case RawURLDecode b64 of
          None \<Rightarrow> Inl ''oidc: OIDC_SESSION_SIGNING_KEY must be base64url-encoded''
        | Some key \<Rightarrow> if length key \<noteq> sessionSigningKeyBytes
            then Inl (''oidc: OIDC_SESSION_SIGNING_KEY must decode to 32 bytes, got '' @ digits (length key)) else Inr key)"

definition newSessionManager :: "'st BrowserSessionStore \<Rightarrow> string \<Rightarrow> Duration \<Rightarrow> string \<Rightarrow> bool \<Rightarrow> 'st SessionManager" where
  "newSessionManager store hmacSecret ttl basePath issuerPlainHTTP =
     NewSessionManager store hmacSecret
       ([WithCookiePath (basePath @ DevicePath), WithCookieSecure (\<not> issuerPlainHTTP)] @ (if 0 < ttl then [WithSessionTTL ttl] else []))"

definition randomSID :: "string option \<Rightarrow> string option" where
  "randomSID rnd = map_option RawURLEncode rnd"

definition signCookie :: "'st SessionManager \<Rightarrow> string \<Rightarrow> string" where
  "signCookie m sid = RawURLEncode sid @ ''.'' @ RawURLEncode (labeledMAC (sm_signingKey m) macLabelSessionCookie sid)"

definition verifyCookie :: "'st SessionManager \<Rightarrow> string \<Rightarrow> string option" where
  "verifyCookie m val =
     (case Cut val (CHR ''.'') of (p0, p1, found) \<Rightarrow>
        if \<not> found \<or> p0 = [] \<or> p1 = [] then None
        else case RawURLDecode p0 of
            None \<Rightarrow> None
          | Some sid \<Rightarrow> (case RawURLDecode p1 of
                None \<Rightarrow> None
              | Some gotMAC \<Rightarrow> if gotMAC \<noteq> labeledMAC (sm_signingKey m) macLabelSessionCookie sid then None else Some sid))"

definition sidFromRequest :: "'st SessionManager \<Rightarrow> string \<Rightarrow> string option" where
  "sidFromRequest m cookieHeader = (case requestCookie cookieHeader (cka_name (sm_cookie m)) of None \<Rightarrow> None | Some v \<Rightarrow> verifyCookie m v)"

datatype SessionError = ErrNoSession | SessionFailure string

definition sessionCookie :: "'st SessionManager \<Rightarrow> string \<Rightarrow> int \<Rightarrow> Cookie" where
  "sessionCookie m val maxAge =
     \<lparr>ck_Name = cka_name (sm_cookie m), ck_Value = val, ck_Path = cka_path (sm_cookie m), ck_Secure = cka_secure (sm_cookie m), ck_MaxAge = maxAge\<rparr>"

definition IssueCookie :: "'st SessionManager \<Rightarrow> string option \<Rightarrow> Time \<Rightarrow> Identity \<Rightarrow> 'st \<Rightarrow> (SessionError + string \<times> Cookie) \<times> 'st" where
  "IssueCookie m rnd now who st =
     (case randomSID rnd of
        None \<Rightarrow> (Inl (SessionFailure ''oidc: generate session sid''), st)
      | Some sid \<Rightarrow>
          (case bss_Save (sm_store m) st \<lparr>bs_SID = sid, bs_ConnectorID = id_ConnectorID who, bs_Subject = id_Subject who, bs_Email = id_Email who,
              bs_CreatedAt = now, bs_ExpiresAt = now + sm_ttl m\<rparr> of
             (Some e, st') \<Rightarrow> (Inl (SessionFailure ''oidc: persist browser session''), st')
           | (None, st') \<Rightarrow> (Inr (sid, sessionCookie m (signCookie m sid) (sm_ttl m div Second)), st')))"

definition GetSession :: "'st SessionManager \<Rightarrow> Time \<Rightarrow> string \<Rightarrow> 'st \<Rightarrow> SessionError + BrowserSession" where
  "GetSession m now cookieHeader st =
     (case sidFromRequest m cookieHeader of
        None \<Rightarrow> Inl ErrNoSession
      | Some sid \<Rightarrow>
          (case bss_Lookup (sm_store m) st sid of
             Inl e \<Rightarrow> Inl (if e = ErrBrowserSessionNotFound then ErrNoSession else SessionFailure ''oidc: lookup browser session'')
           | Inr bs \<Rightarrow> if \<not> now < bs_ExpiresAt bs \<or> bs_Subject bs = [] then Inl ErrNoSession else Inr bs))"

definition ClearSession :: "'st SessionManager \<Rightarrow> string \<Rightarrow> 'st \<Rightarrow> (SessionError + Cookie) \<times> 'st" where
  "ClearSession m cookieHeader st =
     (case sidFromRequest m cookieHeader of
        None \<Rightarrow> (Inr (sessionCookie m [] (-1)), st)
      | Some sid \<Rightarrow>
          (case bss_Delete (sm_store m) st sid of
             (Some e, st') \<Rightarrow> (Inl (SessionFailure ''oidc: delete browser session''), st')
           | (None, st') \<Rightarrow> (Inr (sessionCookie m [] (-1)), st')))"

section \<open>The cookie\<close>

lemma RawURLEncode_nil [simp]: "RawURLEncode s = [] \<longleftrightarrow> s = []"
proof -
  have "RawURLEncode [] = []" by code_simp
  then show ?thesis using RawURLDecode_Encode[of s] RawURLDecode_Encode[of "[]"] by (metis option.inject)
qed

lemma dot_not_b64: "CHR ''.'' \<notin> set (RawURLEncode s)"
proof -
  have "CHR ''.'' \<notin> set b64url" by code_simp
  then show ?thesis using RawURLEncode_bytes by blast
qed

lemma verifyCookie_signCookie: "sid \<noteq> [] \<Longrightarrow> verifyCookie m (signCookie m sid) = Some sid"
proof -
  assume sid: "sid \<noteq> []"
  have "labeledMAC k l s \<noteq> []" for k l s using length_hmac[of k] unfolding labeledMAC_def by (metis list.size(3) zero_neq_numeral)
  then show ?thesis using sid dot_not_b64 by (simp add: verifyCookie_def signCookie_def)
qed

lemma plain_signCookie: "plainValue (signCookie m sid)"
proof -
  have "plainValue ''.''" by code_simp
  then show ?thesis using plain_RawURLEncode[of sid] plain_RawURLEncode[of "labeledMAC (sm_signingKey m) macLabelSessionCookie sid"]
    by (simp add: signCookie_def plainValue_def)
qed

lemma sidFromRequest_issued:
  "isToken (cka_name (sm_cookie m)) \<Longrightarrow> sid \<noteq> [] \<Longrightarrow> sidFromRequest m (cookiePair (sessionCookie m (signCookie m sid) age)) = Some sid"
  using requestCookie_one[OF _ plain_signCookie[of m sid], of "cka_name (sm_cookie m)" "cka_name (sm_cookie m)"]
  by (simp add: sidFromRequest_def cookiePair_def sessionCookie_def verifyCookie_signCookie)

lemma verifyCookie_cases:
  assumes "verifyCookie m v = Some sid"
  obtains p q where "v = p @ ''.'' @ q" "RawURLDecode p = Some sid" "RawURLDecode q = Some (labeledMAC (sm_signingKey m) macLabelSessionCookie sid)"
  using assms Cut_foundD[of v "CHR ''.''"] by (auto simp: verifyCookie_def split: prod.splits option.splits if_splits)

section \<open>The contract of a session store\<close>

locale browser_session_store =
  fixes bops :: "'st BrowserSessionStore" and binv :: "'st \<Rightarrow> bool" and babs :: "'st \<Rightarrow> string \<rightharpoonup> BrowserSession"
  assumes save_session: "binv st \<Longrightarrow> bss_Save bops st s = (err, st') \<Longrightarrow> binv st' \<and>
      ((\<exists>e. err = Some e \<and> babs st' = babs st) \<or>
       (err = None \<and> babs st (Hash (bs_SID s)) = None \<and> babs st' = (babs st)(Hash (bs_SID s) \<mapsto> s\<lparr>bs_SID := []\<rparr>)))"
    and lookup_session: "binv st \<Longrightarrow> (\<exists>e. bss_Lookup bops st sid = Inl (ErrStore e)) \<or>
      bss_Lookup bops st sid = (case babs st (Hash sid) of None \<Rightarrow> Inl ErrBrowserSessionNotFound | Some s \<Rightarrow> Inr (s\<lparr>bs_SID := sid\<rparr>))"
    and delete_session: "binv st \<Longrightarrow> bss_Delete bops st sid = (err, st') \<Longrightarrow> binv st' \<and>
      ((\<exists>e. err = Some e \<and> babs st' = babs st) \<or> (err = None \<and> babs st' = (babs st)(Hash sid := None)))"
begin

text \<open>A session that is returned is a live row whose id the presented cookie carries with its MAC.\<close>

lemma get_sound:
  assumes "binv st" "sm_store m = bops" "GetSession m now header st = Inr bs"
  obtains s where "babs st (Hash (bs_SID bs)) = Some s" "bs = s\<lparr>bs_SID := bs_SID bs\<rparr>" "now < bs_ExpiresAt bs" "bs_Subject bs \<noteq> []"
    "sidFromRequest m header = Some (bs_SID bs)"
proof -
  obtain sid where sid: "sidFromRequest m header = Some sid" "bss_Lookup bops st sid = Inr bs" "now < bs_ExpiresAt bs" "bs_Subject bs \<noteq> []"
    using assms(2,3) by (auto simp: GetSession_def split: option.splits sum.splits if_splits)
  then obtain s where "babs st (Hash sid) = Some s" "bs = s\<lparr>bs_SID := sid\<rparr>"
    using lookup_session[OF assms(1), of sid] by (auto split: option.splits)
  then show ?thesis using that sid by simp
qed

text \<open>The outcome of a lookup by a cookie that verifies, up to a failure of the store.\<close>

lemma get_by_sid:
  assumes "binv st" "sm_store m = bops" "sidFromRequest m header = Some sid"
  shows "GetSession m now header st = Inl (SessionFailure ''oidc: lookup browser session'') \<or>
    GetSession m now header st = (case babs st (Hash sid) of None \<Rightarrow> Inl ErrNoSession
      | Some s \<Rightarrow> if now < bs_ExpiresAt s \<and> bs_Subject s \<noteq> [] then Inr (s\<lparr>bs_SID := sid\<rparr>) else Inl ErrNoSession)"
  using lookup_session[OF assms(1), of sid] assms(2,3) by (auto simp: GetSession_def split: option.splits sum.splits)

lemma issue_saves:
  assumes "binv st" "sm_store m = bops" "IssueCookie m rnd now who st = (Inr (sid, ck), st')"
  shows "binv st' \<and> randomSID rnd = Some sid \<and> ck = sessionCookie m (signCookie m sid) (sm_ttl m div Second) \<and> babs st (Hash sid) = None \<and>
    babs st' = (babs st)(Hash sid \<mapsto> \<lparr>bs_SID = [], bs_ConnectorID = id_ConnectorID who, bs_Subject = id_Subject who, bs_Email = id_Email who,
      bs_CreatedAt = now, bs_ExpiresAt = now + sm_ttl m\<rparr>)"
proof -
  have "randomSID rnd = Some sid" "ck = sessionCookie m (signCookie m sid) (sm_ttl m div Second)"
    and sv: "bss_Save bops st \<lparr>bs_SID = sid, bs_ConnectorID = id_ConnectorID who, bs_Subject = id_Subject who, bs_Email = id_Email who,
      bs_CreatedAt = now, bs_ExpiresAt = now + sm_ttl m\<rparr> = (None, st')"
    using assms(2,3) by (auto simp: IssueCookie_def split: option.splits prod.splits)
  then show ?thesis using save_session[OF assms(1) sv] by simp
qed

lemma issue_fails_quietly:
  assumes "binv st" "sm_store m = bops" "IssueCookie m rnd now who st = (Inl e, st')"
  shows "binv st' \<and> babs st' = babs st"
  using assms save_session[OF assms(1)] by (fastforce simp: IssueCookie_def split: option.splits prod.splits)

lemma clear_deletes:
  assumes "binv st" "sm_store m = bops" "sidFromRequest m header = Some sid" "ClearSession m header st = (Inr ck, st')"
  shows "binv st' \<and> babs st' = (babs st)(Hash sid := None)"
  using assms(2-) delete_session[OF assms(1), of sid] by (auto simp: ClearSession_def split: prod.splits option.splits)

end

section \<open>Both databases keep it\<close>

definition wf_sessions :: "Store \<Rightarrow> bool" where
  "wf_sessions s = distinct (map br_sid_hash (browser_sessions s))"

definition abs_sessions :: "Store \<Rightarrow> string \<rightharpoonup> BrowserSession" where
  "abs_sessions s = (\<lambda>h. map_option br_data (find (\<lambda>r. br_sid_hash r = h) (browser_sessions s)))"

lemma SaveBrowserSession_spec:
  assumes "wf_sessions st" "SaveBrowserSession st s = (err, st')"
  shows "wf_sessions st' \<and> ((\<exists>e. err = Some e \<and> abs_sessions st' = abs_sessions st) \<or>
    (err = None \<and> abs_sessions st (Hash (bs_SID s)) = None \<and> abs_sessions st' = (abs_sessions st)(Hash (bs_SID s) \<mapsto> s\<lparr>bs_SID := []\<rparr>)))"
proof (cases "Hash (bs_SID s) \<in> br_sid_hash ` set (browser_sessions st)")
  case True
  then show ?thesis using assms by (auto simp: SaveBrowserSession_def exists_where_key simp del: exists_where_iff)
next
  case False
  then have "find (\<lambda>r. br_sid_hash r = Hash (bs_SID s)) (browser_sessions st) = None" by (simp add: find_key_None_iff)
  then show ?thesis using assms False
    by (auto simp: SaveBrowserSession_def exists_where_key wf_sessions_def abs_sessions_def fun_eq_iff find_append_new simp del: exists_where_iff split: option.split)
qed

lemma LookupBrowserSession_spec:
  "LookupBrowserSession st sid = (case abs_sessions st (Hash sid) of None \<Rightarrow> Inl ErrBrowserSessionNotFound | Some s \<Rightarrow> Inr (s\<lparr>bs_SID := sid\<rparr>))"
  by (simp add: LookupBrowserSession_def abs_sessions_def split: option.split)

lemma DeleteBrowserSession_spec:
  assumes "wf_sessions st" "DeleteBrowserSession st sid = (err, st')"
  shows "wf_sessions st' \<and> err = None \<and> abs_sessions st' = (abs_sessions st)(Hash sid := None)"
  using assms by (auto simp: DeleteBrowserSession_def wf_sessions_def abs_sessions_def fun_eq_iff find_removed distinct_map_filter)

interpretation sqlite_browser: browser_session_store sqliteBrowserSessions wf_sessions abs_sessions
  by unfold_locales
     (simp_all only: sqliteBrowserSessions_def BrowserSessionStore.simps, (blast dest: SaveBrowserSession_spec DeleteBrowserSession_spec | rule disjI2, rule LookupBrowserSession_spec)+)

lemma pg_sessions_same: "pg_SaveBrowserSession = SaveBrowserSession" "pg_LookupBrowserSession = LookupBrowserSession" "pg_DeleteBrowserSession = DeleteBrowserSession"
  by (simp_all add: fun_eq_iff pg_SaveBrowserSession_def SaveBrowserSession_def pg_LookupBrowserSession_def LookupBrowserSession_def filter_find
      pg_DeleteBrowserSession_def DeleteBrowserSession_def)

interpretation postgres_browser: browser_session_store postgresBrowserSessions "\<lambda>p. wf_sessions (pg_tables p)" "\<lambda>p. abs_sessions (pg_tables p)"
  by unfold_locales
     (simp_all only: postgresBrowserSessions_def BrowserSessionStore.simps pg_sessions_same,
      (blast dest: onTables_elim SaveBrowserSession_spec DeleteBrowserSession_spec | rule disjI2, rule LookupBrowserSession_spec)+)

section \<open>Properties\<close>

text \<open>
  C22. A verification session is exactly what its cookie stands for. After a session is issued for an account, the
  browser that returns the cookie is that account until the lifetime ends, and no longer; after it is cleared, not at
  all. Whatever cookie a browser presents, a session found for it is a live row of the table, not expired and
  with a subject, whose id the cookie carries together with the MAC of that id under the server's key.
\<close>

theorem browser_session_exact:
  assumes "wf_sessions st" "m = newSessionManager sqliteBrowserSessions key ttl base plainHTTP"
    and "IssueCookie m rnd now who st = (Inr (sid, ck), st')" "id_Subject who \<noteq> []" "sid \<noteq> []"
  shows "GetSession m at (cookiePair ck) st' = (if at < now + sm_ttl m
      then Inr \<lparr>bs_SID = sid, bs_ConnectorID = id_ConnectorID who, bs_Subject = id_Subject who, bs_Email = id_Email who, bs_CreatedAt = now, bs_ExpiresAt = now + sm_ttl m\<rparr>
      else Inl ErrNoSession) \<and>
    (\<forall>ck2 st2. ClearSession m (cookiePair ck) st' = (Inr ck2, st2) \<longrightarrow> GetSession m at (cookiePair ck) st2 = Inl ErrNoSession) \<and>
    (\<forall>header bs. GetSession m at header st' = Inr bs \<longrightarrow>
      (\<exists>row\<in>set (browser_sessions st'). br_sid_hash row = Hash (bs_SID bs) \<and> bs = (br_data row)\<lparr>bs_SID := bs_SID bs\<rparr>) \<and>
      at < bs_ExpiresAt bs \<and> bs_Subject bs \<noteq> [] \<and>
      (\<exists>p q. requestCookie header DefaultSessionCookieName = Some (p @ ''.'' @ q) \<and> RawURLDecode p = Some (bs_SID bs) \<and>
         RawURLDecode q = Some (labeledMAC key macLabelSessionCookie (bs_SID bs))))"
proof -
  have m: "sm_store m = sqliteBrowserSessions" "cka_name (sm_cookie m) = DefaultSessionCookieName" "sm_signingKey m = key"
    by (simp_all add: assms(2) newSessionManager_def NewSessionManager_def WithCookiePath_def WithCookieSecure_def WithSessionTTL_def)
  have tok: "isToken (cka_name (sm_cookie m))" unfolding m by code_simp
  note i = sqlite_browser.issue_saves[OF assms(1) m(1) assms(3)]
  have hdr: "sidFromRequest m (cookiePair ck) = Some sid" using sidFromRequest_issued[OF tok assms(5)] i by simp
  have nf: "GetSession m t h s \<noteq> Inl (SessionFailure ''oidc: lookup browser session'')" for t h s
    by (simp add: GetSession_def m sqliteBrowserSessions_def LookupBrowserSession_def split: option.split)
  have get: "GetSession m at (cookiePair ck) s = (case abs_sessions s (Hash sid) of None \<Rightarrow> Inl ErrNoSession
      | Some r \<Rightarrow> if at < bs_ExpiresAt r \<and> bs_Subject r \<noteq> [] then Inr (r\<lparr>bs_SID := sid\<rparr>) else Inl ErrNoSession)" if "wf_sessions s" for s
    using sqlite_browser.get_by_sid[OF that m(1) hdr, of at] nf[of at "cookiePair ck" s] by blast
  have a: "GetSession m at (cookiePair ck) st' = (if at < now + sm_ttl m
      then Inr \<lparr>bs_SID = sid, bs_ConnectorID = id_ConnectorID who, bs_Subject = id_Subject who, bs_Email = id_Email who, bs_CreatedAt = now, bs_ExpiresAt = now + sm_ttl m\<rparr>
      else Inl ErrNoSession)" using get[of st'] i assms(4) by simp
  have b: "GetSession m at (cookiePair ck) st2 = Inl ErrNoSession" if "ClearSession m (cookiePair ck) st' = (Inr ck2, st2)" for ck2 st2
    using sqlite_browser.clear_deletes[OF _ m(1) hdr that] i get[of st2] by simp
  have c: "(\<exists>row\<in>set (browser_sessions st'). br_sid_hash row = Hash (bs_SID bs) \<and> bs = (br_data row)\<lparr>bs_SID := bs_SID bs\<rparr>) \<and> at < bs_ExpiresAt bs \<and> bs_Subject bs \<noteq> [] \<and>
      (\<exists>p q. requestCookie header DefaultSessionCookieName = Some (p @ ''.'' @ q) \<and> RawURLDecode p = Some (bs_SID bs) \<and>
         RawURLDecode q = Some (labeledMAC key macLabelSessionCookie (bs_SID bs)))" if g: "GetSession m at header st' = Inr bs" for header bs
  proof -
    obtain s where s: "abs_sessions st' (Hash (bs_SID bs)) = Some s" "bs = s\<lparr>bs_SID := bs_SID bs\<rparr>" "at < bs_ExpiresAt bs" "bs_Subject bs \<noteq> []"
      "sidFromRequest m header = Some (bs_SID bs)" by (rule sqlite_browser.get_sound[OF _ m(1) g]) (use i in simp_all)
    obtain v where v: "requestCookie header DefaultSessionCookieName = Some v" "verifyCookie m v = Some (bs_SID bs)"
      using s(5) by (auto simp: sidFromRequest_def m split: option.splits)
    obtain row where "row \<in> set (browser_sessions st')" "br_sid_hash row = Hash (bs_SID bs)" "s = br_data row"
      using s(1) by (auto simp: abs_sessions_def dest: find_SomeD)
    then show ?thesis using s v verifyCookie_cases[OF v(2)] m by metis
  qed
  show ?thesis using a b c by blast
qed

theorem browser_session_exact_witness:
  "\<exists>m ck st'. m = newSessionManager sqliteBrowserSessions (replicate 32 (CHR ''k'')) 0 [] False \<and>
     IssueCookie m (Some ''s'') Hour \<lparr>id_ConnectorID = ''google'', id_Subject = ''1'', id_Email = ''a@x''\<rparr> emptyStore = (Inr (''cw'', ck), st') \<and>
     GetSession m (Hour + 4 * Minute) (cookiePair ck) st' \<noteq> Inl ErrNoSession \<and> GetSession m (Hour + 5 * Minute) (cookiePair ck) st' = Inl ErrNoSession"
proof -
  let ?m = "newSessionManager sqliteBrowserSessions (replicate 32 (CHR ''k'')) 0 [] False" and ?w = "\<lparr>id_ConnectorID = ''google'', id_Subject = ''1'', id_Email = ''a@x''\<rparr>"
  have "randomSID (Some ''s'') = Some ''cw''" unfolding randomSID_def by code_simp
  moreover have m: "sm_store ?m = sqliteBrowserSessions" "sm_ttl ?m = 5 * Minute"
    by (simp_all add: newSessionManager_def NewSessionManager_def WithCookiePath_def WithCookieSecure_def WithSessionTTL_def defaultSessionTTL_def)
  ultimately obtain ck st' where i: "IssueCookie ?m (Some ''s'') Hour ?w emptyStore = (Inr (''cw'', ck), st')"
    by (simp add: IssueCookie_def sqliteBrowserSessions_def SaveBrowserSession_def emptyStore_def)
  have wf: "wf_sessions emptyStore" by (simp add: wf_sessions_def emptyStore_def)
  note ex = browser_session_exact[OF wf refl i, THEN conjunct1]
  have "GetSession ?m (Hour + 4 * Minute) (cookiePair ck) st' \<noteq> Inl ErrNoSession" "GetSession ?m (Hour + 5 * Minute) (cookiePair ck) st' = Inl ErrNoSession"
    using ex[of "Hour + 4 * Minute"] ex[of "Hour + 5 * Minute"] by (simp_all add: m Minute_def Second_def)
  then show ?thesis using i by blast
qed

end
