(* ===== verification/Device_Authorization.thy ===== *)
theory Device_Authorization
  imports Browser_Sessions Device_Store
begin

text \<open>
  POST /device_authorization (src/oidc/device_authorization.go): the two codes of a device flow are generated and
  saved, and the response tells the device what to show. The user code is drawn by rejection sampling, a loop
  that ends only when enough random bytes are accepted: it is a partial function, and not returning is the value
  None. The i-th read of random bytes is the i-th value of an input sequence. With it, the reading of a user code as
  typed (src/oidc/device_ui.go, \<^verbatim>\<open>canonicalUserCode\<close>).
\<close>

section \<open>User codes\<close>

definition deviceCodeTTL :: Duration where "deviceCodeTTL = 15 * Minute"
definition defaultPollInterval :: int where "defaultPollInterval = 5"
definition userCodeAlphabet :: string where "userCodeAlphabet = ''BCDFGHJKLMNPQRSTVWXZ3479''"
definition userCodeLen :: nat where "userCodeLen = 8"
definition userCodeMaxRetries :: nat where "userCodeMaxRetries = 3"
definition userCodeRandRejectionCap :: nat where "userCodeRandRejectionCap = 240"

definition formatUserCode :: "string \<Rightarrow> string" where
  "formatUserCode canonical =
     (if length canonical \<le> userCodeLen div 2 then canonical
      else take (userCodeLen div 2) canonical @ ''-'' @ drop (userCodeLen div 2) canonical)"

text \<open>Only ASCII letters and digits survive, so ranging over runes is ranging over bytes.\<close>

definition canonicalUserCode :: "string \<Rightarrow> string" where
  "canonicalUserCode raw = concat (map (\<lambda>c. let n = of_char c :: nat in
     if 97 \<le> n \<and> n \<le> 122 then [char_of (n - 32)]
     else if (65 \<le> n \<and> n \<le> 90) \<or> (48 \<le> n \<and> n \<le> 57) then [c] else []) raw)"

definition randomDeviceCode :: "string option \<Rightarrow> string option" where
  "randomDeviceCode rnd = map_option RawURLEncode rnd"

fun userCodeBytes :: "string \<Rightarrow> string \<Rightarrow> string" where
  "userCodeBytes [] out = out"
| "userCodeBytes (b # bs) out =
     (if userCodeLen \<le> length out then out
      else if userCodeRandRejectionCap \<le> (of_char b :: nat) then userCodeBytes bs out
      else userCodeBytes bs (out @ [userCodeAlphabet ! (of_char b mod length userCodeAlphabet)]))"

partial_function (option) userCodeLoop :: "(nat \<Rightarrow> string option) \<Rightarrow> nat \<Rightarrow> string \<Rightarrow> (string + string) option" where
  "userCodeLoop rnd i out =
     (if length out < userCodeLen
      then case rnd i of None \<Rightarrow> Some (Inl ''rand: read'') | Some buf \<Rightarrow> userCodeLoop rnd (Suc i) (userCodeBytes buf out)
      else Some (Inr out))"

definition randomUserCode :: "(nat \<Rightarrow> string option) \<Rightarrow> (string + string) option" where
  "randomUserCode rnd = userCodeLoop rnd 0 []"

section \<open>The endpoint\<close>

record 'st DeviceAuthorization =
  da_store :: "'st DeviceCodeStore"
  da_clients :: ClientRegistry
  da_issuer :: string

definition NewDeviceAuthorization :: "'st DeviceCodeStore \<Rightarrow> ClientRegistry \<Rightarrow> string \<Rightarrow> 'st DeviceAuthorization" where
  "NewDeviceAuthorization store clients issuer = \<lparr>da_store = store, da_clients = clients, da_issuer = TrimRight issuer (CHR ''/'')\<rparr>"

record DeviceAuthorizationEnv =
  dae_now :: Time
  dae_device :: "nat \<Rightarrow> string option"
  dae_user :: "nat \<Rightarrow> nat \<Rightarrow> string option"

record deviceAuthorizationOutput =
  dao_CacheControl :: string
  dao_DeviceCode :: string
  dao_UserCode :: string
  dao_VerificationURI :: string
  dao_VerificationURIComplete :: string
  dao_ExpiresIn :: int
  dao_Interval :: int

definition newDeviceCode :: "string \<Rightarrow> string \<Rightarrow> string \<Rightarrow> string \<Rightarrow> Time \<Rightarrow> DeviceCode" where
  "newDeviceCode deviceCode userCode clientID scope now =
     \<lparr>dc_Code = deviceCode, dc_UserCode = userCode, dc_ClientID = clientID, dc_Scope = scope, dc_ConnectorID = [], dc_Subject = [], dc_Email = [],
      dc_ApprovedAt = None, dc_DeniedAt = None, dc_LastPolledAt = None, dc_IntervalSeconds = defaultPollInterval, dc_CreatedAt = now,
      dc_ExpiresAt = now + deviceCodeTTL\<rparr>"

text \<open>The attempts left; the attempt number picks the random values of that round.\<close>

fun mintLoop :: "'st DeviceAuthorization \<Rightarrow> DeviceAuthorizationEnv \<Rightarrow> string \<Rightarrow> string \<Rightarrow> nat \<Rightarrow> 'st \<Rightarrow> ((HandlerError + DeviceCode) \<times> 'st) option" where
  "mintLoop h env clientID scope 0 st = Some (Inl (ServerErr ''oidc: exhausted device-code regeneration retries (3)''), st)"
| "mintLoop h env clientID scope (Suc k) st =
     (let attempt = userCodeMaxRetries - Suc k in
      case randomDeviceCode (dae_device env attempt) of
        None \<Rightarrow> Some (Inl (ServerErr ''oidc: generate device code''), st)
      | Some deviceCode \<Rightarrow>
      (case randomUserCode (dae_user env attempt) of
         None \<Rightarrow> None
       | Some (Inl e) \<Rightarrow> Some (Inl (ServerErr ''oidc: generate user code''), st)
       | Some (Inr userCode) \<Rightarrow>
           (let dc = newDeviceCode deviceCode userCode clientID scope (dae_now env) in
            case ds_SaveDeviceCode (da_store h) st dc of
              (None, st') \<Rightarrow> Some (Inr dc, st')
            | (Some e, st') \<Rightarrow>
                if e \<noteq> ErrDuplicateDeviceCode then Some (Inl (ServerErr ''oidc: persist device code''), st')
                else mintLoop h env clientID scope k st')))"

definition mintDeviceCode :: "'st DeviceAuthorization \<Rightarrow> DeviceAuthorizationEnv \<Rightarrow> string \<Rightarrow> string \<Rightarrow> 'st \<Rightarrow> ((HandlerError + DeviceCode) \<times> 'st) option" where
  "mintDeviceCode h env clientID scope st = mintLoop h env clientID scope userCodeMaxRetries st"

definition deviceResponse :: "'st DeviceAuthorization \<Rightarrow> DeviceCode \<Rightarrow> deviceAuthorizationOutput" where
  "deviceResponse h dc =
     \<lparr>dao_CacheControl = ''no-store'', dao_DeviceCode = dc_Code dc, dao_UserCode = formatUserCode (dc_UserCode dc),
      dao_VerificationURI = da_issuer h @ DevicePath,
      dao_VerificationURIComplete = da_issuer h @ DevicePath @ ''?user_code='' @ QueryEscape (formatUserCode (dc_UserCode dc)),
      dao_ExpiresIn = deviceCodeTTL div Second, dao_Interval = defaultPollInterval\<rparr>"

definition deviceAuthorization :: "'st DeviceAuthorization \<Rightarrow> DeviceAuthorizationEnv \<Rightarrow> string \<Rightarrow> 'st
    \<Rightarrow> ((HandlerError + deviceAuthorizationOutput) \<times> 'st) option" where
  "deviceAuthorization h env rawBody st =
     (case ParseQuery rawBody of
        None \<Rightarrow> Some (Inl (OAuthErr 400 invalid_request ''malformed form body''), st)
      | Some form \<Rightarrow>
      (case checkParamLengths [(''client_id'', Get form ''client_id'', maxClientIDLen), (''scope'', Get form ''scope'', maxScopeLen)] of
         Some e \<Rightarrow> Some (Inl e, st)
       | None \<Rightarrow>
           (let clientID = Get form ''client_id'' in
            if clientID = [] then Some (Inl (OAuthErr 400 invalid_request ''client_id is required''), st)
            else case Lookup (da_clients h) clientID of
                None \<Rightarrow> Some (Inl (OAuthErr 401 invalid_client ''client_id is not a registered public client''), st)
              | Some client \<Rightarrow>
                  if ci_Secret client \<noteq> [] then Some (Inl (OAuthErr 401 invalid_client ''client_id is not a registered public client''), st)
                  else if \<not> Allows client grantDeviceCode
                  then Some (Inl (OAuthErr 400 ''unauthorized_client'' ''client_id is not registered for the device authorization grant''), st)
                  else (case mintDeviceCode h env clientID (Get form ''scope'') st of
                      None \<Rightarrow> None
                    | Some (Inl e, st') \<Rightarrow> Some (Inl e, st')
                    | Some (Inr dc, st') \<Rightarrow> Some (Inr (deviceResponse h dc), st')))))"

section \<open>Drawing a user code\<close>

definition userCodeChar :: "char \<Rightarrow> char" where
  "userCodeChar b = userCodeAlphabet ! (of_char b mod length userCodeAlphabet)"

definition accepted :: "string \<Rightarrow> string" where
  "accepted bs = map userCodeChar (filter (\<lambda>b. (of_char b :: nat) < userCodeRandRejectionCap) bs)"

lemma userCodeBytes_accepted: "length out \<le> userCodeLen \<Longrightarrow> userCodeBytes bs out = take userCodeLen (out @ accepted bs)"
proof (induction bs arbitrary: out)
  case (Cons b bs)
  then show ?case using Cons.IH[of out] Cons.IH[of "out @ [userCodeChar b]"] by (auto simp: accepted_def userCodeChar_def)
qed (simp add: accepted_def)

lemma accepted_append: "accepted (a @ b) = accepted a @ accepted b"
  by (simp add: accepted_def)

lemma take_take_append: "take n (take n xs @ ys) = take n (xs @ ys)"
  by (cases "length xs \<le> n") simp_all

lemma userCodeLoop_returns:
  assumes "\<forall>k<n. rnd (i + k) \<noteq> None" "length out \<le> userCodeLen" "userCodeLen \<le> length (out @ accepted (concat (map (\<lambda>k. the (rnd (i + k))) [0..<n])))"
  shows "userCodeLoop rnd i out = Some (Inr (take userCodeLen (out @ accepted (concat (map (\<lambda>k. the (rnd (i + k))) [0..<n])))))"
  using assms
proof (induction n arbitrary: i out)
  case 0
  then show ?case by (simp add: userCodeLoop.simps[of rnd i out] accepted_def)
next
  case (Suc n)
  let ?rest = "concat (map (\<lambda>k. the (rnd (Suc i + k))) [0..<n])"
  obtain buf where buf: "rnd i = Some buf" using Suc.prems(1)[rule_format, of 0] by auto
  have split: "concat (map (\<lambda>k. the (rnd (i + k))) [0..<Suc n]) = buf @ ?rest"
    using buf by (simp add: upt_conv_Cons map_Suc_upt[symmetric] comp_def del: upt_Suc)
  show ?case
  proof (cases "length out < userCodeLen")
    case True
    let ?o = "userCodeBytes buf out"
    have o: "?o = take userCodeLen (out @ accepted buf)" by (rule userCodeBytes_accepted[OF Suc.prems(2)])
    have "\<forall>k<n. rnd (Suc i + k) \<noteq> None" using Suc.prems(1) by auto
    moreover have "userCodeLen \<le> length (?o @ accepted ?rest)" using Suc.prems(3) unfolding split o by (simp add: accepted_append min_def)
    ultimately have "userCodeLoop rnd (Suc i) ?o = Some (Inr (take userCodeLen (?o @ accepted ?rest)))" using Suc.IH[of "Suc i" ?o] o by simp
    moreover have "take userCodeLen (?o @ accepted ?rest) = take userCodeLen (out @ accepted (buf @ ?rest))"
      unfolding o accepted_append append_assoc[symmetric] by (rule take_take_append)
    ultimately show ?thesis using True buf unfolding split by (simp add: userCodeLoop.simps[of rnd i out])
  next
    case False
    then show ?thesis using Suc.prems(2) by (simp add: userCodeLoop.simps[of rnd i out])
  qed
qed

lemma userCodeLoop_stuck:
  assumes "userCodeLoop rnd i out = Some r"
  shows "(\<forall>i. \<exists>buf. rnd i = Some buf \<and> accepted buf = []) \<longrightarrow> userCodeLen \<le> length out"
proof (rule userCodeLoop.raw_induct[OF _ assms], rule impI, rule ccontr)
  fix loop rnd i out r
  assume IH: "\<And>rnd i out y. loop rnd i out = Some y \<Longrightarrow> (\<forall>i. \<exists>buf. rnd i = Some buf \<and> accepted buf = []) \<longrightarrow> userCodeLen \<le> length out"
    and step: "(if length out < userCodeLen then case rnd i of None \<Rightarrow> Some (Inl ''rand: read'') | Some buf \<Rightarrow> loop rnd (Suc i) (userCodeBytes buf out) else Some (Inr out)) = Some r"
    and bad: "\<forall>i. \<exists>buf. rnd i = Some buf \<and> accepted buf = []" and short: "\<not> userCodeLen \<le> length out"
  obtain buf where buf: "rnd i = Some buf" "accepted buf = []" using bad by blast
  have "userCodeBytes buf out = out" using userCodeBytes_accepted[of out buf] short buf(2) by simp
  then have "loop rnd (Suc i) out = Some r" using step buf(1) short by simp
  then show False using IH bad short by blast
qed

lemma alphabet_codes: "c \<in> set userCodeAlphabet \<Longrightarrow> canonicalUserCode [c] = [c] \<and> c \<noteq> CHR ''-''"
proof -
  have "list_all (\<lambda>c. canonicalUserCode [c] = [c] \<and> c \<noteq> CHR ''-'') userCodeAlphabet" by code_simp
  then show "c \<in> set userCodeAlphabet \<Longrightarrow> ?thesis" by (simp add: list_all_iff)
qed

lemma canonicalUserCode_append: "canonicalUserCode (a @ b) = canonicalUserCode a @ canonicalUserCode b"
  by (simp add: canonicalUserCode_def)

lemma canonicalUserCode_fixed: "(\<And>c. c \<in> set s \<Longrightarrow> canonicalUserCode [c] = [c]) \<Longrightarrow> canonicalUserCode s = s"
proof (induction s)
  case (Cons c s)
  then show ?case using canonicalUserCode_append[of "[c]" s] by simp
qed (simp add: canonicalUserCode_def)

lemma canonicalUserCode_format: "canonicalUserCode (formatUserCode s) = canonicalUserCode s"
proof -
  have dash: "canonicalUserCode ''-'' = []" by code_simp
  have "canonicalUserCode (take n s) @ canonicalUserCode (drop n s) = canonicalUserCode s" for n
    unfolding canonicalUserCode_append[symmetric] append_take_drop_id ..
  moreover have "canonicalUserCode (a @ ''-'' @ b) = canonicalUserCode a @ canonicalUserCode b" for a b
    unfolding canonicalUserCode_append dash by simp
  ultimately show ?thesis by (simp add: formatUserCode_def)
qed

lemma userCodeChar_in: "userCodeChar b \<in> set userCodeAlphabet"
  unfolding userCodeChar_def by (rule nth_mem) (simp add: userCodeAlphabet_def)

lemma accepted_alphabet: "set (accepted bs) \<subseteq> set userCodeAlphabet"
  using userCodeChar_in by (auto simp: accepted_def)

lemma alphabet_even:
  assumes "c \<in> set userCodeAlphabet"
  shows "card {b. (of_char b :: nat) < userCodeRandRejectionCap \<and> userCodeChar b = c} = 10"
proof -
  have len: "length userCodeAlphabet = 24" by (simp add: userCodeAlphabet_def)
  have "distinct userCodeAlphabet" by code_simp
  moreover obtain k where k: "k < 24" "c = userCodeAlphabet ! k" using assms unfolding in_set_conv_nth len by blast
  ultimately have char: "userCodeChar b = c \<longleftrightarrow> of_char b mod 24 = k" for b
    unfolding userCodeChar_def len k(2) by (subst nth_eq_iff_index_eq) (simp_all add: len)
  let ?f = "\<lambda>j. char_of (24 * j + k :: nat) :: char"
  have f: "(of_char (?f j) :: nat) = 24 * j + k" if "j < 10" for j using that k(1) by simp
  have "{b. (of_char b :: nat) < userCodeRandRejectionCap \<and> userCodeChar b = c} = ?f ` {..<10}"
  proof (intro equalityI subsetI)
    fix b assume "b \<in> {b. (of_char b :: nat) < userCodeRandRejectionCap \<and> userCodeChar b = c}"
    then have b: "(of_char b :: nat) < 240" "(of_char b :: nat) mod 24 = k" unfolding char userCodeRandRejectionCap_def by simp_all
    have "24 * (of_char b div 24) + k = (of_char b :: nat)" using mult_div_mod_eq[of 24 "of_char b :: nat"] b(2) by simp
    then have "b = ?f (of_char b div 24)" by simp
    moreover have "(of_char b :: nat) div 24 < 10" using b(1) by (intro less_mult_imp_div_less) simp
    ultimately show "b \<in> ?f ` {..<10}" by blast
  next
    fix b assume "b \<in> ?f ` {..<10}"
    then obtain j where "j < 10" "b = ?f j" by blast
    then show "b \<in> {b. (of_char b :: nat) < userCodeRandRejectionCap \<and> userCodeChar b = c}"
      using f[of j] k(1) unfolding char userCodeRandRejectionCap_def by simp
  qed
  moreover have "inj_on ?f {..<10}"
  proof (rule inj_onI)
    fix i j assume "i \<in> {..<10::nat}" "j \<in> {..<10::nat}" "?f i = ?f j"
    then show "i = j" using f[of i] f[of j] by (metis add_right_cancel lessThan_iff mult_cancel1 zero_neq_numeral)
  qed
  ultimately show ?thesis by (simp add: card_image)
qed



section \<open>Starting a device flow\<close>

definition wf_user_code :: "string \<Rightarrow> bool" where
  "wf_user_code c = (length c = userCodeLen \<and> set c \<subseteq> set userCodeAlphabet)"

lemma userCodeLoop_wf:
  assumes "userCodeLoop rnd i out = Some r"
  shows "length out \<le> userCodeLen \<and> set out \<subseteq> set userCodeAlphabet \<longrightarrow> (\<forall>c. r = Inr c \<longrightarrow> wf_user_code c)"
proof (rule userCodeLoop.raw_induct[OF _ assms], rule impI, elim conjE)
  fix loop rnd i out r
  assume IH: "\<And>rnd i out y. loop rnd i out = Some y \<Longrightarrow> length out \<le> userCodeLen \<and> set out \<subseteq> set userCodeAlphabet \<longrightarrow> (\<forall>c. y = Inr c \<longrightarrow> wf_user_code c)"
    and step: "(if length out < userCodeLen then case rnd i of None \<Rightarrow> Some (Inl ''rand: read'') | Some buf \<Rightarrow> loop rnd (Suc i) (userCodeBytes buf out) else Some (Inr out)) = Some r"
    and out: "length out \<le> userCodeLen" "set out \<subseteq> set userCodeAlphabet"
  have bytes: "length (userCodeBytes buf out) \<le> userCodeLen \<and> set (userCodeBytes buf out) \<subseteq> set userCodeAlphabet" for buf
  proof -
    have "set (out @ accepted buf) \<subseteq> set userCodeAlphabet" using out(2) accepted_alphabet[of buf] by simp
    then have "set (take userCodeLen (out @ accepted buf)) \<subseteq> set userCodeAlphabet" by (rule subset_trans[OF set_take_subset])
    then show ?thesis unfolding userCodeBytes_accepted[OF out(1)] by (simp only: length_take min.cobounded2 simp_thms)
  qed
  show "\<forall>c. r = Inr c \<longrightarrow> wf_user_code c"
  proof (cases "length out < userCodeLen")
    case True
    show ?thesis
    proof (cases "rnd i")
      case None
      then show ?thesis using step True by auto
    next
      case (Some buf)
      then have "loop rnd (Suc i) (userCodeBytes buf out) = Some r" using step True by simp
      then show ?thesis using IH bytes[of buf] by blast
    qed
  next
    case False
    then have "r = Inr out" "length out = userCodeLen" using step out(1) by auto
    then show ?thesis using out(2) unfolding wf_user_code_def by blast
  qed
qed

lemma randomUserCode_wf: "randomUserCode rnd = Some (Inr c) \<Longrightarrow> wf_user_code c"
  using userCodeLoop_wf[of rnd 0 "[]"] by (simp add: randomUserCode_def)

lemma wf_user_code_canonical: "wf_user_code c \<Longrightarrow> canonicalUserCode (formatUserCode c) = c"
  unfolding canonicalUserCode_format wf_user_code_def by (rule canonicalUserCode_fixed) (metis alphabet_codes subsetD)

lemma mintLoop_returns:
  assumes "\<forall>i. randomUserCode (dae_user env i) \<noteq> None"
  shows "\<exists>res st'. mintLoop h env cid scope k st = Some (res, st')"
proof (induction k arbitrary: st)
  case (Suc k)
  obtain r where "randomUserCode (dae_user env (userCodeMaxRetries - Suc k)) = Some r" using assms by blast
  then show ?case using Suc by (auto simp: Let_def split: option.split sum.split prod.split)
qed simp

context device_store
begin

lemma mint_sound:
  assumes "dinv st" "da_store h = dops" "mintLoop h env cid scope k st = Some (res, st')"
  shows "dinv st' \<and> (case res of Inl e \<Rightarrow> dabs st' = dabs st
    | Inr dc \<Rightarrow> \<exists>code uc. dc = newDeviceCode code uc cid scope (dae_now env) \<and> wf_user_code uc \<and> dabs st (Hash code) = None \<and>
        (\<forall>x\<in>ran (dabs st). dc_UserCode x \<noteq> uc) \<and> dabs st' = (dabs st)(Hash code \<mapsto> dc\<lparr>dc_Code := []\<rparr>))"
  using assms(1,3)
proof (induction k arbitrary: st)
  case (Suc k)
  let ?i = "userCodeMaxRetries - Suc k"
  show ?case
  proof (cases "\<exists>code uc. randomDeviceCode (dae_device env ?i) = Some code \<and> randomUserCode (dae_user env ?i) = Some (Inr uc)")
    case True
    then obtain code uc where c: "randomDeviceCode (dae_device env ?i) = Some code" "randomUserCode (dae_user env ?i) = Some (Inr uc)" by blast
    let ?dc = "newDeviceCode code uc cid scope (dae_now env)"
    obtain err st1 where sv: "ds_SaveDeviceCode dops st ?dc = (err, st1)" by fastforce
    note law = save[OF Suc.prems(1) sv]
    show ?thesis
    proof (cases err)
      case None
      then have "dabs st (Hash code) = None" "\<forall>x\<in>ran (dabs st). dc_UserCode x \<noteq> uc" "dabs st1 = (dabs st)(Hash code \<mapsto> ?dc\<lparr>dc_Code := []\<rparr>)" "dinv st1"
        using law by (auto simp: spec_SaveDeviceCode_def newDeviceCode_def split: if_splits)
      moreover have "res = Inr ?dc" "st' = st1" using Suc.prems(2) None sv c by (simp_all add: Let_def assms(2))
      ultimately show ?thesis using randomUserCode_wf[OF c(2)] by auto
    next
      case (Some e)
      then have same: "dinv st1" "dabs st1 = dabs st" using law by (auto simp: spec_SaveDeviceCode_def split: if_splits)
      show ?thesis
      proof (cases "e = ErrDuplicateDeviceCode")
        case True
        then have "mintLoop h env cid scope k st1 = Some (res, st')" using Suc.prems(2) Some sv c by (simp add: Let_def assms(2))
        then show ?thesis using Suc.IH[OF same(1)] unfolding same(2) by blast
      next
        case False
        then show ?thesis using Suc.prems(2) Some sv c same by (auto simp: Let_def assms(2))
      qed
    qed
  next
    case False
    then show ?thesis using Suc.prems by (auto simp: Let_def split: option.splits sum.splits)
  qed
qed auto

end

text \<open>
  C23. What starting a device flow does. The endpoint answers whenever the draws of the user code return. When it
  answers with codes, the client is registered, public and allowed the device grant, and one row was added: pending,
  for that client, under the hash of the returned device code, expiring after the advertised time. No other row has
  its user code, and what the user is shown reads back as it. When the endpoint refuses, no row is added or changed.
\<close>

theorem device_authorization_sound:
  assumes "wf_devices st" "da_store h = sqliteDeviceStore" "\<forall>i. randomUserCode (dae_user env i) \<noteq> None"
  shows "\<exists>res st'. deviceAuthorization h env body st = Some (res, st') \<and> wf_devices st' \<and>
    (case res of Inl e \<Rightarrow> abs_devices st' = abs_devices st
     | Inr out \<Rightarrow> \<exists>form client dc. ParseQuery body = Some form \<and> Lookup (da_clients h) (Get form ''client_id'') = Some client \<and>
         ci_Secret client = [] \<and> Allows client grantDeviceCode \<and>
         abs_devices st (Hash (dao_DeviceCode out)) = None \<and> abs_devices st' = (abs_devices st)(Hash (dao_DeviceCode out) \<mapsto> dc) \<and>
         pending dc \<and> dc_ClientID dc = Get form ''client_id'' \<and> dc_ExpiresAt dc = dae_now env + dao_ExpiresIn out * Second \<and>
         dc_IntervalSeconds dc = dao_Interval out \<and> canonicalUserCode (dao_UserCode out) = dc_UserCode dc \<and>
         (\<forall>x\<in>ran (abs_devices st). dc_UserCode x \<noteq> dc_UserCode dc))"
proof (cases "\<exists>form client. ParseQuery body = Some form \<and> checkParamLengths [(''client_id'', Get form ''client_id'', maxClientIDLen), (''scope'', Get form ''scope'', maxScopeLen)] = None \<and>
    Get form ''client_id'' \<noteq> [] \<and> Lookup (da_clients h) (Get form ''client_id'') = Some client \<and> ci_Secret client = [] \<and> Allows client grantDeviceCode")
  case True
  then obtain form client where f: "ParseQuery body = Some form" "checkParamLengths [(''client_id'', Get form ''client_id'', maxClientIDLen), (''scope'', Get form ''scope'', maxScopeLen)] = None"
    "Get form ''client_id'' \<noteq> []" "Lookup (da_clients h) (Get form ''client_id'') = Some client" "ci_Secret client = []" "Allows client grantDeviceCode" by blast
  obtain res st' where m: "mintLoop h env (Get form ''client_id'') (Get form ''scope'') userCodeMaxRetries st = Some (res, st')"
    using mintLoop_returns[OF assms(3), of h "Get form ''client_id''" "Get form ''scope''" userCodeMaxRetries st] by blast
  have run: "deviceAuthorization h env body st = Some (case res of Inl e \<Rightarrow> (Inl e, st') | Inr dc \<Rightarrow> (Inr (deviceResponse h dc), st'))"
    unfolding deviceAuthorization_def mintDeviceCode_def Let_def using f m by (simp split: sum.split)
  note s = sqlite_devices.mint_sound[OF assms(1,2) m]
  show ?thesis
  proof (cases res)
    case (Inl e)
    then show ?thesis using run s by simp
  next
    case (Inr dc)
    then obtain code uc where dc: "dc = newDeviceCode code uc (Get form ''client_id'') (Get form ''scope'') (dae_now env)" "wf_user_code uc"
      "abs_devices st (Hash code) = None" "\<forall>x\<in>ran (abs_devices st). dc_UserCode x \<noteq> uc" "abs_devices st' = (abs_devices st)(Hash code \<mapsto> dc\<lparr>dc_Code := []\<rparr>)"
      using s by auto
    have ttl: "deviceCodeTTL div Second * Second = deviceCodeTTL" by (simp add: deviceCodeTTL_def Minute_def Second_def)
    show ?thesis
      by (intro exI[of _ "Inr (deviceResponse h dc)"] exI[of _ st'] conjI)
         (use run s Inr in simp, use s Inr in simp, simp only: sum.case,
          intro exI[of _ form] exI[of _ client] exI[of _ "dc\<lparr>dc_Code := []\<rparr>"] conjI,
          use dc f ttl wf_user_code_canonical in \<open>simp_all add: deviceResponse_def newDeviceCode_def pending_def\<close>)
  qed
next
  case False
  then have "\<exists>e. deviceAuthorization h env body st = Some (Inl e, st)"
    by (auto simp: deviceAuthorization_def Let_def split: option.split)
  then show ?thesis using assms(1) by fastforce
qed

theorem device_authorization_sound_witness:
  "\<exists>out st' dc. deviceAuthorization (NewDeviceAuthorization sqliteDeviceStore [(''cli'', \<lparr>ci_RedirectURIs = [], ci_GrantTypes = [grantDeviceCode], ci_Secret = []\<rparr>)] ''https://id/'')
     \<lparr>dae_now = Hour, dae_device = (\<lambda>_. Some ''d''), dae_user = (\<lambda>_ _. Some (replicate 16 (CHR ''A'')))\<rparr> ''client_id=cli'' emptyStore = Some (Inr out, st') \<and>
     abs_devices st' (Hash (dao_DeviceCode out)) = Some dc \<and> pending dc \<and> canonicalUserCode (dao_UserCode out) = dc_UserCode dc"
proof -
  let ?h = "NewDeviceAuthorization sqliteDeviceStore [(''cli'', \<lparr>ci_RedirectURIs = [], ci_GrantTypes = [grantDeviceCode], ci_Secret = []\<rparr>)] ''https://id/''"
  let ?env = "\<lparr>dae_now = Hour, dae_device = (\<lambda>_. Some ''d''), dae_user = (\<lambda>_ _. Some (replicate 16 (CHR ''A'')))\<rparr>"
  have "length (userCodeBytes (replicate 16 (CHR ''A'')) []) = userCodeLen" by code_simp
  then obtain uc where uc: "randomUserCode (\<lambda>_. Some (replicate 16 (CHR ''A''))) = Some (Inr uc)"
    by (simp add: randomUserCode_def userCodeLoop.simps[of _ 0] userCodeLoop.simps[of _ "Suc 0"] userCodeLen_def)
  have q: "ParseQuery ''client_id=cli'' = Some [(''client_id'', ''cli'')]" by code_simp
  have run: "\<exists>out st'. deviceAuthorization ?h ?env ''client_id=cli'' emptyStore = Some (Inr out, st')"
    by (simp add: deviceAuthorization_def q Get_def maxClientIDLen_def maxScopeLen_def NewDeviceAuthorization_def Lookup_def Allows_def mintDeviceCode_def
        userCodeMaxRetries_def numeral_3_eq_3 randomDeviceCode_def uc sqliteDeviceStore_def SaveDeviceCode_def emptyStore_def Let_def)
  have wf: "wf_devices emptyStore" "da_store ?h = sqliteDeviceStore" "\<forall>i. randomUserCode (dae_user ?env i) \<noteq> None"
    by (simp_all add: wf_devices_def emptyStore_def NewDeviceAuthorization_def uc)
  obtain out st' where o: "deviceAuthorization ?h ?env ''client_id=cli'' emptyStore = Some (Inr out, st')" using run by blast
  then show ?thesis using device_authorization_sound[OF wf, of "''client_id=cli''"] by fastforce
qed

end
