(* ===== verification/Spec2Isabelle.thy ===== *)
theory Spec2Isabelle
  imports Admin_API Admin_Sessions Ratelimit Sign_In_Trace Device_Authorization
begin

text \<open>
  Verification of tempogate, the OIDC gateway that signs people in to Temporal through an upstream identity
  provider, issues and rotates their tokens, and mints integration keys for services (sources under src/).

  \<^bold>\<open>The program.\<close> A client registered in the configuration sends a browser to /authorize; the browser signs
  in upstream and comes back to /callback, which stores an authorization code; the client exchanges it at
  /token for an access token, an ID token and a refresh token, and rotates the refresh token there. A device
  obtains a device code, a person approves it in a browser, and the device polls /token. Operators mint and
  revoke integration keys and end sessions through the admin API. The state is in SQLite or PostgreSQL. Access
  tokens are signed with a ring of RSA keys that rotates while several processes serve requests.

  \<^bold>\<open>Standard library and shared facts.\<close> Theory Go_Prelude has Go's string functions, times and durations
  (nanoseconds in \<^typ>\<open>int\<close>) and association lists for maps; Go_Crypto SHA-256, HMAC, hexadecimal and base64;
  Go_AES AES-256-GCM; Go_Http percent-encoding, query strings and padded base64; Go_Url net/url. Strings are
  byte strings; case mapping and trimming are those of ASCII.

  \<^bold>\<open>Permissions.\<close> Perms models perms/perms.go (grants, the claim format), Authz models authz/authz.go (the rules
  that map an email to grants). They show that the claim format reads back, that a parsed claim means what
  the ORed mask of Temporal's mapper means, and that a policy grants the highest matching role.

  \<^bold>\<open>State.\<close> State_Types holds the persisted types and the schema: a table is the list of its rows. Token_Contract
  states what the token store promises as operations on partial maps from hashes, in the locale token_store;
  Sqlite_Tokens and Postgres_Tokens model state/sqlite and state/postgres (refresh.go, authcode.go, authrequest.go)
  and interpret it; Device_Store does the same for device codes, Key_Store for signing keys and Key_Registry
  for integration keys and the denylist. A transaction or a single statement is one step; where the SQLite
  store runs several statements for one call (polling a device code) the interleaving is modelled step by
  step. Backends proves in the locale backend_sim that the two databases cannot be told apart by any
  sequence of token requests.

  \<^bold>\<open>Keys.\<close> Keyring models the ring and its rotation (keys/keys.go, publish.go, retire.go, init.go,
  encryption.go), Signer minting and verification (signer.go, verifier.go) over the JOSE library as a record
  of functions with named laws, Denylist the revocation cache with concurrent lookups (denylist_cache.go).
  They show that some key can always sign and is published before it signs, that encryption at rest reads
  back, which tokens are accepted, and how stale a revocation can be.

  \<^bold>\<open>Token endpoint.\<close> Oidc_Base has what the handlers share (errors, parameter caps, clients, connector ids, PKCE,
  Basic credentials), Token the three grants of oidc/token.go and oidc/device_token.go as functions of the
  signer and the store, Token_Endpoint and Token_Sessions what holds of one request and of every sequence of
  requests: each credential is accepted once, reuse and replay end the session, a session never outlives its
  bound, refusals change nothing they should not.

  \<^bold>\<open>Clients.\<close> Clients and Redirect_URIs model oidc/client.go and show exactly which redirect URIs are accepted.

  \<^bold>\<open>Sign-in.\<close> Go_Cookies has net/http's cookies, Upstream_Binding oidc/upstreambinding.go and the registry of
  oidc/connector.go (a connector is a record of functions), Authorize and Callback the handlers of
  oidc/authorize.go and oidc/callback.go. They show that a sign-in is bound to the browser that started it.
  Code_Flow shows what a redirect back to a client carries; Login_Flow states in the locale login_store what
  the three endpoints need of a store they share, and Sign_In_Trace, over both databases, traces every token issued for
  a code back through a callback to an authorization request.

  \<^bold>\<open>Device flow.\<close> Browser_Sessions models the session of the verification page (oidc/session.go and its tables) and
  shows that a session is exactly what its signed cookie stands for. Device_Authorization models
  oidc/device_authorization.go: the user code is drawn by a loop that may run for ever, so it is a partial
  function, shown to return once enough random bytes are accepted; the retries of the endpoint are at most three.

  \<^bold>\<open>Admin API.\<close> Admin_Guard models the guard (admin/guard.go), Admin the handlers with their audit lines (keys.go,
  sessions.go, signing_keys.go, model.go), Admin_API and Admin_Sessions their properties: a minted key is
  sound, a revoked one is refused, pages are complete, revoked sessions are over.

  \<^bold>\<open>Rate limiting.\<close> Ratelimit models ratelimit/ratelimit.go, with token counts as rationals for float64.

  \<^bold>\<open>Inputs.\<close> Clock readings, random bytes and the answers of third-party code are arguments of the definitions.
  SHA-256 and HMAC are defined but no proof rests on collisions being absent.

  \<^bold>\<open>Not modelled.\<close> HTTP plumbing over huma and chi (package api), dependency injection (fx.go), commands and
  configuration loading (cmd, config), logging, redaction and telemetry, database connections, migrations
  and the change feed, the command-line client (cli), and the Google connector: they do I/O, format output or
  call libraries outside this repository. Of the device verification pages (oidc/device_ui.go) only the reading of a
  typed user code is modelled, since they render templates and carry JSON state; the rate-limit middleware and userinfo
  only call the modelled limiter and verifier. The reapers delete expired rows in the background and are left out.
\<close>

end
